(* ===== verification/Prelude.thy ===== *)
theory Prelude
  imports Main "HOL-Library.Word"
begin

text \<open>
  Shared ground of the development of the ARMv5 simulator (\<^verbatim>\<open>src/arm_simulator-1.4\<close>):
  the fixed-width integer types of the C sources, the outcomes of C code that ends the
  process, and what the C standard leaves open.

  The sources shift by amounts that are computed at run time and sometimes lie outside
  \<open>0..31\<close>, and they read automatic variables that were never written. The C standard gives
  such code no meaning. The model does not pick one: every operation whose result can depend
  on such a choice takes a \<open>cenv\<close>, the record of these choices, as its first argument, and
  theorems about it hold for every \<open>cenv\<close> unless they say otherwise. The environment
  \<open>x86_env\<close> is the one of the platform the program is built for (the shift instructions of
  the x86 family take the count modulo 32).
\<close>

unbundle bit_operations_syntax

section \<open>Machine types\<close>

type_synonym u8 = "8 word"
type_synonym u16 = "16 word"
type_synonym u32 = "32 word"
type_synonym u64 = "64 word"

section \<open>Ends of the process\<close>

text \<open>
  Code that may call \<^verbatim>\<open>exit\<close> or run into a failed \<^verbatim>\<open>assert\<close> returns
  \<open>halt + 'a\<close>: \<open>Inl\<close> when the process ends there. \<open>Abort\<close> is an end by a signal: a failed
  assertion, an access through a null pointer or a write to a connection that was shut down. \<open>Undefined\<close> is no end the
  program chooses: it has written past the end of an array or used storage that was freed, and the model says nothing of what
  follows.
\<close>

datatype halt = Exit int | Abort | Undefined

section \<open>What C leaves open\<close>

record cenv =
  oob_shl :: "u32 \<Rightarrow> int \<Rightarrow> u32"   \<comment> \<open>value of \<^verbatim>\<open>x << n\<close> for \<open>n\<close> outside \<open>0..31\<close>\<close>
  oob_shr :: "u32 \<Rightarrow> int \<Rightarrow> u32"   \<comment> \<open>value of \<^verbatim>\<open>x >> n\<close> for \<open>n\<close> outside \<open>0..31\<close>\<close>
  uninit_val :: u32                \<comment> \<open>first content of the local \<^verbatim>\<open>val\<close> of a load\<close>
  uninit_ins :: u32                \<comment> \<open>first content of the local that receives a fetched word\<close>
  beyond_packet :: "nat \<Rightarrow> u8"      \<comment> \<open>bytes that follow a received packet in the process's memory\<close>
  beyond_scan :: "nat \<Rightarrow> u32 option" \<comment> \<open>what \<^verbatim>\<open>sscanf\<close> reads there, at an offset; \<open>None\<close> when it finds no number\<close>
  uninit_res :: int                \<comment> \<open>first content of the local \<^verbatim>\<open>res\<close> of a multiple transfer\<close>

definition c_shl :: "cenv \<Rightarrow> u32 \<Rightarrow> int \<Rightarrow> u32" where
  "c_shl E x n = (if 0 \<le> n \<and> n < 32 then push_bit (nat n) x else oob_shl E x n)"

definition c_shr :: "cenv \<Rightarrow> u32 \<Rightarrow> int \<Rightarrow> u32" where
  "c_shr E x n = (if 0 \<le> n \<and> n < 32 then drop_bit (nat n) x else oob_shr E x n)"

definition x86_env :: "u32 \<Rightarrow> cenv" where
  "x86_env junk = \<lparr>oob_shl = (\<lambda>x n. push_bit (nat (n mod 32)) x),
                   oob_shr = (\<lambda>x n. drop_bit (nat (n mod 32)) x),
                   uninit_val = junk, uninit_ins = junk,
                   beyond_packet = (\<lambda>_. 0), beyond_scan = (\<lambda>_. None), uninit_res = sint junk\<rparr>"

text \<open>The law that the platform's shifts obey, as the interface its users rely on.\<close>

locale masking_shifts =
  fixes E :: cenv
  assumes oob_shl_masks: "oob_shl E x n = push_bit (nat (n mod 32)) x"
    and oob_shr_masks: "oob_shr E x n = drop_bit (nat (n mod 32)) x"
begin

lemma c_shl_masks: "c_shl E x n = push_bit (nat (n mod 32)) x"
  by (simp add: c_shl_def oob_shl_masks)

lemma c_shr_masks: "c_shr E x n = drop_bit (nat (n mod 32)) x"
  by (simp add: c_shr_def oob_shr_masks)

end

interpretation x86: masking_shifts "x86_env junk" for junk
  by unfold_locales (simp_all add: x86_env_def)

section \<open>Collections and generic lemmas\<close>

named_theorems core_frame \<open>what an operation leaves unchanged\<close>
named_theorems word_fields \<open>bit fields of an instruction as bits\<close>

lemma c_shl_in_range [simp]: "0 \<le> n \<Longrightarrow> n < 32 \<Longrightarrow> c_shl E x n = push_bit (nat n) x"
  by (simp add: c_shl_def)

lemma c_shr_in_range [simp]: "0 \<le> n \<Longrightarrow> n < 32 \<Longrightarrow> c_shr E x n = drop_bit (nat n) x"
  by (simp add: c_shr_def)

lemma uint_int_unat: "uint n = int (unat n)"
  by simp

lemma c_shr_uint: "unat n < 32 \<Longrightarrow> c_shr E x (uint n) = drop_bit (unat n) x"
  unfolding uint_int_unat by (simp del: of_nat_unat)

lemma c_shl_32_minus_uint:
  "0 < unat n \<Longrightarrow> unat n \<le> 32 \<Longrightarrow> c_shl E x (32 - uint n) = push_bit (32 - unat n) x"
  unfolding uint_int_unat by (simp del: of_nat_unat add: nat_diff_distrib)

lemma and_1_neq_0_iff_bit: "(drop_bit n x AND 1 \<noteq> 0) = bit x n" for x :: u32
  by (simp add: and_one_eq bit_iff_odd_drop_bit odd_iff_mod_2_eq_one)

lemma and_0xFF: "x AND 0xFF = take_bit 8 x" for x :: u32
  by (simp add: take_bit_eq_mask mask_eq_exp_minus_1)

lemma and_0xF: "x AND 0xF = take_bit 4 x" for x :: u32
  by (simp add: take_bit_eq_mask mask_eq_exp_minus_1)

lemma uint32_bounds: "0 \<le> uint x" "uint x < 4294967296" for x :: u32
  using uint_lt2p [of x] by simp_all

lemma bit31_iff: "bit x 31 \<longleftrightarrow> 2147483648 \<le> uint x" for x :: u32
proof -
  have eq: "bit x 31 \<longleftrightarrow> odd (uint x div 2147483648)"
    by (simp add: bit_uint_iff bit_iff_odd [of "uint x", symmetric, of 31, simplified])
  show ?thesis
  proof (cases "2147483648 \<le> uint x")
    case True
    then have "uint x div 2147483648 = 1"
      using uint32_bounds [of x] by (simp add: div_pos_geq)
    with True eq show ?thesis by simp
  next
    case False
    then have "uint x div 2147483648 = 0"
      using uint32_bounds [of x] by simp
    with False eq show ?thesis by simp
  qed
qed

lemma sint_by_bit31: "sint x = (if bit x 31 then uint x - 4294967296 else uint x)" for x :: u32
proof -
  have eq: "sint x = (uint x + 2147483648) mod 4294967296 - 2147483648"
    by (simp add: sint_uint signed_take_bit_eq_take_bit_shift take_bit_eq_mod)
  show ?thesis
  proof (cases "2147483648 \<le> uint x")
    case True
    then show ?thesis using uint32_bounds [of x] by (simp add: eq bit31_iff mod_pos_geq)
  next
    case False
    then show ?thesis using uint32_bounds [of x] by (simp add: eq bit31_iff)
  qed
qed

text \<open>A word below a small bound is one of finitely many numerals.\<close>

lemma word_less_4_cases:
  fixes x :: u32
  assumes "unat x < 4"
  shows "x = 0 \<or> x = 1 \<or> x = 2 \<or> x = 3"
proof -
  have "unat x \<in> {0, 1, 2, 3}" using assms by (auto simp: numeral_eq_Suc less_Suc_eq)
  moreover have "x = of_nat (unat x)" by simp
  ultimately show ?thesis by fastforce
qed

lemma word_less_8_cases:
  fixes x :: u32
  assumes "unat x < 8"
  shows "x \<in> {0, 1, 2, 3, 4, 5, 6, 7}"
proof -
  have "unat x \<in> {0, 1, 2, 3, 4, 5, 6, 7}" using assms by (auto simp: numeral_eq_Suc less_Suc_eq)
  moreover have "x = of_nat (unat x)" by simp
  ultimately show ?thesis by fastforce
qed

lemma word_less_16_cases:
  fixes x :: u32
  assumes "unat x < 16"
  shows "x \<in> {0, 1, 2, 3, 4, 5, 6, 7, 8, 9, 10, 11, 12, 13, 14, 15}"
proof -
  have "unat x \<in> {0, 1, 2, 3, 4, 5, 6, 7, 8, 9, 10, 11, 12, 13, 14, 15}"
    using assms by (auto simp: numeral_eq_Suc less_Suc_eq)
  moreover have "x = of_nat (unat x)" by simp
  ultimately show ?thesis by fastforce
qed

lemma fold_filter_skip: "(\<And>x s. \<not> P x \<Longrightarrow> f x s = s) \<Longrightarrow> fold f xs = fold f (filter P xs)"
  by (induction xs) auto

end
