(* ===== verification/Arm_Constants.thy ===== *)
theory Arm_Constants
  imports Prelude
begin

text \<open>
  The constants of \<^verbatim>\<open>arm_constants.h\<close> and the name tables of \<^verbatim>\<open>arm_constants.c\<close>.
  The \<^verbatim>\<open>#define\<close>s are abbreviations, so that the simplifier sees the numbers. A name that
  clashes with the bit operations or with a single letter carries a prefix: the data
  processing opcodes are \<open>op_AND\<close>, \<open>op_EOR\<close>, ..., the conditions \<open>cond_EQ\<close>, ..., the bits
  of the status register \<open>CPSR_N\<close>, ... A \<^verbatim>\<open>NULL\<close> entry of a name table is \<open>None\<close>; an
  index past the end of a table, which C reads out of bounds, is \<open>Inl ()\<close>.
\<close>

section \<open>Opcodes, instruction types and conditions\<close>

abbreviation (input) op_AND :: u32 where "op_AND \<equiv> 0"
abbreviation (input) op_EOR :: u32 where "op_EOR \<equiv> 1"
abbreviation (input) op_SUB :: u32 where "op_SUB \<equiv> 2"
abbreviation (input) op_RSB :: u32 where "op_RSB \<equiv> 3"
abbreviation (input) op_ADD :: u32 where "op_ADD \<equiv> 4"
abbreviation (input) op_ADC :: u32 where "op_ADC \<equiv> 5"
abbreviation (input) op_SBC :: u32 where "op_SBC \<equiv> 6"
abbreviation (input) op_RSC :: u32 where "op_RSC \<equiv> 7"
abbreviation (input) op_TST :: u32 where "op_TST \<equiv> 8"
abbreviation (input) op_TEQ :: u32 where "op_TEQ \<equiv> 9"
abbreviation (input) op_CMP :: u32 where "op_CMP \<equiv> 10"
abbreviation (input) op_CMN :: u32 where "op_CMN \<equiv> 11"
abbreviation (input) op_ORR :: u32 where "op_ORR \<equiv> 12"
abbreviation (input) op_MOV :: u32 where "op_MOV \<equiv> 13"
abbreviation (input) op_BIC :: u32 where "op_BIC \<equiv> 14"
abbreviation (input) op_MVN :: u32 where "op_MVN \<equiv> 15"

abbreviation (input) DATA_PROCESSING_SHIFT :: u32 where "DATA_PROCESSING_SHIFT \<equiv> 0"
abbreviation (input) DATA_PROCESSING_IMMEDIATE :: u32 where "DATA_PROCESSING_IMMEDIATE \<equiv> 1"
abbreviation (input) LOAD_STORE_IMMEDIATE :: u32 where "LOAD_STORE_IMMEDIATE \<equiv> 2"
abbreviation (input) LOAD_STORE_REGISTER :: u32 where "LOAD_STORE_REGISTER \<equiv> 3"
abbreviation (input) LOAD_STORE_MULTIPLE :: u32 where "LOAD_STORE_MULTIPLE \<equiv> 4"
abbreviation (input) BRANCH :: u32 where "BRANCH \<equiv> 5"
abbreviation (input) LOAD_STORE_COPROC :: u32 where "LOAD_STORE_COPROC \<equiv> 6"
abbreviation (input) COPROCESSOR_OTHERS_SWI :: u32 where "COPROCESSOR_OTHERS_SWI \<equiv> 7"

abbreviation (input) cond_EQ :: u32 where "cond_EQ \<equiv> 0"
abbreviation (input) cond_NE :: u32 where "cond_NE \<equiv> 1"
abbreviation (input) cond_CS :: u32 where "cond_CS \<equiv> 2"
abbreviation (input) cond_CC :: u32 where "cond_CC \<equiv> 3"
abbreviation (input) cond_MI :: u32 where "cond_MI \<equiv> 4"
abbreviation (input) cond_PL :: u32 where "cond_PL \<equiv> 5"
abbreviation (input) cond_VS :: u32 where "cond_VS \<equiv> 6"
abbreviation (input) cond_VC :: u32 where "cond_VC \<equiv> 7"
abbreviation (input) cond_HI :: u32 where "cond_HI \<equiv> 8"
abbreviation (input) cond_LS :: u32 where "cond_LS \<equiv> 9"
abbreviation (input) cond_GE :: u32 where "cond_GE \<equiv> 10"
abbreviation (input) cond_LT :: u32 where "cond_LT \<equiv> 11"
abbreviation (input) cond_GT :: u32 where "cond_GT \<equiv> 12"
abbreviation (input) cond_LE :: u32 where "cond_LE \<equiv> 13"
abbreviation (input) cond_AL :: u32 where "cond_AL \<equiv> 14"

section \<open>Registers, modes, exceptions, status bits, shifts\<close>

abbreviation (input) SP :: u8 where "SP \<equiv> 13"
abbreviation (input) LR :: u8 where "LR \<equiv> 14"
abbreviation (input) PC :: u8 where "PC \<equiv> 15"
abbreviation (input) CPSR :: nat where "CPSR \<equiv> 16"

abbreviation (input) USR :: u8 where "USR \<equiv> 0x10"
abbreviation (input) FIQ :: u8 where "FIQ \<equiv> 0x11"
abbreviation (input) IRQ :: u8 where "IRQ \<equiv> 0x12"
abbreviation (input) SVC :: u8 where "SVC \<equiv> 0x13"
abbreviation (input) ABT :: u8 where "ABT \<equiv> 0x17"
abbreviation (input) UND :: u8 where "UND \<equiv> 0x1b"
abbreviation (input) SYS :: u8 where "SYS \<equiv> 0x1f"

abbreviation (input) RESET :: int where "RESET \<equiv> 1"
abbreviation (input) UNDEFINED_INSTRUCTION :: int where "UNDEFINED_INSTRUCTION \<equiv> 2"
abbreviation (input) SOFTWARE_INTERRUPT :: int where "SOFTWARE_INTERRUPT \<equiv> 3"
abbreviation (input) PREFETCH_ABORT :: int where "PREFETCH_ABORT \<equiv> 4"
abbreviation (input) DATA_ABORT :: int where "DATA_ABORT \<equiv> 5"
abbreviation (input) IMPRECISE_ABORT :: int where "IMPRECISE_ABORT \<equiv> 6"
abbreviation (input) INTERRUPT :: int where "INTERRUPT \<equiv> 7"
abbreviation (input) FAST_INTERRUPT :: int where "FAST_INTERRUPT \<equiv> 8"

abbreviation (input) CPSR_N :: nat where "CPSR_N \<equiv> 31"
abbreviation (input) CPSR_Z :: nat where "CPSR_Z \<equiv> 30"
abbreviation (input) CPSR_C :: nat where "CPSR_C \<equiv> 29"
abbreviation (input) CPSR_V :: nat where "CPSR_V \<equiv> 28"

abbreviation (input) shift_LSL :: u32 where "shift_LSL \<equiv> 0"
abbreviation (input) shift_LSR :: u32 where "shift_LSR \<equiv> 1"
abbreviation (input) shift_ASR :: u32 where "shift_ASR \<equiv> 2"
abbreviation (input) shift_ROR :: u32 where "shift_ROR \<equiv> 3"

section \<open>Name tables\<close>

definition arm_mode_names :: "string option list" where
  "arm_mode_names =
     [None, None, None, None, None, None, None, None, None, None, None, None, None, None, None,
      None, Some ''USR'', Some ''FIQ'', Some ''IRQ'', Some ''SVC'', None, None, None,
      Some ''ABT'', None, None, None, Some ''UND'', None, None, None, Some ''SYS'']"

definition arm_register_names :: "string option list" where
  "arm_register_names =
     [Some ''R00'', Some ''R01'', Some ''R02'', Some ''R03'', Some ''R04'', Some ''R05'',
      Some ''R06'', Some ''R07'', Some ''R08'', Some ''R09'', Some ''R10'', Some ''R11'',
      Some ''R12'', Some ''SP'', Some ''LR'', Some ''PC'', Some ''CPSR'', Some ''SPSR'']"

definition arm_exception_names :: "string option list" where
  "arm_exception_names =
     [None, Some ''reset'', Some ''undefined instruction'', Some ''software interrupt'',
      Some ''prefetch abort'', Some ''data abort'', Some ''imprecise_abort'',
      Some ''interrupt'', Some ''fast interrupt'']"

definition arm_opcode_names :: "string option list" where
  "arm_opcode_names =
     [Some ''AND'', Some ''EOR'', Some ''SUB'', Some ''RSB'', Some ''ADD'', Some ''ADC'',
      Some ''SBC'', Some ''RSC'', Some ''TST'', Some ''TEQ'', Some ''CMP'', Some ''CMN'',
      Some ''ORR'', Some ''MOV'', Some ''BIC'', Some ''MVN'']"

definition table_entry :: "string option list \<Rightarrow> u8 \<Rightarrow> unit + string option" where
  "table_entry t i = (if unat i < length t then Inr (t ! unat i) else Inl ())"

definition arm_get_exception_name :: "u8 \<Rightarrow> unit + string option" where
  "arm_get_exception_name exception =
     (if exception < 9 then table_entry arm_exception_names exception else Inr None)"

definition arm_get_mode_name :: "u8 \<Rightarrow> unit + string option" where
  "arm_get_mode_name mode = table_entry arm_mode_names mode"

definition arm_get_register_name :: "u8 \<Rightarrow> unit + string option" where
  "arm_get_register_name reg = table_entry arm_register_names reg"

definition arm_get_opcode_name :: "u8 \<Rightarrow> unit + string option" where
  "arm_get_opcode_name code = table_entry arm_opcode_names code"

section \<open>Bounds of the name tables\<close>

lemma length_name_tables [simp]:
  "length arm_mode_names = 32" "length arm_register_names = 18"
  "length arm_exception_names = 9" "length arm_opcode_names = 16"
  by (simp_all add: arm_mode_names_def arm_register_names_def arm_exception_names_def
      arm_opcode_names_def)

lemma table_entry_in_bounds: "unat i < length t \<Longrightarrow> table_entry t i = Inr (t ! unat i)"
  by (simp add: table_entry_def)

end
