(* ===== verification/Arm_Util.thy ===== *)
theory Arm_Util
  imports Arm_Constants
begin

text \<open>
  The bit macros of \<^verbatim>\<open>util.h\<close> and the functions of \<^verbatim>\<open>util.c\<close>. The macro
  \<^verbatim>\<open>get_bit\<close> has two models: \<open>get_bit\<close> for an index that is a literal below 32, and
  \<open>get_bit_at\<close> for an index computed at run time, whose shift may be out of range.
\<close>

section \<open>Definitions\<close>

definition get_bit :: "u32 \<Rightarrow> nat \<Rightarrow> u32" where
  "get_bit x i = drop_bit i x AND 1"

definition get_bit_at :: "cenv \<Rightarrow> u32 \<Rightarrow> int \<Rightarrow> u32" where
  "get_bit_at E x i = c_shr E x i AND 1"

definition set_bit_c :: "u32 \<Rightarrow> nat \<Rightarrow> u32" where
  "set_bit_c x i = x OR push_bit i 1"

definition clr_bit :: "u32 \<Rightarrow> nat \<Rightarrow> u32" where
  "clr_bit x i = x AND NOT (push_bit i 1)"

text \<open>\<^verbatim>\<open>~0\<close> is a signed \<^verbatim>\<open>int\<close>: its right shift is arithmetic.\<close>

definition get_bits :: "u32 \<Rightarrow> nat \<Rightarrow> nat \<Rightarrow> u32" where
  "get_bits x h l =
     drop_bit l x AND NOT (push_bit (h - l + 1) (signed_drop_bit (h - l + 1) (NOT 0)))"

definition set_bits_c :: "u32 \<Rightarrow> nat \<Rightarrow> nat \<Rightarrow> u32 \<Rightarrow> u32" where
  "set_bits_c x h l bits =
     (x AND NOT (push_bit l (signed_drop_bit l (NOT 0)))) OR
     (x AND push_bit (h + 1) (signed_drop_bit (h + 1) (NOT 0))) OR push_bit l bits"

definition reverse_2 :: "u32 \<Rightarrow> u32" where
  "reverse_2 x = push_bit 8 (x AND 0xFF) OR (drop_bit 8 x AND 0xFF)"

definition reverse_4 :: "u32 \<Rightarrow> u32" where
  "reverse_4 x =
     push_bit 24 (x AND 0xFF) OR push_bit 16 (drop_bit 8 x AND 0xFF) OR
     push_bit 8 (drop_bit 16 x AND 0xFF) OR (drop_bit 24 x AND 0xFF)"

definition asr :: "cenv \<Rightarrow> u32 \<Rightarrow> u8 \<Rightarrow> u32" where
  "asr E value shift =
     c_shr E value (uint shift) OR
     (if get_bit value 31 \<noteq> 0 then c_shl E (NOT 0) (32 - uint shift) else 0)"

definition ror :: "cenv \<Rightarrow> u32 \<Rightarrow> u8 \<Rightarrow> u32" where
  "ror E value rotation = c_shr E value (uint rotation) OR c_shl E value (32 - uint rotation)"

definition change_bit :: "u32 \<Rightarrow> nat \<Rightarrow> bool \<Rightarrow> u32" where
  "change_bit s n val = (if val then set_bit_c s n else clr_bit s n)"

section \<open>The macros as bits\<close>

lemma get_bit_neq_0 [simp, word_fields]: "get_bit x i \<noteq> 0 \<longleftrightarrow> bit x i"
  by (simp add: get_bit_def and_1_neq_0_iff_bit)

lemma get_bit_eq_0 [simp, word_fields]: "get_bit x i = 0 \<longleftrightarrow> \<not> bit x i"
  using get_bit_neq_0 [of x i] by blast

lemma get_bit_of_bool: "get_bit x i = of_bool (bit x i)"
  by (simp add: get_bit_def and_one_eq bit_iff_odd_drop_bit odd_iff_mod_2_eq_one mod2_eq_if)

lemma get_bit_at_in_range [simp]: "0 \<le> i \<Longrightarrow> i < 32 \<Longrightarrow> get_bit_at E x i = get_bit x (nat i)"
  by (simp add: get_bit_at_def get_bit_def)

lemma bit_change_bit [simp]:
  "n < 32 \<Longrightarrow> bit (change_bit s n v) k \<longleftrightarrow> (if k = n then v else bit s k)"
  by (auto simp: change_bit_def set_bit_c_def clr_bit_def bit_simps dest: bit_imp_le_length)

lemma get_bits_take_bit: "l \<le> h \<Longrightarrow> h < 32 \<Longrightarrow> get_bits x h l = take_bit (h - l + 1) (drop_bit l x)"
  by (auto simp: get_bits_def bit_simps intro!: bit_word_eqI)

lemma get_bits_less: "l \<le> h \<Longrightarrow> h < 32 \<Longrightarrow> unat (get_bits x h l) < 2 ^ (h - l + 1)"
  by (simp only: get_bits_take_bit unsigned_take_bit_eq) (rule take_bit_nat_less_exp)

text \<open>What \<^verbatim>\<open>set_bits\<close> stores, \<^verbatim>\<open>get_bits\<close> reads; the other bits are kept.\<close>

lemma get_set_bits:
  assumes "l \<le> h" "h < 31" and fits: "take_bit (h - l + 1) bits = bits"
  shows "get_bits (set_bits_c x h l bits) h l = bits"
    "n < l \<or> h < n \<Longrightarrow> n < 32 \<Longrightarrow> bit (set_bits_c x h l bits) n = bit x n"
proof -
  have b: "bit bits n \<Longrightarrow> n \<le> h - l" for n using fits by (metis bit_take_bit_iff less_Suc_eq_le Suc_eq_plus1)
  have s: "bit (set_bits_c x h l bits) n \<longleftrightarrow> (if n < l \<or> h < n then bit x n else bit bits (n - l))" if "n < 32" for n
    using assms(1,2) that b [of "n - l"]
    by (auto simp: set_bits_c_def bit_or_iff bit_and_iff bit_not_iff bit_push_bit_iff bit_signed_drop_bit_iff bit_mask_iff not_less)
  show "n < l \<or> h < n \<Longrightarrow> n < 32 \<Longrightarrow> bit (set_bits_c x h l bits) n = bit x n" by (simp add: s)
  show "get_bits (set_bits_c x h l bits) h l = bits"
  proof (rule bit_word_eqI)
    fix n
    assume "n < LENGTH(32)"
    have "bit (get_bits (set_bits_c x h l bits) h l) n \<longleftrightarrow> n \<le> h - l \<and> bit (set_bits_c x h l bits) (l + n)"
      using assms(1,2) by (simp add: get_bits_take_bit bit_take_bit_iff bit_drop_bit_eq less_Suc_eq_le)
    also have "\<dots> \<longleftrightarrow> n \<le> h - l \<and> bit bits n"
      using assms(1,2) by (cases "n \<le> h - l") (auto simp: s)
    finally show "bit (get_bits (set_bits_c x h l bits) h l) n = bit bits n" using b [of n] by blast
  qed
qed

lemma bit_ror:
  assumes "0 < unat r" "unat r < 32" "k < 32"
  shows "bit (ror E v r) k \<longleftrightarrow> bit v ((k + unat r) mod 32)"
proof -
  note r = assms(1,2)
  have "bit (ror E v r) k \<longleftrightarrow> bit v (k + unat r) \<or> 32 - unat r \<le> k \<and> bit v (k - (32 - unat r))"
    using assms r by (simp add: ror_def c_shr_uint c_shl_32_minus_uint bit_simps add.commute)
  also have "\<dots> \<longleftrightarrow> bit v ((k + unat r) mod 32)"
  proof (cases "k + unat r < 32")
    case True
    then show ?thesis using r by auto
  next
    case False
    moreover have "\<not> bit v (k + unat r)"
      using False by (auto dest: bit_imp_le_length)
    moreover have "(k + unat r) mod 32 = k - (32 - unat r)"
      using False assms(3) r by (simp add: mod_if)
    ultimately show ?thesis by auto
  qed
  finally show ?thesis .
qed

lemma bit_asr:
  assumes "0 < unat s" "unat s < 32" "k < 32"
  shows "bit (asr E v s) k \<longleftrightarrow> bit v (min (k + unat s) 31)"
proof -
  note s = assms(1,2)
  have "bit (asr E v s) k \<longleftrightarrow> bit v (k + unat s) \<or> bit v 31 \<and> 32 - unat s \<le> k"
    using assms s by (auto simp: asr_def c_shr_uint c_shl_32_minus_uint bit_simps add.commute)
  also have "\<dots> \<longleftrightarrow> bit v (min (k + unat s) 31)"
    using s by (auto simp: min_def dest: bit_imp_le_length)
  finally show ?thesis .
qed

section \<open>Rotation and arithmetic shift against the word library\<close>

text \<open>
  For a rotation by 1 to 31 positions \<open>ror\<close> is the rotation to the right of the
  32-bit word, whatever the platform does with shifts that are out of range.
\<close>

lemma ror_is_rotation:
  assumes "0 < unat r" "unat r < 32"
  shows "ror E v r = word_rotr (unat r) v"
proof (rule bit_word_eqI)
  fix k
  assume "k < LENGTH(32)"
  with assms show "bit (ror E v r) k \<longleftrightarrow> bit (word_rotr (unat r) v) k"
    by (simp add: bit_ror bit_word_rotr_iff)
qed

text \<open>
  For a shift by 1 to 31 positions \<open>asr\<close> is the arithmetic shift to the right:
  the result read as a signed number is the operand divided by the power of two, rounded
  towards minus infinity.
\<close>

lemma asr_is_arithmetic_shift:
  assumes "0 < unat s" "unat s < 32"
  shows "asr E v s = signed_drop_bit (unat s) v \<and> sint (asr E v s) = sint v div 2 ^ unat s"
proof -
  have "asr E v s = signed_drop_bit (unat s) v"
  proof (rule bit_word_eqI)
    fix k
    assume "k < LENGTH(32)"
    with assms show "bit (asr E v s) k \<longleftrightarrow> bit (signed_drop_bit (unat s) v) k"
      by (cases "k + unat s \<le> 31") (auto simp: bit_asr bit_signed_drop_bit_iff add.commute [of k])
  qed
  then show ?thesis
    by (simp add: sint_signed_drop_bit_eq drop_bit_eq_div)
qed

lemma ror_0_masking:
  assumes "masking_shifts E"
  shows "ror E v 0 = v"
  using assms by (simp add: ror_def masking_shifts.c_shl_masks)

end
