(* ===== verification/Memory.thy ===== *)
theory Memory
  imports Arm_Util
begin

text \<open>
  The simulated memory of \<^verbatim>\<open>memory.c\<close>. The block \<^verbatim>\<open>mem->m\<close> is a function from
  offsets to bytes, total over the 32-bit offsets the code computes: an offset below
  \<open>mem_size\<close> is a byte of the block, any other one is whatever lies behind the block in
  the process's heap. Accesses outside the block are thus visible in the model, not ruled
  out by it. The out-parameter \<^verbatim>\<open>*value\<close> of a read is passed in with its former content
  and returned with its new one; a failed read leaves it as it was.
\<close>

section \<open>Definitions\<close>

record memory_data =
  mem_m :: "u32 \<Rightarrow> u8"
  mem_size :: u64
  is_big_endian_mem :: bool

type_synonym memory = memory_data

definition memory_create :: "(u32 \<Rightarrow> u8) \<Rightarrow> u64 \<Rightarrow> bool \<Rightarrow> memory" where
  "memory_create heap sz is_big_endian =
     \<lparr>mem_m = heap, mem_size = sz, is_big_endian_mem = is_big_endian\<rparr>"

definition memory_get_size :: "memory \<Rightarrow> u64" where
  "memory_get_size mem = mem_size mem"

definition is_not_valid_address :: "memory \<Rightarrow> u32 \<Rightarrow> bool" where
  "is_not_valid_address mem address \<longleftrightarrow> ucast address \<ge> memory_get_size mem"

definition memory_read_byte :: "memory \<Rightarrow> u32 \<Rightarrow> u8 \<Rightarrow> int \<times> u8" where
  "memory_read_byte mem address value =
     (if is_not_valid_address mem address then (DATA_ABORT, value)
      else (0, mem_m mem address))"

definition memory_read_half :: "memory \<Rightarrow> u32 \<Rightarrow> u16 \<Rightarrow> int \<times> u16" where
  "memory_read_half mem address value =
     (if is_not_valid_address mem address then (DATA_ABORT, value)
      else if is_big_endian_mem mem then
        (0, push_bit 8 (ucast (mem_m mem address)) OR ucast (mem_m mem (address + 1)))
      else
        (0, push_bit 8 (ucast (mem_m mem (address + 1))) OR ucast (mem_m mem address)))"

definition memory_read_word :: "memory \<Rightarrow> u32 \<Rightarrow> u32 \<Rightarrow> int \<times> u32" where
  "memory_read_word mem address value =
     (if is_not_valid_address mem address then (DATA_ABORT, value)
      else if is_big_endian_mem mem then
        (0, push_bit 24 (ucast (mem_m mem address)) OR push_bit 16 (ucast (mem_m mem (address + 1))) OR
            push_bit 8 (ucast (mem_m mem (address + 2))) OR ucast (mem_m mem (address + 3)))
      else
        (0, push_bit 24 (ucast (mem_m mem (address + 3))) OR push_bit 16 (ucast (mem_m mem (address + 2))) OR
            push_bit 8 (ucast (mem_m mem (address + 1))) OR ucast (mem_m mem address)))"

definition memory_write_byte :: "memory \<Rightarrow> u32 \<Rightarrow> u8 \<Rightarrow> int \<times> memory" where
  "memory_write_byte mem address value =
     (if is_not_valid_address mem address then (DATA_ABORT, mem)
      else (0, mem\<lparr>mem_m := (mem_m mem)(address := value)\<rparr>))"

definition memory_write_half :: "memory \<Rightarrow> u32 \<Rightarrow> u16 \<Rightarrow> int \<times> memory" where
  "memory_write_half mem address value =
     (if is_not_valid_address mem address then (DATA_ABORT, mem)
      else if address mod 2 \<noteq> 0 then (DATA_ABORT, mem)
      else if is_big_endian_mem mem then
        (0, mem\<lparr>mem_m := (mem_m mem)(address := ucast (drop_bit 8 value),
                             address + 1 := ucast value)\<rparr>)
      else
        (0, mem\<lparr>mem_m := (mem_m mem)(address := ucast value,
                             address + 1 := ucast (drop_bit 8 value))\<rparr>))"

definition memory_write_word :: "memory \<Rightarrow> u32 \<Rightarrow> u32 \<Rightarrow> int \<times> memory" where
  "memory_write_word mem address value =
     (if is_not_valid_address mem address then (DATA_ABORT, mem)
      else if address mod 4 \<noteq> 0 then (DATA_ABORT, mem)
      else if is_big_endian_mem mem then
        (0, mem\<lparr>mem_m := (mem_m mem)(address := ucast (drop_bit 24 value),
                             address + 1 := ucast (drop_bit 16 value),
                             address + 2 := ucast (drop_bit 8 value),
                             address + 3 := ucast value)\<rparr>)
      else
        (0, mem\<lparr>mem_m := (mem_m mem)(address := ucast value,
                             address + 1 := ucast (drop_bit 8 value),
                             address + 2 := ucast (drop_bit 16 value),
                             address + 3 := ucast (drop_bit 24 value))\<rparr>))"

section \<open>The bytes an access touches\<close>

definition span :: "u32 \<Rightarrow> nat \<Rightarrow> u32 set" where
  "span a n = (\<lambda>k. a + of_nat k) ` {..<n}"

definition in_block :: "memory \<Rightarrow> u32 \<Rightarrow> bool" where
  "in_block mem a \<longleftrightarrow> unat a < unat (mem_size mem)"

lemma valid_address_iff: "is_not_valid_address mem a \<longleftrightarrow> \<not> in_block mem a"
proof -
  have "unat (ucast a :: u64) = unat a"
    by (simp add: unsigned_ucast_eq take_bit_nat_eq_self unsigned_less [where 'a = nat, of a,
          THEN less_le_trans])
  then show ?thesis
    by (simp add: is_not_valid_address_def memory_get_size_def in_block_def word_le_nat_alt not_less)
qed

lemma in_block_cong: "mem_size mem' = mem_size mem \<Longrightarrow> in_block mem' a = in_block mem a"
  by (simp add: in_block_def)

lemma span_1: "span a 1 = {a}"
  by (simp add: span_def lessThan_Suc)

lemma span_2: "span a 2 = {a, a + 1}"
  by (auto simp: span_def numeral_eq_Suc lessThan_Suc)

lemma span_4: "span a 4 = {a, a + 1, a + 2, a + 3}"
  by (auto simp: span_def numeral_eq_Suc lessThan_Suc algebra_simps)

lemma unat_aligned_plus:
  assumes "unat a mod n = 0" "k < n" "n dvd 4294967296"
  shows "unat (a + of_nat k :: u32) = unat a + k"
proof -
  obtain q where q: "unat a = q * n"
    using assms(1) by (metis dvd_def mod_eq_0_iff_dvd mult.commute)
  obtain r where r: "(4294967296 :: nat) = r * n"
    using assms(3) by (metis dvd_def mult.commute)
  have "q * n < r * n" using unsigned_less [where 'a = nat, of a] unfolding q [symmetric] r [symmetric] by simp
  then have "q < r" by simp
  then have "Suc q * n \<le> r * n" by (intro mult_le_mono1) simp
  then have "q * n + n \<le> r * n" by simp
  with assms(2) q r have lt: "unat a + k < 4294967296" by linarith
  then show ?thesis
    by (simp add: unat_word_ariths unsigned_of_nat take_bit_nat_eq_self take_bit_eq_mod)
qed

lemma aligned_span_disjoint:
  assumes "unat a mod n = 0" "unat b mod n = 0" "n dvd 4294967296" "a \<noteq> b"
  shows "span a n \<inter> span b n = {}"
proof -
  have False if "k < n" "j < n" "a + of_nat k = b + of_nat j" for k j
  proof -
    have "unat a + k = unat b + j"
      using that assms by (metis unat_aligned_plus)
    then have "(unat a + k) mod n = (unat b + j) mod n" by simp
    then have "k = j" using that assms
      by (metis mod_add_left_eq add_0 mod_less)
    with \<open>unat a + k = unat b + j\<close> show False
      using assms(4) by (simp add: word_unat_eq_iff)
  qed
  then show ?thesis by (auto simp: span_def)
qed

lemma aligned_span_in_block:
  assumes "unat a mod n = 0" "n dvd 4294967296" "n dvd unat (mem_size mem)" "in_block mem a"
    and "b \<in> span a n"
  shows "in_block mem b"
proof -
  from assms(5) obtain k where k: "k < n" "b = a + of_nat k" by (auto simp: span_def)
  obtain q where q: "unat a = q * n"
    using assms(1) by (metis dvd_def mod_eq_0_iff_dvd mult.commute)
  obtain r where r: "unat (mem_size mem) = r * n"
    using assms(3) by (metis dvd_def mult.commute)
  have "q * n < r * n" using assms(4) q r by (simp add: in_block_def)
  then have "q < r" by simp
  then have "Suc q * n \<le> r * n" by (intro mult_le_mono1) simp
  then have "q * n + n \<le> r * n" by simp
  with k q r have "unat a + k < unat (mem_size mem)" by simp
  with k assms(1,2) show ?thesis by (simp add: in_block_def unat_aligned_plus)
qed

section \<open>The interface of a sized access\<close>

text \<open>
  What the byte, half and word accesses promise alike; \<open>width\<close> is the number of bytes and
  the alignment a write asks for.
\<close>

locale sized_access =
  fixes rd :: "memory \<Rightarrow> u32 \<Rightarrow> 'v \<Rightarrow> int \<times> 'v"
    and wr :: "memory \<Rightarrow> u32 \<Rightarrow> 'v \<Rightarrow> int \<times> memory"
    and width :: nat
  assumes width_dvd: "width dvd 4294967296"
    and wr_status: "fst (wr mem a v) =
          (if in_block mem a \<and> unat a mod width = 0 then 0 else DATA_ABORT)"
    and wr_failed: "fst (wr mem a v) \<noteq> 0 \<Longrightarrow> snd (wr mem a v) = mem"
    and wr_size: "mem_size (snd (wr mem a v)) = mem_size mem"
    and wr_endian: "is_big_endian_mem (snd (wr mem a v)) = is_big_endian_mem mem"
    and wr_frame: "b \<notin> span a width \<Longrightarrow> mem_m (snd (wr mem a v)) b = mem_m mem b"
    and rd_status: "fst (rd mem a old) = (if in_block mem a then 0 else DATA_ABORT)"
    and rd_failed: "fst (rd mem a old) \<noteq> 0 \<Longrightarrow> snd (rd mem a old) = old"
    and rd_after_wr: "fst (wr mem a v) = 0 \<Longrightarrow> rd (snd (wr mem a v)) a old = (0, v)"
    and rd_cong: "mem_size mem' = mem_size mem \<Longrightarrow> is_big_endian_mem mem' = is_big_endian_mem mem \<Longrightarrow>
          (\<And>b. b \<in> span a width \<Longrightarrow> mem_m mem' b = mem_m mem b) \<Longrightarrow> rd mem' a old = rd mem a old"
begin

lemma wr_ok_iff: "fst (wr mem a v) = 0 \<longleftrightarrow> in_block mem a \<and> unat a mod width = 0"
  by (simp add: wr_status)

lemma rd_after_other_wr:
  assumes "span a width \<inter> span b width = {}"
  shows "rd (snd (wr mem b v)) a old = rd mem a old"
  using assms by (intro rd_cong wr_size wr_endian wr_frame) blast

lemma rd_after_aligned_wr:
  assumes "unat a mod width = 0" "unat b mod width = 0" "a \<noteq> b"
  shows "rd (snd (wr mem b v)) a old = rd mem a old"
  using assms by (intro rd_after_other_wr aligned_span_disjoint width_dvd)

lemma wr_block_safe:
  assumes "width dvd unat (mem_size mem)" "\<not> in_block mem b"
  shows "mem_m (snd (wr mem a v)) b = mem_m mem b"
proof (cases "fst (wr mem a v) = 0")
  case True
  then have "in_block mem a" "unat a mod width = 0" by (auto simp: wr_ok_iff)
  then have "b \<notin> span a width"
    using aligned_span_in_block [OF _ width_dvd assms(1), of a b] assms(2) by auto
  then show ?thesis by (rule wr_frame)
next
  case False
  then show ?thesis by (simp add: wr_failed)
qed

end

section \<open>The three accesses meet it\<close>

lemma word_of_bytes:
  "push_bit 24 (ucast (ucast (drop_bit 24 v) :: u8)) OR push_bit 16 (ucast (ucast (drop_bit 16 v) :: u8)) OR
   push_bit 8 (ucast (ucast (drop_bit 8 v) :: u8)) OR ucast (ucast v :: u8) = v" for v :: u32
proof (rule bit_word_eqI, goal_cases)
  case (1 n)
  then consider "n < 8" | "8 \<le> n" "n < 16" | "16 \<le> n" "n < 24" | "24 \<le> n" "n < 32"
    by fastforce
  then show ?case by cases (auto simp: bit_simps)
qed

lemma half_of_bytes:
  "push_bit 8 (ucast (ucast (drop_bit 8 v) :: u8)) OR ucast (ucast v :: u8) = v" for v :: u16
proof (rule bit_word_eqI, goal_cases)
  case (1 n)
  then consider "n < 8" | "8 \<le> n" "n < 16" by fastforce
  then show ?case by cases (auto simp: bit_simps)
qed

lemma mod_4_eq_0_iff: "a mod 4 = 0 \<longleftrightarrow> unat a mod 4 = 0" for a :: u32
  by (simp add: word_unat_eq_iff unat_mod)

lemma mod_2_eq_0_iff: "a mod 2 = 0 \<longleftrightarrow> unat a mod 2 = 0" for a :: u32
  by (simp add: word_unat_eq_iff unat_mod)

lemmas memory_access_defs =
  memory_read_byte_def memory_write_byte_def memory_read_half_def memory_write_half_def
  memory_read_word_def memory_write_word_def valid_address_iff 

lemma in_block_update [simp]: "in_block (mem\<lparr>mem_m := f\<rparr>) a = in_block mem a"
  by (simp add: in_block_def)

interpretation byte_access: sized_access memory_read_byte memory_write_byte 1
proof (unfold_locales, goal_cases)
  case (10 mem' mem a old)
  then show ?case by (simp add: memory_access_defs span_1 [simplified] in_block_cong [of mem' mem])
qed (simp_all add: memory_access_defs span_1 [simplified] split: if_splits)

interpretation half_access: sized_access memory_read_half memory_write_half 2
proof (unfold_locales, goal_cases)
  case (2 mem a v)
  then show ?case using mod_2_eq_0_iff [of a] by (simp add: memory_access_defs)
next
  case (10 mem' mem a old)
  then show ?case by (simp add: memory_access_defs span_2 in_block_cong [of mem' mem])
qed (simp_all add: memory_access_defs span_2 half_of_bytes split: if_splits)

interpretation word_access: sized_access memory_read_word memory_write_word 4
proof (unfold_locales, goal_cases)
  case (2 mem a v)
  then show ?case using mod_4_eq_0_iff [of a] by (simp add: memory_access_defs)
next
  case (10 mem' mem a old)
  then show ?case by (simp add: memory_access_defs span_4 in_block_cong [of mem' mem])
qed (simp_all add: memory_access_defs span_4 word_of_bytes split: if_splits)
section \<open>Properties\<close>

text \<open>
  C15: a word that was stored successfully is read back unchanged from the same address,
  in a little-endian and in a big-endian memory.
\<close>

theorem memory_word_roundtrip:
  assumes "fst (memory_write_word mem address value) = 0"
  shows "memory_read_word (snd (memory_write_word mem address value)) address old = (0, value)"
  using assms by (rule word_access.rd_after_wr)

theorem memory_word_roundtrip_witness:
  "fst (memory_write_word (memory_create (\<lambda>_. 0) 16 True) 8 0x11223344) = 0 \<and>
   memory_read_word (snd (memory_write_word (memory_create (\<lambda>_. 0) 16 True) 8 0x11223344)) 8 7
     = (0, 0x11223344)"
proof -
  have ok: "fst (memory_write_word (memory_create (\<lambda>_. 0) 16 True) 8 0x11223344) = 0"
    by (simp add: memory_write_word_def memory_create_def is_not_valid_address_def
        memory_get_size_def)
  show ?thesis using memory_word_roundtrip [OF ok, of 7] ok by blast
qed

text \<open>
  A store never changes a byte outside the memory block, for any address and any
  value, when the size of the block is a multiple of four (it is \<open>0x20000\<close> in the simulator).
\<close>

lemma memory_writes_stay_in_block:
  assumes "4 dvd unat (mem_size mem)" and "\<not> in_block mem b"
  shows "mem_m (snd (memory_write_byte mem address v8)) b = mem_m mem b \<and>
         mem_m (snd (memory_write_half mem address v16)) b = mem_m mem b \<and>
         mem_m (snd (memory_write_word mem address v32)) b = mem_m mem b"
proof -
  have "2 dvd unat (mem_size mem)"
    using assms(1) by (metis dvd_trans even_numeral)
  with assms show ?thesis
    by (simp add: byte_access.wr_block_safe half_access.wr_block_safe word_access.wr_block_safe)
qed

text \<open>
  C16: the outcome of a word store and its effect on other words. It fails and changes nothing exactly when
  the address is outside the block or not a multiple of four, and then returns the exception number
  \<open>DATA_ABORT\<close>, never the -1 by which \<^verbatim>\<open>memory.h\<close> says that a failure is reported; and whatever it does, a word
  at another aligned address reads as before.
\<close>

theorem memory_write_word_outcome:
  "fst (memory_write_word mem a v) = (if in_block mem a \<and> unat a mod 4 = 0 then 0 else DATA_ABORT) \<and>
   fst (memory_write_word mem a v) \<noteq> - 1 \<and>
   (fst (memory_write_word mem a v) = DATA_ABORT \<longrightarrow> snd (memory_write_word mem a v) = mem) \<and>
   (unat a mod 4 = 0 \<and> unat b mod 4 = 0 \<and> a \<noteq> b \<longrightarrow>
     memory_read_word (snd (memory_write_word mem a v)) b old = memory_read_word mem b old)"
  using word_access.wr_failed [of mem a v] word_access.rd_after_aligned_wr [of b a mem v old]
  by (auto simp: word_access.wr_status)

theorem memory_write_word_outcome_witness:
  "fst (memory_write_word (memory_create (\<lambda>_. 1) 16 True) 4 9) = 0 \<and>
   memory_read_word (snd (memory_write_word (memory_create (\<lambda>_. 1) 16 True) 4 9)) 8 0
     = memory_read_word (memory_create (\<lambda>_. 1) 16 True) 8 0 \<and>
   memory_write_word (memory_create (\<lambda>_. 1) 16 True) 6 9 = (DATA_ABORT, memory_create (\<lambda>_. 1) 16 True)"
proof -
  have "in_block (memory_create (\<lambda>_. 1) 16 True) 4"
    by (simp add: memory_create_def in_block_def)
  then show ?thesis
    using memory_write_word_outcome [of "memory_create (\<lambda>_. 1) 16 True" 4 9 8 0]
      memory_write_word_outcome [of "memory_create (\<lambda>_. 1) 16 True" 6 9 8 0]
    by (simp add: prod_eq_iff)
qed

lemma bytes_of_word:
  fixes b0 b1 b2 b3 :: u8
  defines "w \<equiv> push_bit 24 (ucast b3) OR push_bit 16 (ucast b2) OR push_bit 8 (ucast b1) OR (ucast b0 :: u32)"
  shows "take_bit 8 w = ucast b0" "take_bit 8 (drop_bit 8 w) = ucast b1"
    "take_bit 8 (drop_bit 16 w) = ucast b2" "take_bit 8 (drop_bit 24 w) = ucast b3"
proof -
  have hi: "8 \<le> k \<Longrightarrow> bit b k = False" for b :: u8 and k
    by (auto dest: bit_imp_le_length)
  show "take_bit 8 w = ucast b0"
    by (rule bit_word_eqI) (auto simp: w_def bit_simps hi not_less dest: bit_imp_le_length)
  show "take_bit 8 (drop_bit 8 w) = ucast b1"
    by (rule bit_word_eqI) (auto simp: w_def bit_simps hi not_less dest: bit_imp_le_length)
  show "take_bit 8 (drop_bit 16 w) = ucast b2"
    by (rule bit_word_eqI) (auto simp: w_def bit_simps hi not_less dest: bit_imp_le_length)
  show "take_bit 8 (drop_bit 24 w) = ucast b3"
    by (rule bit_word_eqI) (auto simp: w_def bit_simps hi not_less dest: bit_imp_le_length)
qed

lemma reverse_4_bytes:
  "reverse_4 (push_bit 24 (ucast b3) OR push_bit 16 (ucast b2) OR push_bit 8 (ucast b1) OR ucast b0) =
   push_bit 24 (ucast b0) OR push_bit 16 (ucast b1) OR push_bit 8 (ucast b2) OR ucast b3"
  for b0 b1 b2 b3 :: u8
  by (simp only: reverse_4_def and_0xFF bytes_of_word)

text \<open>
  Reading the same bytes with the other endianness swaps the bytes of the word: the
  value is \<^verbatim>\<open>reverse_4\<close> of the one read with the memory's own endianness.
\<close>

lemma memory_read_word_other_endianness:
  assumes "in_block mem address"
  shows "memory_read_word (mem\<lparr>is_big_endian_mem := \<not> is_big_endian_mem mem\<rparr>) address old =
         (0, reverse_4 (snd (memory_read_word mem address old)))"
  using assms by (simp add: memory_read_word_def valid_address_iff in_block_def reverse_4_bytes)

text \<open>
  A word read is checked on its first byte only. Read at the last byte of a
  big-endian block, \<open>memory_read_word\<close> succeeds and the three lower bytes of its result are
  the three bytes of the heap behind the block.
\<close>

lemma memory_read_word_overruns_block:
  assumes "0 < unat (mem_size mem)" "is_big_endian_mem mem"
    and "unat address = unat (mem_size mem) - 1"
  shows "fst (memory_read_word mem address old) = 0 \<and>
         ucast (snd (memory_read_word mem address old)) = mem_m mem (address + 3)"
proof -
  have "in_block mem address" using assms by (simp add: in_block_def)
  moreover have "ucast (push_bit 24 (ucast b3) OR push_bit 16 (ucast b2) OR push_bit 8 (ucast b1) OR
      (ucast b0 :: u32)) = b0" for b0 b1 b2 b3 :: u8
    by (rule bit_word_eqI) (auto simp: bit_simps)
  ultimately show ?thesis
    using assms(2) by (simp add: memory_read_word_def valid_address_iff)
qed

end
