(* ===== verification/Registers.thy ===== *)
theory Registers
  imports Arm_Util
begin

text \<open>
  The register file of \<^verbatim>\<open>registers.c\<close>: one block of 37 words, laid out as the table at
  the end of \<^verbatim>\<open>registers.h\<close> says. As for the memory, the block is a total function
  from indices to words, so that an index past the block would be visible. The abstract view
  is \<open>arch_reg\<close>: the banked registers of the architecture, of which the layout is shown to be a
  faithful encoding.
\<close>

section \<open>Definitions\<close>

type_synonym registers = "nat \<Rightarrow> u32"

definition registers_create :: "registers \<Rightarrow> registers" where
  "registers_create heap = heap"

definition read_cpsr :: "registers \<Rightarrow> u32" where
  "read_cpsr r = r CPSR"

definition get_mode :: "registers \<Rightarrow> u8" where
  "get_mode r = ucast (read_cpsr r AND 0x1F)"

definition current_mode_has_spsr :: "registers \<Rightarrow> bool" where
  "current_mode_has_spsr r \<longleftrightarrow> get_mode r \<noteq> USR \<and> get_mode r \<noteq> SYS"

definition in_a_privileged_mode :: "registers \<Rightarrow> bool" where
  "in_a_privileged_mode r \<longleftrightarrow> get_mode r \<noteq> USR"

definition mode_offset :: "u8 \<Rightarrow> nat" where
  "mode_offset mode =
     (if mode = USR then 0
      else if mode = SYS then 0
      else if mode = SVC then 4
      else if mode = ABT then 6
      else if mode = UND then 8
      else if mode = IRQ then 10
      else if mode = FIQ then 17
      else 0)"

definition read_register :: "registers \<Rightarrow> u8 \<Rightarrow> u32" where
  "read_register r reg =
     (if reg = 13 \<or> reg = 14 \<or> (8 \<le> reg \<and> reg \<le> 12 \<and> get_mode r = FIQ)
      then r (unat reg + mode_offset (get_mode r))
      else r (unat reg))"

definition read_usr_register :: "registers \<Rightarrow> u8 \<Rightarrow> u32" where
  "read_usr_register r reg = r (unat reg)"

definition read_spsr :: "registers \<Rightarrow> u32" where
  "read_spsr r =
     (let mode = get_mode r in
      if mode = SVC then r 32
      else if mode = ABT then r 33
      else if mode = UND then r 34
      else if mode = IRQ then r 35
      else if mode = FIQ then r 36
      else 0)"

definition write_register :: "registers \<Rightarrow> u8 \<Rightarrow> u32 \<Rightarrow> registers" where
  "write_register r reg value =
     (if reg = 13 \<or> reg = 14 \<or> (8 \<le> reg \<and> reg \<le> 12 \<and> get_mode r = FIQ)
      then r(unat reg + mode_offset (get_mode r) := value)
      else r(unat reg := value))"

definition write_usr_register :: "registers \<Rightarrow> u8 \<Rightarrow> u32 \<Rightarrow> registers" where
  "write_usr_register r reg value = r(unat reg := value)"

definition write_cpsr :: "registers \<Rightarrow> u32 \<Rightarrow> registers" where
  "write_cpsr r value = r(CPSR := value)"

definition write_spsr :: "registers \<Rightarrow> u32 \<Rightarrow> registers" where
  "write_spsr r value =
     (let mode = get_mode r;
          r1 = (if mode = SVC then r(32 := value) else r);
          r2 = (if mode = ABT then r1(33 := value) else r1);
          r3 = (if mode = UND then r2(34 := value) else r2);
          r4 = (if mode = IRQ then r3(35 := value) else r3)
      in if mode = FIQ then r4(36 := value) else r4)"

section \<open>The architecture's registers\<close>

text \<open>
  The seven processor modes, and the physical register that a register number names in a
  mode (ARM manual A2.4): the numbers 13 and 14 are banked in every mode with an SPSR, 8 to
  12 in FIQ mode only, everything else is the user register. \<open>slot\<close> is the index the code
  computes.
\<close>

datatype bank = Bank_User | Bank_SVC | Bank_ABT | Bank_UND | Bank_IRQ | Bank_FIQ

definition legal_mode :: "u8 \<Rightarrow> bool" where
  "legal_mode md \<longleftrightarrow> md \<in> {USR, FIQ, IRQ, SVC, ABT, UND, SYS}"

definition bank_of_mode :: "u8 \<Rightarrow> bank" where
  "bank_of_mode md =
     (if md = SVC then Bank_SVC else if md = ABT then Bank_ABT else if md = UND then Bank_UND
      else if md = IRQ then Bank_IRQ else if md = FIQ then Bank_FIQ else Bank_User)"

definition arch_reg :: "u8 \<Rightarrow> u8 \<Rightarrow> bank \<times> u8" where
  "arch_reg md reg =
     (if reg = 13 \<or> reg = 14 then (bank_of_mode md, reg)
      else if 8 \<le> reg \<and> reg \<le> 12 \<and> md = FIQ then (Bank_FIQ, reg)
      else (Bank_User, reg))"

definition slot :: "u8 \<Rightarrow> u8 \<Rightarrow> nat" where
  "slot md reg =
     (if reg = 13 \<or> reg = 14 \<or> (8 \<le> reg \<and> reg \<le> 12 \<and> md = FIQ)
      then unat reg + mode_offset md else unat reg)"

lemma read_register_slot: "read_register r reg = r (slot (get_mode r) reg)"
  by (simp add: read_register_def slot_def)

lemma write_register_slot: "write_register r reg v = r(slot (get_mode r) reg := v)"
  by (simp add: write_register_def slot_def)

lemma reg_number_cases:
  assumes "reg < (16 :: u8)"
  obtains "reg = 0" | "reg = 1" | "reg = 2" | "reg = 3" | "reg = 4" | "reg = 5" | "reg = 6"
    | "reg = 7" | "reg = 8" | "reg = 9" | "reg = 10" | "reg = 11" | "reg = 12" | "reg = 13"
    | "reg = 14" | "reg = 15"
proof -
  have "unat reg < 16" using assms by (simp add: word_less_nat_alt)
  then have "unat reg \<in> {0,1,2,3,4,5,6,7,8,9,10,11,12,13,14,15}"
    by (auto simp: numeral_eq_Suc less_Suc_eq)
  moreover have "reg = of_nat (unat reg)" by simp
  ultimately show thesis using that by fastforce
qed

lemma mode_offset_cases: "mode_offset md \<in> {0, 4, 6, 8, 10, 17}"
  by (simp add: mode_offset_def)

lemma slot_bound: "reg < 16 \<Longrightarrow> slot md reg < 32 \<and> slot md reg \<noteq> CPSR"
  by (cases reg rule: reg_number_cases) (auto simp: slot_def mode_offset_def)

lemma slot_inj: "reg < 16 \<Longrightarrow> reg' < 16 \<Longrightarrow> slot md reg = slot md reg' \<longleftrightarrow> reg = reg'"
  by (cases reg rule: reg_number_cases; cases reg' rule: reg_number_cases)
    (auto simp: slot_def mode_offset_def)

lemma get_mode_cong: "r' CPSR = r CPSR \<Longrightarrow> get_mode r' = get_mode r"
  by (simp add: get_mode_def read_cpsr_def)

lemma get_mode_write_register [simp, core_frame]:
  "reg < 16 \<Longrightarrow> get_mode (write_register r reg v) = get_mode r"
  using slot_bound [of reg "get_mode r"] by (intro get_mode_cong) (auto simp: write_register_slot)

lemma get_mode_write_usr_register [simp, core_frame]:
  "reg < 16 \<Longrightarrow> get_mode (write_usr_register r reg v) = get_mode r"
  by (intro get_mode_cong) (auto simp: write_usr_register_def word_less_nat_alt)

lemma get_mode_write_spsr [simp, core_frame]: "get_mode (write_spsr r v) = get_mode r"
  by (intro get_mode_cong) (simp add: write_spsr_def Let_def)

lemma read_cpsr_writes [simp, core_frame]:
  "reg < 16 \<Longrightarrow> read_cpsr (write_register r reg v) = read_cpsr r"
  "reg < 16 \<Longrightarrow> read_cpsr (write_usr_register r reg v) = read_cpsr r"
  "read_cpsr (write_spsr r v) = read_cpsr r"
  "read_cpsr (write_cpsr r v) = v"
  using slot_bound [of reg "get_mode r"]
  by (auto simp: read_cpsr_def write_register_slot write_usr_register_def write_cpsr_def
      write_spsr_def Let_def word_less_nat_alt)

lemma get_mode_write_cpsr [simp]: "get_mode (write_cpsr r v) = ucast (v AND 0x1F)"
  by (simp add: get_mode_def)

section \<open>The interface of a register view\<close>

text \<open>
  The current mode's registers and the user registers are two views of the file with the
  same contract. What the clients need of them (loads of several registers, the debugger's
  register packet) is proved once.
\<close>

locale register_view =
  fixes rd :: "registers \<Rightarrow> u8 \<Rightarrow> u32"
    and wr :: "registers \<Rightarrow> u8 \<Rightarrow> u32 \<Rightarrow> registers"
  assumes rd_wr: "reg < 16 \<Longrightarrow> reg' < 16 \<Longrightarrow>
      rd (wr r reg v) reg' = (if reg' = reg then v else rd r reg')"
    and wr_cpsr: "reg < 16 \<Longrightarrow> wr r reg v CPSR = r CPSR"
    and wr_bound: "reg < 16 \<Longrightarrow> 32 \<le> k \<Longrightarrow> wr r reg v k = r k"
begin

definition wr_all :: "(u8 \<times> u32) list \<Rightarrow> registers \<Rightarrow> registers" where
  "wr_all xs r = fold (\<lambda>(reg, v) r. wr r reg v) xs r"

lemma wr_all_simps [simp]: "wr_all [] r = r" "wr_all ((reg, v) # xs) r = wr_all xs (wr r reg v)"
  by (simp_all add: wr_all_def)

lemma wr_all_cpsr: "(\<And>reg. reg \<in> fst ` set xs \<Longrightarrow> reg < 16) \<Longrightarrow> wr_all xs r CPSR = r CPSR"
proof (induction xs arbitrary: r)
  case (Cons x xs)
  then show ?case by (cases x) (simp add: wr_cpsr)
qed simp

lemma rd_wr_all_other:
  "(\<And>reg. reg \<in> fst ` set xs \<Longrightarrow> reg < 16) \<Longrightarrow> reg' < 16 \<Longrightarrow> reg' \<notin> fst ` set xs \<Longrightarrow>
   rd (wr_all xs r) reg' = rd r reg'"
proof (induction xs arbitrary: r)
  case (Cons x xs)
  then show ?case by (cases x) (simp add: rd_wr)
qed simp

lemma rd_wr_all:
  "distinct (map fst xs) \<Longrightarrow> (\<And>reg. reg \<in> fst ` set xs \<Longrightarrow> reg < 16) \<Longrightarrow> (reg', v) \<in> set xs \<Longrightarrow>
   rd (wr_all xs r) reg' = v"
proof (induction xs arbitrary: r)
  case (Cons x xs)
  obtain reg w where x: "x = (reg, w)" by (cases x)
  show ?case
  proof (cases "(reg', v) = x")
    case True
    with Cons.prems x show ?thesis
      by (simp add: rd_wr_all_other rd_wr)
  next
    case False
    with Cons show ?thesis by (auto simp: x)
  qed
qed simp

end

interpretation mode_regs: register_view read_register write_register
proof (unfold_locales, goal_cases)
  case (1 reg reg' r v)
  then show ?case
    using slot_inj [of reg' reg "get_mode r"] by (auto simp: read_register_slot write_register_slot
        get_mode_write_register [unfolded write_register_slot])
next
  case (2 reg r v)
  then show ?case using slot_bound [of reg "get_mode r"] by (simp add: write_register_slot)
next
  case (3 reg k r v)
  then show ?case using slot_bound [of reg "get_mode r"] by (simp add: write_register_slot)
qed

interpretation usr_regs: register_view read_usr_register write_usr_register
  by unfold_locales
    (auto simp: read_usr_register_def write_usr_register_def word_less_nat_alt word_unat_eq_iff)

section \<open>Properties\<close>

text \<open>
  The layout as an encoding of the architecture's registers: the index of a banked register is
  its number plus the offset of its bank, and different registers have different indices.
\<close>

definition bank_offset :: "bank \<Rightarrow> nat" where
  "bank_offset b =
     (case b of Bank_User \<Rightarrow> 0 | Bank_SVC \<Rightarrow> 4 | Bank_ABT \<Rightarrow> 6 | Bank_UND \<Rightarrow> 8 | Bank_IRQ \<Rightarrow> 10
      | Bank_FIQ \<Rightarrow> 17)"

definition arch_slot :: "bank \<times> u8 \<Rightarrow> nat" where
  "arch_slot p = unat (snd p) + bank_offset (fst p)"

definition banked :: "bank \<times> u8 \<Rightarrow> bool" where
  "banked p \<longleftrightarrow>
     fst p = Bank_User \<and> unat (snd p) < 16 \<or> unat (snd p) = 13 \<or> unat (snd p) = 14 \<or>
     fst p = Bank_FIQ \<and> 8 \<le> unat (snd p) \<and> unat (snd p) \<le> 12"

lemma slot_encodes: "slot md reg = arch_slot (arch_reg md reg)"
  by (simp add: slot_def arch_slot_def arch_reg_def bank_of_mode_def mode_offset_def bank_offset_def)

lemma banked_arch_reg: "reg < 16 \<Longrightarrow> banked (arch_reg md reg)"
  by (auto simp: banked_def arch_reg_def word_less_nat_alt word_le_nat_alt)

lemma arch_slot_inj: "banked p \<Longrightarrow> banked q \<Longrightarrow> arch_slot p = arch_slot q \<Longrightarrow> p = q"
  by (cases p; cases q; cases "fst p"; cases "fst q")
    (auto simp: banked_def arch_slot_def bank_offset_def word_unat_eq_iff)

lemma slot_arch_reg:
  "reg < 16 \<Longrightarrow> reg' < 16 \<Longrightarrow> slot md reg = slot md' reg' \<longleftrightarrow> arch_reg md reg = arch_reg md' reg'"
  unfolding slot_encodes by (auto dest!: arch_slot_inj [rotated 2] simp: banked_arch_reg)

text \<open>
  The table of indices in the comment of \<^verbatim>\<open>registers.h\<close>, and that the index the code computes for a register
  has in this table the name of that register.
\<close>

definition register_layout :: "string list" where
  "register_layout =
     [''r0'', ''r1'', ''r2'', ''r3'', ''r4'', ''r5'', ''r6'', ''r7'', ''r8'', ''r9'', ''r10'', ''r11'', ''r12'',
      ''SP'', ''LR'', ''PC'', ''CPSR'', ''SP_SVC'', ''LR_SVC'', ''SP_ABT'', ''LR_ABT'', ''SP_UND'', ''LR_UND'',
      ''SP_IRQ'', ''LR_IRQ'', ''r8_FIQ'', ''r9_FIQ'', ''r10_FIQ'', ''r11_FIQ'', ''r12_FIQ'', ''SP_FIQ'', ''LR_FIQ'',
      ''SPSR_SVC'', ''SPSR_ABT'', ''SPSR_UND'', ''SPSR_IRQ'', ''SPSR_FIQ'']"

definition bank_suffix :: "bank \<Rightarrow> string" where
  "bank_suffix b =
     (case b of Bank_User \<Rightarrow> [] | Bank_SVC \<Rightarrow> ''_SVC'' | Bank_ABT \<Rightarrow> ''_ABT'' | Bank_UND \<Rightarrow> ''_UND''
      | Bank_IRQ \<Rightarrow> ''_IRQ'' | Bank_FIQ \<Rightarrow> ''_FIQ'')"

lemma layout_as_documented:
  assumes "reg < 16"
  shows "register_layout ! slot md reg = register_layout ! unat reg @ bank_suffix (fst (arch_reg md reg))"
  using assms
  by (cases reg rule: reg_number_cases)
    (simp_all add: register_layout_def slot_def arch_reg_def bank_of_mode_def mode_offset_def bank_suffix_def
      word_le_nat_alt)

definition spsr_slot :: "bank \<Rightarrow> nat option" where
  "spsr_slot b =
     (case b of Bank_User \<Rightarrow> None | Bank_SVC \<Rightarrow> Some 32 | Bank_ABT \<Rightarrow> Some 33
      | Bank_UND \<Rightarrow> Some 34 | Bank_IRQ \<Rightarrow> Some 35 | Bank_FIQ \<Rightarrow> Some 36)"

lemma read_spsr_slot:
  "read_spsr r = (case spsr_slot (bank_of_mode (get_mode r)) of None \<Rightarrow> 0 | Some k \<Rightarrow> r k)"
  by (simp add: read_spsr_def spsr_slot_def bank_of_mode_def Let_def)

lemma write_spsr_slot:
  "write_spsr r v = (case spsr_slot (bank_of_mode (get_mode r)) of None \<Rightarrow> r | Some k \<Rightarrow> r(k := v))"
  by (simp add: write_spsr_def spsr_slot_def bank_of_mode_def Let_def)

lemma spsr_slot_bounds: "spsr_slot b = Some k \<Longrightarrow> 32 \<le> k \<and> k < 37"
  by (auto simp: spsr_slot_def split: bank.splits)

lemma has_spsr_iff_bank:
  "legal_mode (get_mode r) \<Longrightarrow> current_mode_has_spsr r \<longleftrightarrow> bank_of_mode (get_mode r) \<noteq> Bank_User"
  by (auto simp: legal_mode_def current_mode_has_spsr_def bank_of_mode_def)

lemma spsr_as_documented:
  "spsr_slot b = Some k \<Longrightarrow> register_layout ! k = ''SPSR'' @ bank_suffix b"
  by (cases b) (auto simp: spsr_slot_def register_layout_def bank_suffix_def)

lemma slot_pc [simp]: "slot md 15 = 15"
  by (simp add: slot_def)

lemma write_usr_pc: "write_usr_register r 15 v = write_register r 15 v"
  by (simp add: write_usr_register_def write_register_slot)

lemma read_register_switch:
  "reg < 16 \<Longrightarrow> reg' < 16 \<Longrightarrow> read_register (write_cpsr (write_register r reg v) c) reg' =
    (if arch_reg (ucast (c AND 0x1F)) reg' = arch_reg (get_mode r) reg then v
     else read_register (write_cpsr r c) reg')"
  using slot_bound [of reg' "ucast (c AND 0x1F)"]
    slot_arch_reg [of reg' reg "ucast (c AND 0x1F)" "get_mode r"]
  by (simp add: read_register_slot write_register_slot) (simp add: write_cpsr_def)

lemma read_spsr_switch:
  "read_spsr (write_cpsr (write_spsr r v) c) =
    (if bank_of_mode (get_mode r) \<noteq> Bank_User \<and>
        bank_of_mode (ucast (c AND 0x1F)) = bank_of_mode (get_mode r) then v
     else read_spsr (write_cpsr r c))"
proof -
  have mode: "get_mode (write_cpsr s c) = ucast (c AND 0x1F)" for s by simp
  show ?thesis
    unfolding read_spsr_slot write_spsr_slot mode
    by (cases "bank_of_mode (get_mode r)"; cases "bank_of_mode (ucast (c AND 0x1F))")
      (simp_all add: spsr_slot_def write_cpsr_def)
qed

lemma read_spsr_write_register [simp]: "reg < 16 \<Longrightarrow> read_spsr (write_register r reg v) = read_spsr r"
  by (auto simp: read_spsr_slot mode_regs.wr_bound split: option.split dest: spsr_slot_bounds)

lemma write_cpsr_apply: "k \<noteq> CPSR \<Longrightarrow> write_cpsr r c k = r k"
  by (simp add: write_cpsr_def)

lemma read_spsr_switch_register:
  "reg < 16 \<Longrightarrow> read_spsr (write_cpsr (write_register r reg v) c) = read_spsr (write_cpsr r c)"
  by (auto simp: read_spsr_slot mode_regs.wr_bound write_cpsr_apply split: option.split
      dest: spsr_slot_bounds)

lemma read_register_switch_spsr:
  assumes "reg < 16"
  shows "read_register (write_cpsr (write_spsr r v) c) reg = read_register (write_cpsr r c) reg"
  using slot_bound [OF assms, of "ucast (c AND 0x1F)"]
  by (auto simp: read_register_slot write_cpsr_apply write_spsr_slot split: option.split
      dest!: spsr_slot_bounds)

lemma read_register_write_spsr [simp]:
  assumes "reg < 16"
  shows "read_register (write_spsr r v) reg = read_register r reg"
  unfolding read_register_slot get_mode_write_spsr using slot_bound [OF assms, of "get_mode r"]
  by (auto simp: write_spsr_slot split: option.split dest!: spsr_slot_bounds)

text \<open>
  C14: the banked register file. A value written to a register in one mode is what
  another register reads after a switch of mode if both numbers name the same register of
  the architecture in their modes, and leaves that register unchanged otherwise.
\<close>

theorem register_banking:
  assumes "reg < 16" "reg' < 16"
  shows "read_register (write_cpsr (write_register r reg v) c) reg' =
    (if arch_reg (ucast (c AND 0x1F)) reg' = arch_reg (get_mode r) reg then v
     else read_register (write_cpsr r c) reg')"
  using assms by (rule read_register_switch)

theorem register_banking_witness:
  "(13 :: u8) < 16 \<and>
   read_register (write_cpsr (write_register ((\<lambda>_. 0)(16 := 0x13)) 13 7) 0x12) 13 = 0"
  using register_banking [of 13 13 "(\<lambda>_. 0)(16 := 0x13)" 7 "0x12"]
  by (simp add: arch_reg_def bank_of_mode_def get_mode_def read_cpsr_def read_register_slot
      slot_def mode_offset_def write_cpsr_def)

text \<open>
  C28: every access stays inside the 37 words that \<^verbatim>\<open>registers_create\<close> allocates. No
  write changes an index from 37 on, and no read depends on one.
\<close>

theorem registers_in_bounds:
  assumes "reg < 16"
  shows "(\<forall>k. 37 \<le> k \<longrightarrow> write_register r reg v k = r k \<and> write_usr_register r reg v k = r k \<and>
              write_cpsr r v k = r k \<and> write_spsr r v k = r k) \<and>
         ((\<forall>k. k < 37 \<longrightarrow> r' k = r k) \<longrightarrow>
            read_register r' reg = read_register r reg \<and>
            read_usr_register r' reg = read_usr_register r reg \<and>
            read_cpsr r' = read_cpsr r \<and> read_spsr r' = read_spsr r)"
proof -
  have s: "slot md reg < 32" for md using slot_bound [OF assms] by blast
  have u: "unat reg < 16" using assms by (simp add: word_less_nat_alt)
  have p: "spsr_slot b = Some k \<Longrightarrow> k < 37" for b k using spsr_slot_bounds by blast
  have "write_register r reg v k = r k \<and> write_usr_register r reg v k = r k \<and>
      write_cpsr r v k = r k \<and> write_spsr r v k = r k" if "37 \<le> k" for k
    using that s [of "get_mode r"] u
    by (auto simp: write_register_slot write_usr_register_def write_cpsr_def write_spsr_slot
        dest!: p split: option.split)
  moreover have "read_register r' reg = read_register r reg \<and>
      read_usr_register r' reg = read_usr_register r reg \<and>
      read_cpsr r' = read_cpsr r \<and> read_spsr r' = read_spsr r" if eq: "\<forall>k. k < 37 \<longrightarrow> r' k = r k"
  proof -
    have "get_mode r' = get_mode r" using eq by (intro get_mode_cong) simp
    moreover have "r' (slot (get_mode r) reg) = r (slot (get_mode r) reg)" "r' (unat reg) = r (unat reg)"
      using eq s [of "get_mode r"] u by simp_all
    moreover have "r' k = r k" if "spsr_slot (bank_of_mode (get_mode r)) = Some k" for k
      using p [OF that] eq by simp
    ultimately show ?thesis
      using eq by (simp add: read_register_slot read_usr_register_def read_cpsr_def read_spsr_slot
          split: option.split)
  qed
  ultimately show ?thesis by blast
qed

theorem registers_in_bounds_witness:
  "(14 :: u8) < 16 \<and> write_register ((\<lambda>_. 0)(16 := 0x11)) 14 5 37 = 0"
  using registers_in_bounds [of 14 "(\<lambda>_. 0)(16 := 0x11)" 5 "\<lambda>_. 0"] by simp

text \<open>
  The saved status registers. What \<open>write_spsr\<close> stores is read back in every mode of
  the same bank, no other mode's SPSR changes, and in user and system mode, which have none,
  the write is lost and the read gives 0.
\<close>

lemma spsr_banking:
  assumes "legal_mode (get_mode r)"
  shows "read_spsr (write_cpsr (write_spsr r v) c) =
    (if current_mode_has_spsr r \<and> bank_of_mode (ucast (c AND 0x1F)) = bank_of_mode (get_mode r) then v
     else read_spsr (write_cpsr r c)) \<and>
    (\<not> current_mode_has_spsr r \<longrightarrow> write_spsr r v = r \<and> read_spsr r = 0)"
proof -
  have "write_spsr r v = r \<and> read_spsr r = 0" if "bank_of_mode (get_mode r) = Bank_User"
    using that by (simp add: read_spsr_slot write_spsr_slot spsr_slot_def)
  then show ?thesis
    using has_spsr_iff_bank [OF assms] by (simp add: read_spsr_switch)
qed

end
