(* ===== verification/Arm_Core.thy ===== *)
theory Arm_Core
  imports Memory Registers
begin

text \<open>
  The processor state of \<^verbatim>\<open>arm_core.c\<close> and its accessors. The trace calls of the
  accessors only produce output and are left out here; \<open>Arm_Trace\<close> models them and shows
  that they do not change what the accessors compute. \<^verbatim>\<open>arm_create\<close> raises the reset
  exception and stands in \<open>Arm_Exception\<close>.
\<close>

section \<open>Definitions\<close>

record arm_core_data =
  cycle_count :: u32
  arm_reg :: registers
  arm_mem :: memory

type_synonym arm_core = arm_core_data

definition arm_current_mode_has_spsr :: "arm_core \<Rightarrow> bool" where
  "arm_current_mode_has_spsr p = current_mode_has_spsr (arm_reg p)"

definition arm_in_a_privileged_mode :: "arm_core \<Rightarrow> bool" where
  "arm_in_a_privileged_mode p = in_a_privileged_mode (arm_reg p)"

definition arm_get_cycle_count :: "arm_core \<Rightarrow> u32" where
  "arm_get_cycle_count p = cycle_count p"

definition arm_read_register :: "arm_core \<Rightarrow> u8 \<Rightarrow> u32" where
  "arm_read_register p reg =
     (let value = read_register (arm_reg p) reg
      in if reg = 15 then (value + 4) AND 0xFFFFFFFD else value)"

definition arm_read_usr_register :: "arm_core \<Rightarrow> u8 \<Rightarrow> u32" where
  "arm_read_usr_register p reg =
     (let value = read_usr_register (arm_reg p) reg
      in if reg = 15 then (value + 4) AND 0xFFFFFFFD else value)"

definition arm_read_cpsr :: "arm_core \<Rightarrow> u32" where
  "arm_read_cpsr p = read_cpsr (arm_reg p)"

definition arm_read_spsr :: "arm_core \<Rightarrow> u32" where
  "arm_read_spsr p = read_spsr (arm_reg p)"

definition arm_write_register :: "arm_core \<Rightarrow> u8 \<Rightarrow> u32 \<Rightarrow> arm_core" where
  "arm_write_register p reg value = p\<lparr>arm_reg := write_register (arm_reg p) reg value\<rparr>"

definition arm_write_usr_register :: "arm_core \<Rightarrow> u8 \<Rightarrow> u32 \<Rightarrow> arm_core" where
  "arm_write_usr_register p reg value = p\<lparr>arm_reg := write_usr_register (arm_reg p) reg value\<rparr>"

definition arm_write_cpsr :: "arm_core \<Rightarrow> u32 \<Rightarrow> arm_core" where
  "arm_write_cpsr p value = p\<lparr>arm_reg := write_cpsr (arm_reg p) value\<rparr>"

definition arm_write_spsr :: "arm_core \<Rightarrow> u32 \<Rightarrow> arm_core" where
  "arm_write_spsr p value = p\<lparr>arm_reg := write_spsr (arm_reg p) value\<rparr>"

definition arm_fetch :: "arm_core \<Rightarrow> u32 \<Rightarrow> int \<times> u32 \<times> arm_core" where
  "arm_fetch p value =
     (let p = p\<lparr>cycle_count := cycle_count p + 1\<rparr>;
          address = arm_read_register p 15 - 4;
          (result, value) = memory_read_word (arm_mem p) address value;
          p = arm_write_register p 15 (address + 4)
      in (result, value, p))"

definition arm_read_byte :: "arm_core \<Rightarrow> u32 \<Rightarrow> u8 \<Rightarrow> int \<times> u8" where
  "arm_read_byte p address value = memory_read_byte (arm_mem p) address value"

definition arm_read_half :: "arm_core \<Rightarrow> u32 \<Rightarrow> u16 \<Rightarrow> int \<times> u16" where
  "arm_read_half p address value = memory_read_half (arm_mem p) address value"

definition arm_read_word :: "arm_core \<Rightarrow> u32 \<Rightarrow> u32 \<Rightarrow> int \<times> u32" where
  "arm_read_word p address value = memory_read_word (arm_mem p) address value"

definition arm_write_byte :: "arm_core \<Rightarrow> u32 \<Rightarrow> u8 \<Rightarrow> int \<times> arm_core" where
  "arm_write_byte p address value =
     (let (result, mem) = memory_write_byte (arm_mem p) address value
      in (result, p\<lparr>arm_mem := mem\<rparr>))"

definition arm_write_half :: "arm_core \<Rightarrow> u32 \<Rightarrow> u16 \<Rightarrow> int \<times> arm_core" where
  "arm_write_half p address value =
     (let (result, mem) = memory_write_half (arm_mem p) address value
      in (result, p\<lparr>arm_mem := mem\<rparr>))"

definition arm_write_word :: "arm_core \<Rightarrow> u32 \<Rightarrow> u32 \<Rightarrow> int \<times> arm_core" where
  "arm_write_word p address value =
     (let (result, mem) = memory_write_word (arm_mem p) address value
      in (result, p\<lparr>arm_mem := mem\<rparr>))"

section \<open>What the accessors change\<close>

lemma arm_write_fields [simp, core_frame]:
  "arm_mem (arm_write_register p reg v) = arm_mem p"
  "arm_mem (arm_write_usr_register p reg v) = arm_mem p"
  "arm_mem (arm_write_cpsr p v) = arm_mem p"
  "arm_mem (arm_write_spsr p v) = arm_mem p"
  "cycle_count (arm_write_register p reg v) = cycle_count p"
  "cycle_count (arm_write_usr_register p reg v) = cycle_count p"
  "cycle_count (arm_write_cpsr p v) = cycle_count p"
  "cycle_count (arm_write_spsr p v) = cycle_count p"
  "arm_reg (arm_write_register p reg v) = write_register (arm_reg p) reg v"
  "arm_reg (arm_write_usr_register p reg v) = write_usr_register (arm_reg p) reg v"
  "arm_reg (arm_write_cpsr p v) = write_cpsr (arm_reg p) v"
  "arm_reg (arm_write_spsr p v) = write_spsr (arm_reg p) v"
  by (simp_all add: arm_write_register_def arm_write_usr_register_def arm_write_cpsr_def
      arm_write_spsr_def)

lemma arm_store_fields [simp, core_frame]:
  "arm_reg (snd (arm_write_byte p a v8)) = arm_reg p"
  "arm_reg (snd (arm_write_half p a v16)) = arm_reg p"
  "arm_reg (snd (arm_write_word p a v32)) = arm_reg p"
  "cycle_count (snd (arm_write_byte p a v8)) = cycle_count p"
  "cycle_count (snd (arm_write_half p a v16)) = cycle_count p"
  "cycle_count (snd (arm_write_word p a v32)) = cycle_count p"
  "arm_mem (snd (arm_write_byte p a v8)) = snd (memory_write_byte (arm_mem p) a v8)"
  "arm_mem (snd (arm_write_half p a v16)) = snd (memory_write_half (arm_mem p) a v16)"
  "arm_mem (snd (arm_write_word p a v32)) = snd (memory_write_word (arm_mem p) a v32)"
  "fst (arm_write_byte p a v8) = fst (memory_write_byte (arm_mem p) a v8)"
  "fst (arm_write_half p a v16) = fst (memory_write_half (arm_mem p) a v16)"
  "fst (arm_write_word p a v32) = fst (memory_write_word (arm_mem p) a v32)"
  by (simp_all add: arm_write_byte_def arm_write_half_def arm_write_word_def split: prod.split)

lemma arm_status_frame [simp, core_frame]:
  "reg < 16 \<Longrightarrow> arm_read_cpsr (arm_write_register p reg v) = arm_read_cpsr p"
  "reg < 16 \<Longrightarrow> arm_read_spsr (arm_write_register p reg v) = arm_read_spsr p"
  "reg < 16 \<Longrightarrow> arm_current_mode_has_spsr (arm_write_register p reg v) = arm_current_mode_has_spsr p"
  "arm_read_cpsr (arm_write_cpsr p v) = v"
  by (simp_all add: arm_read_cpsr_def arm_read_spsr_def arm_current_mode_has_spsr_def
      current_mode_has_spsr_def)

lemma arm_read_register_other: "reg \<noteq> 15 \<Longrightarrow> arm_read_register p reg = read_register (arm_reg p) reg"
  by (simp add: arm_read_register_def)

lemma arm_read_register_write [simp]:
  "reg < 16 \<Longrightarrow> reg' < 16 \<Longrightarrow> reg' \<noteq> 15 \<Longrightarrow>
   arm_read_register (arm_write_register p reg v) reg' =
     (if reg' = reg then v else arm_read_register p reg')"
  by (simp add: arm_read_register_other mode_regs.rd_wr)

lemma arm_read_pc_write:
  "reg < 16 \<Longrightarrow> arm_read_register (arm_write_register p reg v) 15 =
     (if reg = 15 then (v + 4) AND 0xFFFFFFFD else arm_read_register p 15)"
  by (simp add: arm_read_register_def mode_regs.rd_wr)

lemma and_0xFFFFFFFD: "x AND 0xFFFFFFFD = x" if "\<not> bit x (Suc 0)" for x :: u32
proof (rule bit_word_eqI)
  fix n
  have mask: "(0xFFFFFFFD :: u32) = NOT (push_bit 1 1)" by simp
  show "bit (x AND 0xFFFFFFFD) n = bit x n"
    using that unfolding mask bit_and_iff bit_not_iff bit_push_bit_iff bit_1_iff
    by (auto dest: bit_imp_le_length)
qed

lemma bit_1_add_4: "bit (x + 4) (Suc 0) = bit x (Suc 0)" for x :: u32
proof -
  have "bit (k + 4) (Suc 0) = bit k (Suc 0)" for k :: int
    by (simp add: bit_iff_odd) presburger
  then show ?thesis by transfer (simp add: bit_take_bit_iff)
qed

lemma bit_1_sub_4: "bit (x - 4) (Suc 0) = bit x (Suc 0)" for x :: u32
  using bit_1_add_4 [of "x - 4"] by simp

lemma arm_read_pc: "\<not> bit (read_register (arm_reg p) 15) 1 \<Longrightarrow>
  arm_read_register p 15 = read_register (arm_reg p) 15 + 4"
  by (simp add: arm_read_register_def and_0xFFFFFFFD bit_1_add_4)

lemma arm_fetch_unfold:
  "\<not> bit (read_register (arm_reg p) 15) 1 \<Longrightarrow>
   arm_fetch p old =
     (let pc = read_register (arm_reg p) 15; (result, ins) = memory_read_word (arm_mem p) pc old
      in (result, ins, p\<lparr>cycle_count := cycle_count p + 1, arm_reg := write_register (arm_reg p) 15 (pc + 4)\<rparr>))"
  by (simp add: arm_fetch_def Let_def arm_read_pc arm_write_register_def)

section \<open>Properties\<close>

text \<open>
  A fetch at an address \<open>pc\<close> whose bit 1 is clear returns the word that memory holds
  there, or \<open>DATA_ABORT\<close> outside the memory. It counts one cycle, moves the program counter to
  the next word, keeps memory, status and the other registers, and from then on the executing
  instruction reads the program counter as its own address plus 8.
\<close>

lemma arm_fetch_reads_pc_plus_8:
  assumes "read_register (arm_reg p) 15 = pc" "\<not> bit pc 1" "arm_fetch p old = (result, ins, p')"
  shows "(result, ins) = memory_read_word (arm_mem p) pc old \<and>
         cycle_count p' = cycle_count p + 1 \<and>
         arm_read_register p' 15 = pc + 8 \<and>
         arm_mem p' = arm_mem p \<and> arm_read_cpsr p' = arm_read_cpsr p \<and>
         (\<forall>reg. reg < 15 \<longrightarrow> arm_read_register p' reg = arm_read_register p reg)"
proof -
  have p': "p' = p\<lparr>cycle_count := cycle_count p + 1, arm_reg := write_register (arm_reg p) 15 (pc + 4)\<rparr>"
    and ri: "(result, ins) = memory_read_word (arm_mem p) pc old"
    using assms by (auto simp: arm_fetch_unfold Let_def split: prod.splits)
  have pc8: "(pc + 8) AND 0xFFFFFFFD = pc + 8"
    using assms(2) bit_1_add_4 [of pc] bit_1_add_4 [of "pc + 4"] by (simp add: and_0xFFFFFFFD add.commute [of 8])
  have "reg < 15 \<Longrightarrow> arm_read_register p' reg = arm_read_register p reg" for reg
    by (auto simp: p' arm_read_register_def mode_regs.rd_wr less_trans [of reg 15 16])
  with ri pc8 show ?thesis
    by (simp add: p' arm_read_register_def mode_regs.rd_wr arm_read_cpsr_def add.commute [of 8])
qed

end
