(* ===== verification/Arm_Exception.thy ===== *)
theory Arm_Exception
  imports Arm_Core
begin

text \<open>
  Raising an exception (\<^verbatim>\<open>arm_exception.c\<close>) and creating the processor
  (\<^verbatim>\<open>arm_create\<close> of \<^verbatim>\<open>arm_core.c\<close>, which raises \<open>RESET\<close>). The exception is the
  \<^verbatim>\<open>unsigned char\<close> the code takes: any byte can arrive from the interrupt connection. The
  result of \<^verbatim>\<open>malloc\<close> and the content of fresh storage are arguments of \<open>arm_create\<close>.
\<close>

section \<open>Definitions\<close>

abbreviation (input) CP15_reg1_EEbit :: u32 where "CP15_reg1_EEbit \<equiv> 0"

abbreviation (input) Exception_bit_9 :: u32 where "Exception_bit_9 \<equiv> push_bit 9 CP15_reg1_EEbit"

definition arm_exception :: "arm_core \<Rightarrow> u8 \<Rightarrow> arm_core" where
  "arm_exception p exception =
     (let p =
        (if uint exception = RESET then
           let p = arm_write_cpsr p (0xd3 OR Exception_bit_9)
           in arm_write_register p SP 0x800
         else
           let cpsr = arm_read_cpsr p;
               p = arm_write_spsr p cpsr;
               (cpsr, d) =
                 (if uint exception = UNDEFINED_INSTRUCTION then ((cpsr AND 0x140) OR 0x9b, 4)
                  else if uint exception = SOFTWARE_INTERRUPT then ((cpsr AND 0x140) OR 0x93, 4)
                  else if uint exception = PREFETCH_ABORT then ((cpsr AND 0x40) OR 0x197, 4)
                  else if uint exception = DATA_ABORT then ((cpsr AND 0x40) OR 0x197, 8)
                  else if uint exception = INTERRUPT then ((cpsr AND 0x40) OR 0x192, 8)
                  else if uint exception = FAST_INTERRUPT then (0x1d1, 8)
                  else (cpsr, 4));
               p = arm_write_register p LR (arm_read_register p PC + d)
           in arm_write_cpsr p cpsr)
      in arm_write_usr_register p PC (word_of_int ((uint exception - 1) * 4)))"

definition arm_create :: "bool \<Rightarrow> registers \<Rightarrow> u32 \<Rightarrow> memory \<Rightarrow> arm_core option" where
  "arm_create malloc_ok heap cycles mem =
     (if malloc_ok then
        let p = \<lparr>cycle_count = cycles, arm_reg = registers_create heap, arm_mem = mem\<rparr>;
            p = arm_exception p 1
        in Some (p\<lparr>cycle_count := 0\<rparr>)
      else None)"

section \<open>The entry table of the architecture\<close>

text \<open>
  Mode and vector address of the exceptions that store a return state and enter a mode (ARM manual A2.6): all but the
  reset. \<open>IMPRECISE_ABORT\<close>, of a later architecture, has a number in the code but no mode. The code encodes the exceptions so that the vector is four times the number
  less one.
\<close>

datatype exc = Exc_Undefined | Exc_SWI | Exc_Prefetch_Abort | Exc_Data_Abort | Exc_IRQ | Exc_FIQ

fun exc_number :: "exc \<Rightarrow> u8" where
  "exc_number Exc_Undefined = 2"
| "exc_number Exc_SWI = 3"
| "exc_number Exc_Prefetch_Abort = 4"
| "exc_number Exc_Data_Abort = 5"
| "exc_number Exc_IRQ = 7"
| "exc_number Exc_FIQ = 8"

fun exc_mode :: "exc \<Rightarrow> u8" where
  "exc_mode Exc_Undefined = UND"
| "exc_mode Exc_SWI = SVC"
| "exc_mode Exc_Prefetch_Abort = ABT"
| "exc_mode Exc_Data_Abort = ABT"
| "exc_mode Exc_IRQ = IRQ"
| "exc_mode Exc_FIQ = FIQ"

fun exc_vector :: "exc \<Rightarrow> u32" where
  "exc_vector Exc_Undefined = 0x04"
| "exc_vector Exc_SWI = 0x08"
| "exc_vector Exc_Prefetch_Abort = 0x0C"
| "exc_vector Exc_Data_Abort = 0x10"
| "exc_vector Exc_IRQ = 0x18"
| "exc_vector Exc_FIQ = 0x1C"

text \<open>The status word and the return offset the code computes for an exception.\<close>

fun exc_cpsr :: "exc \<Rightarrow> u32 \<Rightarrow> u32" where
  "exc_cpsr Exc_Undefined cpsr = (cpsr AND 0x140) OR 0x9b"
| "exc_cpsr Exc_SWI cpsr = (cpsr AND 0x140) OR 0x93"
| "exc_cpsr Exc_Prefetch_Abort cpsr = (cpsr AND 0x40) OR 0x197"
| "exc_cpsr Exc_Data_Abort cpsr = (cpsr AND 0x40) OR 0x197"
| "exc_cpsr Exc_IRQ cpsr = (cpsr AND 0x40) OR 0x192"
| "exc_cpsr Exc_FIQ cpsr = 0x1d1"

fun exc_return_offset :: "exc \<Rightarrow> u32" where
  "exc_return_offset Exc_Data_Abort = 8"
| "exc_return_offset Exc_IRQ = 8"
| "exc_return_offset Exc_FIQ = 8"
| "exc_return_offset _ = 4"

text \<open>
  The return address that the architecture stores in the link register, where \<open>pc\<close> is the address behind the instruction
  that caused the exception or, for interrupts, of the next one to execute (ARM manual A2.6).
\<close>

fun exc_link :: "exc \<Rightarrow> u32 \<Rightarrow> u32" where
  "exc_link Exc_Data_Abort pc = pc + 4"
| "exc_link Exc_IRQ pc = pc + 4"
| "exc_link Exc_FIQ pc = pc + 4"
| "exc_link _ pc = pc"

lemma arm_exception_entry:
  "arm_exception p (exc_number e) =
     (let p1 = arm_write_spsr p (arm_read_cpsr p);
          p2 = arm_write_register p1 14 (arm_read_register p1 15 + exc_return_offset e)
      in arm_write_usr_register (arm_write_cpsr p2 (exc_cpsr e (arm_read_cpsr p))) 15 (exc_vector e))"
  by (cases e) (simp_all add: arm_exception_def Let_def)

lemma arm_exception_reset:
  "arm_exception p 1 =
     arm_write_usr_register (arm_write_register (arm_write_cpsr p 0xd3) 13 0x800) 15 0"
  by (simp add: arm_exception_def Let_def)

lemma exc_cpsr_mode: "ucast (exc_cpsr e c AND 0x1F) = exc_mode e"
  by (cases e) (simp_all add: bit.conj_disj_distrib2 and.assoc)

text \<open>
  The return address that the code stores is eight bytes behind it, for every exception, and the condition flags, which
  the architecture keeps, are cleared.
\<close>

lemma exception_link_too_far:
  assumes "\<not> bit (read_register (arm_reg p) 15) 1"
  shows "arm_read_register p 15 + exc_return_offset e = exc_link e (read_register (arm_reg p) 15) + 8"
  using assms by (cases e) (simp_all add: arm_read_register_def and_0xFFFFFFFD bit_1_add_4)

lemma exception_clears_flags: "arm_read_cpsr (arm_exception p (exc_number e)) AND 0xF0000000 = 0"
proof -
  have "arm_read_cpsr (arm_exception p (exc_number e)) = exc_cpsr e (arm_read_cpsr p)"
    by (simp add: arm_exception_entry Let_def arm_read_cpsr_def)
  then show ?thesis by (cases e) (simp_all add: bit.conj_disj_distrib2 and.assoc)
qed

text \<open>The mode each byte that may arrive enters: the exceptions of the architecture and the reset have one.\<close>

definition entered_mode :: "u8 \<Rightarrow> u8 option" where
  "entered_mode exception =
     map_of [(1, SVC), (2, UND), (3, SVC), (4, ABT), (5, ABT), (7, IRQ), (8, FIQ)] exception"

lemma numbered_exception:
  "(\<exists>e. exception = exc_number e) \<longleftrightarrow> exception \<in> {2, 3, 4, 5, 7, 8}"
proof
  show "\<exists>e. exception = exc_number e \<Longrightarrow> exception \<in> {2, 3, 4, 5, 7, 8}"
    by (elim exE) (rename_tac e, case_tac e; simp)
  show "exception \<in> {2, 3, 4, 5, 7, 8} \<Longrightarrow> \<exists>e. exception = exc_number e"
    by (elim insertE emptyE) (metis exc_number.simps)+
qed

lemma entered_mode_simps [simp]: "entered_mode 1 = Some SVC" "entered_mode (exc_number e) = Some (exc_mode e)"
  by (simp add: entered_mode_def) (cases e; simp add: entered_mode_def)

text \<open>Any other byte, 6 for an imprecise abort among them, only stores the return state and jumps.\<close>

lemma entered_mode_None: "entered_mode exception = None \<longleftrightarrow> exception \<notin> {1, 2, 3, 4, 5, 7, 8}"
  by (simp add: entered_mode_def)

lemma arm_exception_other:
  assumes "entered_mode exception = None"
  shows "arm_exception p exception =
     (let p1 = arm_write_spsr p (arm_read_cpsr p);
          p2 = arm_write_register p1 14 (arm_read_register p1 15 + 4)
      in arm_write_usr_register (arm_write_cpsr p2 (arm_read_cpsr p)) 15 (4 * (ucast exception - 1)))"
proof -
  have "uint exception \<noteq> k" if "k \<in> {1, 2, 3, 4, 5, 7, 8}" for k
    using assms that unfolding entered_mode_None by (auto simp: word_uint_eq_iff)
  moreover have "word_of_int ((uint exception - 1) * 4) = (4 * (ucast exception - 1) :: u32)"
    by (simp only: ucast_eq wi_hom_syms word_of_int_1 [symmetric] word_of_int_numeral [symmetric]) (simp only: wi_hom_syms mult.commute)
  ultimately show ?thesis by (simp add: arm_exception_def Let_def algebra_simps)
qed

lemma exception_cases:
  obtains (reset) "exception = 1" | (entry) e where "exception = exc_number e" | (other) "entered_mode exception = None"
  using entered_mode_None [of exception] numbered_exception [of exception] by auto

lemma exc_vector_number: "exc_vector e = 4 * (ucast (exc_number e) - 1)"
  by (cases e) simp_all

lemma exception_target:
  "read_register (arm_reg (arm_exception p exception)) 15 = 4 * (ucast exception - 1)"
  "get_mode (arm_reg (arm_exception p exception)) =
     (case entered_mode exception of None \<Rightarrow> get_mode (arm_reg p) | Some mode \<Rightarrow> mode)"
  by (cases exception rule: exception_cases; simp add: arm_exception_reset arm_exception_entry arm_exception_other
      exc_vector_number exc_cpsr_mode arm_read_cpsr_def get_mode_def Let_def write_usr_pc mode_regs.rd_wr)+

section \<open>Properties\<close>

text \<open>
  C26: raising an exception, for every byte. The program counter is then four times the number less one, and
  memory is not touched. The reset and the six exceptions with a mode of their own enter it with interrupts disabled and in ARM state;
  fast interrupts are disabled by the reset and a fast interrupt and left as they were by the others. Every other byte,
  6 for \<open>IMPRECISE_ABORT\<close> among them, leaves the status word as it was: mode and interrupt bits do not change.
\<close>

theorem exception_entry:
  "let q = arm_exception p exception in
     arm_mem q = arm_mem p \<and> read_register (arm_reg q) 15 = 4 * (ucast exception - 1) \<and>
     (case entered_mode exception of
        None \<Rightarrow> arm_read_cpsr q = arm_read_cpsr p
      | Some mode \<Rightarrow>
          get_mode (arm_reg q) = mode \<and> arm_read_cpsr q AND 0x80 = 0x80 \<and> arm_read_cpsr q AND 0x20 = 0 \<and>
          arm_read_cpsr q AND 0x40 = (if exception = 1 \<or> exception = 8 then 0x40 else arm_read_cpsr p AND 0x40))"
proof (cases exception rule: exception_cases)
  case (entry e)
  let ?c = "exc_cpsr e (arm_read_cpsr p)"
  have c: "arm_read_cpsr (arm_exception p (exc_number e)) = ?c"
    by (simp add: arm_exception_entry Let_def arm_read_cpsr_def)
  have "?c AND 0x80 = 0x80" "?c AND 0x20 = 0"
    "?c AND 0x40 = (if exc_number e = 1 \<or> exc_number e = 8 then 0x40 else arm_read_cpsr p AND 0x40)"
    by (cases e; simp add: bit.conj_disj_distrib2 and.assoc)+
  moreover have "arm_mem (arm_exception p (exc_number e)) = arm_mem p" by (simp add: arm_exception_entry Let_def)
  ultimately show ?thesis using c by (simp add: Let_def entry exception_target)
next
  case reset
  then show ?thesis by (simp add: arm_exception_reset Let_def arm_read_cpsr_def write_usr_pc mode_regs.rd_wr)
next
  case other
  then show ?thesis by (simp add: arm_exception_other Let_def arm_read_cpsr_def write_usr_pc mode_regs.rd_wr)
qed

text \<open>
  C27: where the return state goes. The return address and the interrupted status are
  stored by the code before it switches the mode, so they arrive in the link register and
  the SPSR of the entered mode only if that mode shares its bank with the interrupted one;
  otherwise the handler finds the old content of its own link register and SPSR.
\<close>

theorem exception_return_state:
  "read_register (arm_reg (arm_exception p (exc_number e))) 14 =
     (if bank_of_mode (get_mode (arm_reg p)) = bank_of_mode (exc_mode e)
      then arm_read_register p 15 + exc_return_offset e
      else read_register (write_cpsr (arm_reg p) (exc_cpsr e (arm_read_cpsr p))) 14) \<and>
   read_spsr (arm_reg (arm_exception p (exc_number e))) =
     (if bank_of_mode (get_mode (arm_reg p)) = bank_of_mode (exc_mode e)
      then arm_read_cpsr p
      else read_spsr (write_cpsr (arm_reg p) (exc_cpsr e (arm_read_cpsr p))))"
proof -
  have "bank_of_mode (exc_mode e) \<noteq> Bank_User" by (cases e) (simp_all add: bank_of_mode_def)
  moreover have "arm_read_register (arm_write_spsr p v) 15 = arm_read_register p 15" for v
    by (simp add: arm_read_register_def)
  ultimately show ?thesis
    by (auto simp: arm_exception_entry Let_def write_usr_pc mode_regs.rd_wr read_register_switch
        read_register_switch_spsr read_spsr_switch read_spsr_switch_register exc_cpsr_mode arch_reg_def)
qed

text \<open>
  Creating the processor leaves it as after a reset: supervisor mode with both kinds
  of interrupts disabled, program counter 0, stack pointer \<open>0x800\<close>, no cycle counted, and
  the given memory, whatever the fresh storage held.
\<close>

lemma arm_create_resets:
  assumes "arm_create True heap cycles mem = Some p"
  shows "get_mode (arm_reg p) = SVC \<and> arm_read_cpsr p = 0xD3 \<and> read_register (arm_reg p) 15 = 0 \<and>
         arm_read_register p 13 = 0x800 \<and> cycle_count p = 0 \<and> arm_mem p = mem"
  using assms
  by (auto simp: arm_create_def Let_def arm_exception_reset arm_read_cpsr_def write_usr_pc
      arm_read_register_other mode_regs.rd_wr)

end
