(* ===== verification/Arm_Shifter.thy ===== *)
theory Arm_Shifter
  imports Arm_Core
begin

text \<open>
  The barrel shifter: \<^verbatim>\<open>shifter_operand\<close> of \<^verbatim>\<open>arm_instruction.c\<close>, used by the data
  processing instructions and by the register offsets of loads and stores. The amount is an
  unsigned 32-bit value; \<open>32 - shift\<close> and \<open>shift - 1\<close> wrap as in C, and a count outside
  \<open>0..31\<close> is left to the environment \<open>E\<close>. The abstract view is the table of shifts of the
  architecture (ARM manual A5.1).
\<close>

section \<open>Definitions\<close>

text \<open>\<open>field ins m k\<close> is the C idiom \<^verbatim>\<open>(ins & MASK) >> k\<close> with \<^verbatim>\<open>MASK\<close> defined as \<^verbatim>\<open>m << k\<close>.\<close>

definition field :: "u32 \<Rightarrow> u32 \<Rightarrow> nat \<Rightarrow> u32" where
  "field ins m k = drop_bit k (ins AND push_bit k m)"

definition shifter_operand :: "cenv \<Rightarrow> arm_core \<Rightarrow> u32 \<Rightarrow> bool \<Rightarrow> u32 \<times> bool" where
  "shifter_operand E p ins carry_out =
     (let Rm = arm_read_register p (ucast (field ins 0xF 0));
          shift = (if field ins 1 4 \<noteq> 0 then arm_read_register p (ucast (field ins 0xF 8))
                   else field ins 0x1F 7);
          shift = (if shift = 0 \<and> get_bit ins 6 \<noteq> 0 \<and> get_bit ins 4 \<noteq> 0 then 32 else shift);
          carry_out = (if shift = 0 then get_bit (arm_read_cpsr p) CPSR_C \<noteq> 0 else carry_out);
          kind = field ins 3 5
      in if kind = shift_LSL then
           (c_shl E Rm (uint shift),
            if shift \<noteq> 0 then get_bit_at E Rm (uint (32 - shift)) \<noteq> 0 else carry_out)
         else if kind = shift_LSR then
           (c_shr E Rm (uint shift),
            if shift \<noteq> 0 then get_bit_at E Rm (uint (shift - 1)) \<noteq> 0 else carry_out)
         else if kind = shift_ASR then
           (asr E Rm (ucast (shift - 1)), get_bit_at E Rm (sint shift - 1) \<noteq> 0)
         else if kind = shift_ROR then
           (if shift \<noteq> 0 then
              (ror E Rm (ucast shift), get_bit_at E Rm (uint (shift - 1)) \<noteq> 0)
            else
              (drop_bit 1 Rm OR push_bit 31 (get_bit (arm_read_cpsr p) CPSR_C), Rm AND 1 \<noteq> 0))
         else (0, carry_out))"

section \<open>The architecture's shifts\<close>

datatype shift_kind = Shift_LSL | Shift_LSR | Shift_ASR | Shift_ROR

text \<open>A shift by an amount from 1 to 31: the operand and the carry.\<close>

fun arch_shift :: "shift_kind \<Rightarrow> u32 \<Rightarrow> nat \<Rightarrow> u32 \<times> bool" where
  "arch_shift Shift_LSL x n = (push_bit n x, bit x (32 - n))"
| "arch_shift Shift_LSR x n = (drop_bit n x, bit x (n - 1))"
| "arch_shift Shift_ASR x n = (signed_drop_bit n x, bit x (n - 1))"
| "arch_shift Shift_ROR x n = (word_rotr n x, bit x (n - 1))"

fun shift_code :: "shift_kind \<Rightarrow> u32" where
  "shift_code Shift_LSL = 0"
| "shift_code Shift_LSR = 1"
| "shift_code Shift_ASR = 2"
| "shift_code Shift_ROR = 3"

text \<open>The amount an instruction word asks for: an immediate, or the value of a register.\<close>

definition shift_amount :: "arm_core \<Rightarrow> u32 \<Rightarrow> u32" where
  "shift_amount p ins =
     (if bit ins 4 then arm_read_register p (ucast (get_bits ins 11 8)) else get_bits ins 11 7)"

definition shifted_register :: "arm_core \<Rightarrow> u32 \<Rightarrow> u32" where
  "shifted_register p ins = arm_read_register p (ucast (get_bits ins 3 0))"

section \<open>Instruction fields\<close>

lemma field_mask: "m = mask w \<Longrightarrow> field x m k = take_bit w (drop_bit k x)"
  using bit_imp_le_length [of x] by (fastforce simp: field_def bit_simps intro!: bit_word_eqI)

lemma field_1 [word_fields]: "field x 1 k = get_bit x k"
  by (simp add: field_mask [of 1 1] get_bit_def take_bit_eq_mask and.commute)

lemma field_3: "field x 3 k = take_bit 2 (drop_bit k x)"
  by (rule field_mask) (simp add: mask_eq_exp_minus_1)

lemma field_7: "field x 7 k = take_bit 3 (drop_bit k x)"
  by (rule field_mask) (simp add: mask_eq_exp_minus_1)

lemma field_F: "field x 0xF k = take_bit 4 (drop_bit k x)"
  by (rule field_mask) (simp add: mask_eq_exp_minus_1)

lemma field_1F: "field x 0x1F k = take_bit 5 (drop_bit k x)"
  by (rule field_mask) (simp add: mask_eq_exp_minus_1)

lemma field_get_bits:
  "k + 3 < 32 \<Longrightarrow> field x 0xF k = get_bits x (k + 3) k"
  "k + 4 < 32 \<Longrightarrow> field x 0x1F k = get_bits x (k + 4) k"
  "k + 2 < 32 \<Longrightarrow> field x 7 k = get_bits x (k + 2) k"
  "k + 1 < 32 \<Longrightarrow> field x 3 k = get_bits x (k + 1) k"
  by (simp_all add: field_F field_1F field_7 field_3 get_bits_take_bit eval_nat_numeral)

lemma field_4bit_less [simp]: "ucast (field x 0xF k) < (16 :: u8)"
proof -
  have "unat (field x 0xF k) < 16"
    using take_bit_nat_less_exp [of 4 "unat (drop_bit k x)"] by (simp add: field_F unsigned_take_bit_eq)
  then show ?thesis
    by (simp add: word_less_nat_alt unsigned_ucast_eq take_bit_nat_eq_self)
qed

lemma get_bits_4bit_less [simp]: "h = l + 3 \<Longrightarrow> h < 32 \<Longrightarrow> ucast (get_bits x h l) < (16 :: u8)"
  using field_4bit_less [of x l] by (simp add: field_get_bits)

lemma shifter_operand_unfold:
  "shifter_operand E p ins co =
     (let Rm = shifted_register p ins; n = shift_amount p ins;
          n = (if n = 0 \<and> bit ins 6 \<and> bit ins 4 then 32 else n);
          c = bit (arm_read_cpsr p) 29; kind = get_bits ins 6 5
      in if kind = 0 then (c_shl E Rm (uint n), if n \<noteq> 0 then get_bit_at E Rm (uint (32 - n)) \<noteq> 0 else c)
         else if kind = 1 then (c_shr E Rm (uint n), if n \<noteq> 0 then get_bit_at E Rm (uint (n - 1)) \<noteq> 0 else c)
         else if kind = 2 then (asr E Rm (ucast (n - 1)), get_bit_at E Rm (sint n - 1) \<noteq> 0)
         else if n \<noteq> 0 then (ror E Rm (ucast n), get_bit_at E Rm (uint (n - 1)) \<noteq> 0)
         else (drop_bit 1 Rm OR push_bit 31 (of_bool c), bit Rm 0))"
proof -
  have kind: "get_bits ins 6 5 = 0 \<or> get_bits ins 6 5 = 1 \<or> get_bits ins 6 5 = 2 \<or> get_bits ins 6 5 = 3"
    using get_bits_less [of 5 6 ins] by (intro word_less_4_cases) simp
  have rm1: "Rm AND 1 \<noteq> 0 \<longleftrightarrow> bit Rm 0" for Rm :: u32
    using and_1_neq_0_iff_bit [of 0 Rm] by simp
  show ?thesis
    using kind
    by (auto simp: shifter_operand_def Let_def shifted_register_def shift_amount_def field_get_bits
        field_1 get_bit_of_bool rm1 simp del: get_bit_neq_0 get_bit_eq_0)
qed

lemma unat_shift_32_minus: "0 < unat n \<Longrightarrow> unat n < 32 \<Longrightarrow> unat (32 - n) = 32 - unat n" for n :: u32
  by (subst unat_sub) (simp_all add: word_le_nat_alt)

lemma unat_shift_minus_1: "0 < unat n \<Longrightarrow> unat (n - 1) = unat n - 1" for n :: u32
  by (subst unat_sub) (simp_all add: word_le_nat_alt Suc_le_eq)

lemma unat_ucast_8: "unat n < 256 \<Longrightarrow> unat (ucast n :: u8) = unat n" for n :: u32
  by (simp add: unsigned_ucast_eq take_bit_nat_eq_self)

lemma get_bit_at_uint: "unat n < 32 \<Longrightarrow> get_bit_at E x (uint n) = get_bit x (unat n)" for n :: u32
  by (simp add: get_bit_at_def get_bit_def c_shr_uint)

lemma get_bit_at_sint_minus_1:
  fixes n :: u32
  assumes "0 < unat n" "unat n < 32"
  shows "get_bit_at E x (sint n - 1) = get_bit x (unat n - 1)"
proof -
  have "\<not> bit n 31" using assms unfolding bit31_iff uint_int_unat by (simp del: of_nat_unat)
  then have "sint n = int (unat n)" by (simp add: sint_by_bit31)
  then have "sint n - 1 = int (unat n - 1)" using assms by simp
  with assms show ?thesis by (simp del: of_nat_diff)
qed

lemma c_shl_uint: "unat n < 32 \<Longrightarrow> c_shl E x (uint n) = push_bit (unat n) x" for n :: u32
  unfolding uint_int_unat by (simp del: of_nat_unat)

lemmas shift_in_range =
  c_shl_uint c_shr_uint unat_shift_32_minus unat_shift_minus_1 unat_ucast_8 get_bit_at_uint
  get_bit_at_sint_minus_1

section \<open>Properties\<close>

text \<open>
  A logical shift or a rotation by 1 to 31 positions, by an immediate or by the value of
  a register, gives the operand and the carry of the architecture, on every platform.
\<close>

lemma shifter_matches_architecture:
  assumes "get_bits ins 6 5 = shift_code k" "k \<noteq> Shift_ASR"
    and "0 < unat (shift_amount p ins)" "unat (shift_amount p ins) < 32"
  shows "shifter_operand E p ins co =
         arch_shift k (shifted_register p ins) (unat (shift_amount p ins))"
proof -
  have "shift_amount p ins \<noteq> 0" using assms(3) by auto
  moreover have "ror E x (ucast (shift_amount p ins)) = word_rotr (unat (shift_amount p ins)) x" for x
    using assms(3,4) by (auto intro!: bit_word_eqI simp: bit_ror bit_word_rotr_iff shift_in_range)
  ultimately show ?thesis
    using assms by (cases k) (simp_all add: shifter_operand_unfold Let_def shift_in_range)
qed

text \<open>
  An immediate amount of 0. With \<open>LSL\<close> the operand is the register itself and the carry
  is kept; with \<open>ROR\<close> it is the rotation by one position through the carry (\<open>RRX\<close>).
\<close>

lemma shifter_immediate_0:
  assumes "\<not> bit ins 4" "get_bits ins 11 7 = 0"
  shows "(get_bits ins 6 5 = shift_code Shift_LSL \<longrightarrow>
            shifter_operand E p ins co = (shifted_register p ins, bit (arm_read_cpsr p) CPSR_C)) \<and>
         (get_bits ins 6 5 = shift_code Shift_ROR \<longrightarrow>
            snd (shifter_operand E p ins co) = bit (shifted_register p ins) 0 \<and>
            (\<forall>k. k < 32 \<longrightarrow> bit (fst (shifter_operand E p ins co)) k =
                 (if k = 31 then bit (arm_read_cpsr p) CPSR_C else bit (shifted_register p ins) (k + 1))))"
proof -
  have "shift_amount p ins = 0" using assms by (simp add: shift_amount_def)
  moreover have "\<not> bit (shifted_register p ins) 32" by (auto dest: bit_imp_le_length)
  ultimately show ?thesis
    using assms(1) by (auto simp: shifter_operand_unfold Let_def bit_simps)
qed

text \<open>
  An arithmetic shift by 2 to 31 positions. The carry is the one of the architecture, but
  the operand is shifted by one position less than the instruction asks for.
\<close>

lemma shifter_asr_is_one_short:
  assumes "get_bits ins 6 5 = shift_code Shift_ASR"
    and "1 < unat (shift_amount p ins)" "unat (shift_amount p ins) < 32"
  shows "shifter_operand E p ins co =
         (fst (arch_shift Shift_ASR (shifted_register p ins) (unat (shift_amount p ins) - 1)),
          snd (arch_shift Shift_ASR (shifted_register p ins) (unat (shift_amount p ins))))"
proof -
  let ?n = "shift_amount p ins"
  have n: "unat (?n - 1) = unat ?n - 1" "?n \<noteq> 0" using assms(2) by (auto simp: unat_shift_minus_1)
  have "asr E x (ucast (?n - 1)) = signed_drop_bit (unat ?n - 1) x" for x
    using assms(2,3) n
    by (intro bit_word_eqI) (auto simp: bit_asr bit_signed_drop_bit_iff unat_ucast_8 min_def
        add.commute [of _ "unat ?n"])
  with assms n show ?thesis by (simp add: shifter_operand_unfold Let_def shift_in_range)
qed

end
