(* ===== verification/Arm_Branch_Other.thy ===== *)
theory Arm_Branch_Other
  imports Arm_Shifter
begin

text \<open>
  Branches, software interrupts and the status register moves of \<^verbatim>\<open>arm_branch_other.c\<close>.
  The left shift of the signed offset is computed on the 32-bit pattern, as the compilers the
  program is built with do. \<^verbatim>\<open>exit(0)\<close> on \<^verbatim>\<open>swi 0x123456\<close> is \<open>Inl (Exit 0)\<close>.
\<close>

section \<open>Definitions\<close>

abbreviation (input) MASK_TARGET_ADR :: u32 where "MASK_TARGET_ADR \<equiv> 0xFFFFFF"

definition sign_extending :: "u32 \<Rightarrow> u32" where
  "sign_extending x = (if x AND push_bit 23 1 \<noteq> 0 then x OR 0x3F000000 else x)"

definition arm_branch :: "arm_core \<Rightarrow> u32 \<Rightarrow> int \<times> arm_core" where
  "arm_branch p ins =
     (let p = (if ins AND push_bit 24 1 \<noteq> 0
               then arm_write_register p 14 (arm_read_register p 15 - 4) else p);
          p = arm_write_register p 15
                (arm_read_register p 15 + push_bit 2 (sign_extending (ins AND MASK_TARGET_ADR)))
      in (0, p))"

definition arm_coprocessor_others_swi :: "arm_core \<Rightarrow> u32 \<Rightarrow> halt + int" where
  "arm_coprocessor_others_swi p ins =
     (if get_bit ins 24 \<noteq> 0 then
        if ins AND 0xFFFFFF = 0x123456 then Inl (Exit 0) else Inr SOFTWARE_INTERRUPT
      else Inr UNDEFINED_INSTRUCTION)"

definition arm_miscellaneous :: "arm_core \<Rightarrow> u32 \<Rightarrow> int \<times> arm_core" where
  "arm_miscellaneous p ins =
     (if get_bit ins 21 \<noteq> 0 then (0, p)
      else if get_bit ins 22 \<noteq> 0 then
        if \<not> arm_current_mode_has_spsr p then (UNDEFINED_INSTRUCTION, p)
        else (0, arm_write_register p (ucast (get_bits ins 15 12)) (arm_read_spsr p))
      else (0, arm_write_register p (ucast (get_bits ins 15 12)) (arm_read_cpsr p)))"

section \<open>The branch offset\<close>

lemma and_push_bit_1: "x AND push_bit n 1 \<noteq> 0 \<longleftrightarrow> bit x n" for x :: u32
  by (simp add: bit_iff_and_push_bit_not_eq_0)

lemma and_0xFFFFFF: "x AND 0xFFFFFF = take_bit 24 x" for x :: u32
  by (simp add: take_bit_eq_mask mask_eq_exp_minus_1)

lemma sign_extending_bits:
  "sign_extending (take_bit 24 x) = (if bit x 23 then take_bit 24 x OR push_bit 24 (mask 6) else take_bit 24 x)"
proof -
  have "(0x3F000000 :: u32) = push_bit 24 (mask 6)" by (simp add: mask_eq_exp_minus_1)
  then show ?thesis by (simp only: sign_extending_def and_push_bit_1 bit_take_bit_iff) simp
qed

lemma branch_offset:
  "push_bit 2 (sign_extending (ins AND MASK_TARGET_ADR)) =
   word_of_int (4 * sint (ucast ins :: 24 word))"
proof -
  have ext: "bit (sign_extending (take_bit 24 ins)) n \<longleftrightarrow> bit ins (min n 23)" if "n < 30" for n
    using that
    by (auto simp: sign_extending_bits bit_simps min_def)
  have "push_bit 2 (sign_extending (take_bit 24 ins)) = push_bit 2 (scast (ucast ins :: 24 word) :: u32)"
    by (rule bit_word_eqI) (auto simp: bit_simps ext min_def)
  also have "\<dots> = 4 * scast (ucast ins :: 24 word)" by (simp add: push_bit_eq_mult)
  also have "\<dots> = word_of_int (4 * sint (ucast ins :: 24 word))"
    by simp
  finally show ?thesis unfolding and_0xFFFFFF .
qed

lemma arm_branch_unfold:
  "arm_branch p ins =
     (0, arm_write_register (if bit ins 24 then arm_write_register p 14 (arm_read_register p 15 - 4) else p) 15
           (arm_read_register p 15 + word_of_int (4 * sint (ucast ins :: 24 word))))"
proof -
  have "arm_read_register (if bit ins 24 then arm_write_register p 14 (arm_read_register p 15 - 4) else p) 15 =
      arm_read_register p 15"
    by (simp add: arm_read_pc_write)
  then show ?thesis by (simp only: arm_branch_def Let_def branch_offset and_push_bit_1)
qed

section \<open>Properties\<close>

text \<open>
  A branch adds four times its signed 24-bit offset to the program counter as the
  instruction reads it. With the link bit the address after the branch goes to the link
  register. No other register, no status bit and no byte of memory changes.
\<close>

lemma arm_branch_target:
  assumes "arm_branch p ins = (result, p')"
  shows "result = 0 \<and>
    read_register (arm_reg p') 15 =
      arm_read_register p 15 + word_of_int (4 * sint (ucast ins :: 24 word)) \<and>
    arm_read_register p' 14 = (if bit ins 24 then arm_read_register p 15 - 4 else arm_read_register p 14) \<and>
    (\<forall>reg. reg < 14 \<longrightarrow> arm_read_register p' reg = arm_read_register p reg) \<and>
    arm_read_cpsr p' = arm_read_cpsr p \<and> arm_mem p' = arm_mem p"
proof -
  let ?t = "arm_read_register p 15 + word_of_int (4 * sint (ucast ins :: 24 word))"
  have p': "p' = arm_write_register (if bit ins 24 then arm_write_register p 14 (arm_read_register p 15 - 4) else p) 15 ?t"
    and r: "result = 0"
    using assms by (simp_all only: arm_branch_unfold prod.inject)
  have reg: "reg < 14 \<Longrightarrow> reg < 16 \<and> reg \<noteq> 15 \<and> reg \<noteq> 14" for reg :: u8
    by (auto simp: word_less_nat_alt)
  show ?thesis
    by (auto simp: p' r mode_regs.rd_wr arm_read_cpsr_def dest: reg)
qed

text \<open>
  The outcome of the coprocessor and software interrupt group. \<^verbatim>\<open>swi 0x123456\<close> ends the
  simulation with exit status 0; every other software interrupt is reported as
  \<open>SOFTWARE_INTERRUPT\<close>, and coprocessor instructions as undefined.
\<close>

lemma swi_outcome:
  "arm_coprocessor_others_swi p ins =
     (if \<not> bit ins 24 then Inr UNDEFINED_INSTRUCTION
      else if unat ins mod 2 ^ 24 = 0x123456 then Inl (Exit 0) else Inr SOFTWARE_INTERRUPT)"
proof -
  have "take_bit 24 ins = 0x123456 \<longleftrightarrow> unat ins mod 2 ^ 24 = 0x123456"
    by (simp add: word_unat_eq_iff take_bit_eq_mod unat_mod)
  then show ?thesis by (simp add: arm_coprocessor_others_swi_def and_0xFFFFFF)
qed

text \<open>
  The status register moves. \<open>MRS\<close> copies the CPSR, or the SPSR of a mode that has one, to
  its destination register and nothing else; the SPSR of a mode without one is refused and
  nothing changes; the encodings of \<open>MSR\<close> succeed without any effect.
\<close>

lemma arm_miscellaneous_outcome:
  assumes "arm_miscellaneous p ins = (result, p')" "rd = ucast (get_bits ins 15 12)" "reg < 15"
  shows "(bit ins 21 \<longrightarrow> result = 0 \<and> p' = p) \<and>
    (\<not> bit ins 21 \<and> bit ins 22 \<and> \<not> current_mode_has_spsr (arm_reg p) \<longrightarrow>
       result = UNDEFINED_INSTRUCTION \<and> p' = p) \<and>
    (\<not> bit ins 21 \<and> (bit ins 22 \<longrightarrow> current_mode_has_spsr (arm_reg p)) \<longrightarrow>
       result = 0 \<and> arm_mem p' = arm_mem p \<and> arm_read_cpsr p' = arm_read_cpsr p \<and>
       arm_read_register p' reg =
         (if reg = rd then if bit ins 22 then arm_read_spsr p else arm_read_cpsr p
          else arm_read_register p reg))"
proof -
  have rd: "rd < 16" by (simp add: assms(2))
  have reg: "reg < 16" "reg \<noteq> 15" using assms(3) by (auto simp: word_less_nat_alt)
  show ?thesis
    using assms(1) rd reg
    by (auto simp: arm_miscellaneous_def arm_current_mode_has_spsr_def assms(2) [symmetric]
        arm_read_cpsr_def split: if_splits)
qed

end
