(* ===== verification/Arm_Data_Processing.thy ===== *)
theory Arm_Data_Processing
  imports Arm_Branch_Other
begin

text \<open>
  The data processing instructions of \<^verbatim>\<open>arm_data_processing.c\<close>. The handler is written in
  the pieces of the source: the second operand (\<open>dp_operand\<close>), the switch over the opcode
  (\<open>dp_compute\<close>), the new status word (\<open>dp_status\<close>), and their composition
  \<open>arm_data_processing\<close>. The \<^verbatim>\<open>printf\<close> calls are left out.
\<close>

section \<open>Definitions\<close>

definition dp_operand :: "cenv \<Rightarrow> arm_core \<Rightarrow> u32 \<Rightarrow> u32 \<times> bool" where
  "dp_operand E p ins =
     (if field ins 1 25 \<noteq> 0 then
        (ror E (ins AND 0xFF) (ucast ((drop_bit 8 ins AND 0xF) * 2)),
         get_bit (arm_read_cpsr p) CPSR_C \<noteq> 0)
      else shifter_operand E p ins False)"

definition dp_misc :: "arm_core \<Rightarrow> u32 \<Rightarrow> arm_core" where
  "dp_misc p ins = (if get_bit ins 20 = 0 then snd (arm_miscellaneous p ins) else p)"

definition dp_compute :: "arm_core \<Rightarrow> u32 \<Rightarrow> u32 \<Rightarrow> u32 \<Rightarrow> u32 \<times> arm_core" where
  "dp_compute p ins Value_Rn Value_Shifter =
     (let opcode = field ins 0xF 21;
          not_c = (if get_bit (arm_read_cpsr p) CPSR_C = 0 then 1 else 0)
      in if opcode = op_AND then (Value_Rn AND Value_Shifter, p)
         else if opcode = op_EOR then (Value_Rn XOR Value_Shifter, p)
         else if opcode = op_SUB then (Value_Rn - Value_Shifter, p)
         else if opcode = op_RSB then (Value_Shifter - Value_Rn, p)
         else if opcode = op_ADD then (Value_Rn + Value_Shifter, p)
         else if opcode = op_ADC then (Value_Rn + Value_Shifter + get_bit (arm_read_cpsr p) CPSR_C, p)
         else if opcode = op_SBC then (Value_Rn - Value_Shifter - not_c, p)
         else if opcode = op_RSC then (Value_Shifter - Value_Rn - not_c, p)
         else if opcode = op_TST then (Value_Rn AND Value_Shifter, dp_misc p ins)
         else if opcode = op_TEQ then (Value_Rn XOR Value_Shifter, dp_misc p ins)
         else if opcode = op_CMP then (Value_Rn - Value_Shifter, dp_misc p ins)
         else if opcode = op_CMN then (Value_Rn + Value_Shifter, dp_misc p ins)
         else if opcode = op_ORR then (Value_Rn OR Value_Shifter, p)
         else if opcode = op_MOV then (Value_Shifter, p)
         else if opcode = op_BIC then (Value_Rn AND NOT Value_Shifter, p)
         else (NOT Value_Shifter, p))"

definition dp_status :: "u32 \<Rightarrow> u32 \<Rightarrow> u32 \<Rightarrow> u32 \<Rightarrow> u32 \<Rightarrow> bool \<Rightarrow> u32" where
  "dp_status cpsr opcode Value_Rn Value_Shifter Res carry_out =
     (let a = get_bit Value_Rn 31;
          sh = (if opcode = op_ADC \<and> get_bit cpsr CPSR_C \<noteq> 0 then Value_Shifter + 1 else Value_Shifter);
          sh = (if (opcode = op_SBC \<or> opcode = op_RSB) \<and> get_bit cpsr CPSR_C = 0 then sh - 1 else sh);
          b = (if Value_Rn \<noteq> 0 \<and> (opcode = op_SUB \<or> opcode = op_RSB \<or> opcode = op_SBC \<or>
                  opcode = op_RSC \<or> opcode = op_CMP)
               then get_bit (NOT sh) 31 else get_bit sh 31);
          r = get_bit Res 31;
          cpsr = change_bit cpsr CPSR_N (get_bit Res 31 \<noteq> 0);
          cpsr = change_bit cpsr CPSR_Z (Res = 0);
          cpsr = change_bit cpsr CPSR_C carry_out
      in if op_SUB \<le> opcode \<and> opcode \<le> op_CMN \<and> opcode \<noteq> op_TST \<and> opcode \<noteq> op_TEQ then
           let cpsr = change_bit cpsr CPSR_C (carry_out \<or> (a \<noteq> 0 \<and> b \<noteq> 0) \<or> (r = 0 \<and> a \<noteq> b))
           in change_bit cpsr CPSR_V (a = b \<and> b \<noteq> r)
         else cpsr)"

definition arm_data_processing :: "cenv \<Rightarrow> arm_core \<Rightarrow> u32 \<Rightarrow> int \<times> arm_core" where
  "arm_data_processing E p ins =
     (let opcode = field ins 0xF 21;
          Value_Rn = arm_read_register p (ucast (field ins 0xF 16));
          Rd = ucast (field ins 0xF 12);
          (Value_Shifter, carry_out) = dp_operand E p ins;
          (Res, p) = dp_compute p ins Value_Rn Value_Shifter;
          p = (if field ins 3 23 \<noteq> 2 then arm_write_register p Rd Res else p);
          p = (if field ins 1 20 \<noteq> 0 then
                 if Rd = PC \<and> arm_current_mode_has_spsr p then arm_write_cpsr p (arm_read_spsr p)
                 else arm_write_cpsr p
                        (dp_status (arm_read_cpsr p) opcode Value_Rn Value_Shifter Res carry_out)
               else p)
      in (0, p))"

section \<open>The architecture's operations\<close>

text \<open>
  The result of each opcode, the arithmetic ones as integers modulo \<open>2 ^ 32\<close>, and the opcodes
  that only compare.
\<close>

definition arch_result :: "u32 \<Rightarrow> u32 \<Rightarrow> u32 \<Rightarrow> bool \<Rightarrow> u32" where
  "arch_result opcode n m c =
     (let borrow = (if c then 0 else 1)
      in [n AND m, n XOR m, word_of_int (uint n - uint m), word_of_int (uint m - uint n),
          word_of_int (uint n + uint m), word_of_int (uint n + uint m + of_bool c),
          word_of_int (uint n - uint m - borrow), word_of_int (uint m - uint n - borrow),
          n AND m, n XOR m, word_of_int (uint n - uint m), word_of_int (uint n + uint m),
          n OR m, m, n AND NOT m, NOT m] ! unat opcode)"

definition only_compares :: "u32 \<Rightarrow> bool" where
  "only_compares opcode \<longleftrightarrow> opcode \<in> {op_TST, op_TEQ, op_CMP, op_CMN}"

definition logical_op :: "u32 \<Rightarrow> bool" where
  "logical_op opcode \<longleftrightarrow> opcode \<in> {op_AND, op_EOR, op_TST, op_TEQ, op_ORR, op_MOV, op_BIC, op_MVN}"

section \<open>Decoding\<close>

abbreviation (input) opcode_of :: "u32 \<Rightarrow> u32" where "opcode_of ins \<equiv> get_bits ins 24 21"
abbreviation (input) rn_of :: "u32 \<Rightarrow> u8" where "rn_of ins \<equiv> ucast (get_bits ins 19 16)"
abbreviation (input) rd_of :: "u32 \<Rightarrow> u8" where "rd_of ins \<equiv> ucast (get_bits ins 15 12)"

lemma opcode_cases: "opcode_of ins \<in> {0, 1, 2, 3, 4, 5, 6, 7, 8, 9, 10, 11, 12, 13, 14, 15}"
  using get_bits_less [of 21 24 ins] by (intro word_less_16_cases) simp

lemma majreg: "get_bits ins 24 23 = drop_bit 2 (opcode_of ins)"
  by (simp add: get_bits_take_bit drop_bit_take_bit numeral_2_eq_2)

lemma majreg_compare: "get_bits ins 24 23 = 2 \<longleftrightarrow> only_compares (opcode_of ins)"
  using opcode_cases [of ins] unfolding majreg only_compares_def
  by (elim insertE emptyE) simp_all

lemma dp_compute_result:
  "fst (dp_compute p ins n m) = arch_result (opcode_of ins) n m (bit (arm_read_cpsr p) CPSR_C)"
  using opcode_cases [of ins]
  by (elim insertE emptyE)
    (simp_all add: dp_compute_def arch_result_def field_get_bits get_bit_of_bool Let_def wi_hom_syms
      del: get_bit_neq_0 get_bit_eq_0)

lemma dp_compute_state:
  "snd (dp_compute p ins n m) = (if only_compares (opcode_of ins) then dp_misc p ins else p)"
  using opcode_cases [of ins]
  by (elim insertE emptyE) (simp_all add: dp_compute_def only_compares_def field_get_bits Let_def)

lemma arm_data_processing_unfold:
  assumes "dp_operand E p ins = (m, co)" "only_compares (opcode_of ins) \<Longrightarrow> bit ins 20"
  shows "arm_data_processing E p ins =
     (let n = arm_read_register p (rn_of ins);
          res = arch_result (opcode_of ins) n m (bit (arm_read_cpsr p) CPSR_C);
          q = (if only_compares (opcode_of ins) then p else arm_write_register p (rd_of ins) res)
      in (0, if bit ins 20 then
               if rd_of ins = 15 \<and> arm_current_mode_has_spsr q then arm_write_cpsr q (arm_read_spsr q)
               else arm_write_cpsr q (dp_status (arm_read_cpsr p) (opcode_of ins) n m res co)
             else q))"
proof -
  have state: "snd (dp_compute p ins n m) = p" for n
    using assms(2) by (auto simp: dp_compute_state dp_misc_def)
  show ?thesis
    by (simp add: arm_data_processing_def assms(1) Let_def case_prod_beta state dp_compute_result
        field_get_bits field_1 majreg_compare cong: if_cong)
qed

section \<open>The status word\<close>

lemma bit_dp_status_low: "k < 28 \<Longrightarrow> bit (dp_status cpsr opc n m res co) k = bit cpsr k"
  by (simp add: dp_status_def Let_def)

lemma and_0x1F: "x AND 0x1F = take_bit 5 x" for x :: u32
  by (simp add: take_bit_eq_mask mask_eq_exp_minus_1)

lemma dp_status_mode: "dp_status cpsr opc n m res co AND 0x1F = cpsr AND 0x1F"
  unfolding and_0x1F by (rule bit_word_eqI) (auto simp: bit_simps bit_dp_status_low)

lemma dp_status_NZ:
  "bit (dp_status cpsr opc n m res co) CPSR_N = bit res 31"
  "bit (dp_status cpsr opc n m res co) CPSR_Z = (res = 0)"
  by (simp_all add: dp_status_def Let_def)

lemma logical_not_arith:
  "logical_op opc \<Longrightarrow> \<not> (op_SUB \<le> opc \<and> opc \<le> op_CMN \<and> opc \<noteq> op_TST \<and> opc \<noteq> op_TEQ)"
  by (auto simp: logical_op_def word_le_nat_alt)

lemma dp_status_logical:
  assumes "logical_op opc"
  shows "bit (dp_status cpsr opc n m res co) CPSR_C = co"
    "bit (dp_status cpsr opc n m res co) CPSR_V = bit cpsr CPSR_V"
  unfolding dp_status_def Let_def if_not_P [OF logical_not_arith [OF assms]] by simp_all

lemma uint_add_32: "uint (n + m) = (if uint n + uint m < 4294967296 then uint n + uint m
    else uint n + uint m - 4294967296)" for n m :: u32
  using uint_plus_if' [of n m] by simp

lemma uint_sub_32: "uint (n - m) = (if uint m \<le> uint n then uint n - uint m
    else uint n - uint m + 4294967296)" for n m :: u32
  using uint_sub_if' [of n m] by simp

definition signed_range :: "int \<Rightarrow> bool" where
  "signed_range x \<longleftrightarrow> - 2147483648 \<le> x \<and> x < 2147483648"

lemma add_carry:
  "(bit n 31 \<and> bit m 31 \<or> \<not> bit (n + m) 31 \<and> bit n 31 \<noteq> bit m 31) \<longleftrightarrow> 4294967296 \<le> uint n + uint m"
  for n m :: u32
  unfolding bit31_iff uint_add_32 using uint32_bounds [of n] uint32_bounds [of m]
  by (auto split: if_split; insert uint_ge_0 [of n] uint_ge_0 [of m]; linarith)

lemma add_overflow:
  "(bit n 31 = bit m 31 \<and> bit m 31 \<noteq> bit (n + m) 31) \<longleftrightarrow> \<not> signed_range (sint n + sint m)"
  for n m :: u32
  unfolding sint_by_bit31 signed_range_def bit31_iff uint_add_32
  using uint32_bounds [of n] uint32_bounds [of m]
  by (auto split: if_split; insert uint_ge_0 [of n] uint_ge_0 [of m]; linarith)

lemma sub_carry:
  "(bit n 31 \<and> \<not> bit m 31 \<or> \<not> bit (n - m) 31 \<and> bit n 31 = bit m 31) \<longleftrightarrow> uint m \<le> uint n"
  for n m :: u32
  unfolding bit31_iff uint_sub_32 using uint32_bounds [of n] uint32_bounds [of m]
  by (auto split: if_split; insert uint_ge_0 [of n] uint_ge_0 [of m]; linarith)

lemma sub_overflow:
  "(bit n 31 \<noteq> bit m 31 \<and> bit n 31 \<noteq> bit (n - m) 31) \<longleftrightarrow> \<not> signed_range (sint n - sint m)"
  for n m :: u32
  unfolding sint_by_bit31 signed_range_def bit31_iff uint_sub_32
  using uint32_bounds [of n] uint32_bounds [of m]
  by (auto split: if_split; insert uint_ge_0 [of n] uint_ge_0 [of m]; linarith)

lemma arch_result_simps:
  "arch_result 2 n m c = n - m" "arch_result 10 n m c = n - m"
  "arch_result 4 n m c = n + m" "arch_result 11 n m c = n + m"
  by (simp_all add: arch_result_def wi_hom_syms)

lemma bit_eq_conv: "get_bit x i = get_bit y i \<longleftrightarrow> bit x i = bit y i"
  by (simp add: get_bit_of_bool)

lemma bit_not_31: "bit (NOT x) 31 \<longleftrightarrow> \<not> bit x 31" for x :: u32
  by (simp add: bit_not_iff)

lemma dp_status_add_bits:
  assumes "opc = op_ADD \<or> opc = op_CMN"
  shows "bit (dp_status cpsr opc n m res co) CPSR_C \<longleftrightarrow>
      co \<or> bit n 31 \<and> bit m 31 \<or> \<not> bit res 31 \<and> bit n 31 \<noteq> bit m 31"
    "bit (dp_status cpsr opc n m res co) CPSR_V \<longleftrightarrow> bit n 31 = bit m 31 \<and> bit m 31 \<noteq> bit res 31"
  using assms by (elim disjE; simp add: dp_status_def Let_def bit_eq_conv)+

lemma dp_status_sub_bits:
  assumes "opc = op_SUB \<or> opc = op_CMP" "n \<noteq> 0"
  shows "bit (dp_status cpsr opc n m res co) CPSR_C \<longleftrightarrow>
      co \<or> bit n 31 \<and> \<not> bit m 31 \<or> \<not> bit res 31 \<and> bit n 31 = bit m 31"
    "bit (dp_status cpsr opc n m res co) CPSR_V \<longleftrightarrow> bit n 31 \<noteq> bit m 31 \<and> bit n 31 \<noteq> bit res 31"
  using assms by (elim disjE; simp add: dp_status_def Let_def bit_eq_conv bit_not_31; blast)+

lemma dp_status_add:
  assumes "opc = op_ADD \<or> opc = op_CMN"
  shows "bit (dp_status cpsr opc n m (n + m) co) CPSR_C \<longleftrightarrow> co \<or> 4294967296 \<le> uint n + uint m"
    "bit (dp_status cpsr opc n m (n + m) co) CPSR_V \<longleftrightarrow> \<not> signed_range (sint n + sint m)"
  unfolding add_carry [symmetric] add_overflow [symmetric] dp_status_add_bits [OF assms] by (rule refl)+

lemma dp_status_sub:
  assumes "opc = op_SUB \<or> opc = op_CMP" "n \<noteq> 0"
  shows "bit (dp_status cpsr opc n m (n - m) co) CPSR_C \<longleftrightarrow> co \<or> uint m \<le> uint n"
    "bit (dp_status cpsr opc n m (n - m) co) CPSR_V \<longleftrightarrow> \<not> signed_range (sint n - sint m)"
  unfolding sub_carry [symmetric] sub_overflow [symmetric] dp_status_sub_bits [OF assms] by (rule refl)+

lemma read_register_same_mode:
  "reg < 16 \<Longrightarrow> c AND 0x1F = read_cpsr r AND 0x1F \<Longrightarrow>
   read_register (write_cpsr r c) reg = read_register r reg"
  using slot_bound [of reg "get_mode r"]
  by (simp add: read_register_slot get_mode_def write_cpsr_apply)

lemma arm_read_register_same_mode:
  "reg < 16 \<Longrightarrow> c AND 0x1F = arm_read_cpsr p AND 0x1F \<Longrightarrow>
   arm_read_register (arm_write_cpsr p c) reg = arm_read_register p reg"
  by (simp add: arm_read_register_def arm_read_cpsr_def read_register_same_mode)

section \<open>Properties\<close>

text \<open>
  C10: an instruction that computes writes to its destination the result the architecture
  defines for its opcode, of the first operand register, the second operand and the carry, with
  or without the update of the flags. Memory and all other registers of the mode are kept, the program counter included, and so
  is the status word below the four flags. Only when the destination is the program counter, the flags are to be set and the mode
  has an SPSR, the SPSR replaces the status word; then too nothing else is written.
\<close>

theorem data_processing_result:
  assumes "arm_data_processing E p ins = (result, p')" "dp_operand E p ins = (m, co)"
    and "\<not> only_compares (get_bits ins 24 21)" "rd = ucast (get_bits ins 15 12)"
    and "res = arch_result (get_bits ins 24 21) (arm_read_register p (ucast (get_bits ins 19 16))) m
                 (bit (arm_read_cpsr p) CPSR_C)"
  shows "result = 0 \<and> arm_mem p' = arm_mem p \<and> cycle_count p' = cycle_count p \<and>
    (if rd = 15 \<and> bit ins 20 \<and> arm_current_mode_has_spsr p
     then arm_reg p' = write_cpsr (write_register (arm_reg p) 15 res) (arm_read_spsr p)
     else (\<forall>reg. reg < 16 \<longrightarrow>
             read_register (arm_reg p') reg = (if reg = rd then res else read_register (arm_reg p) reg)) \<and>
          (\<forall>k. k < 28 \<longrightarrow> bit (arm_read_cpsr p') k = bit (arm_read_cpsr p) k))"
proof -
  have rd: "rd < 16" by (simp add: assms(4))
  have spsr: "arm_current_mode_has_spsr (arm_write_register p 15 v) = arm_current_mode_has_spsr p"
    "arm_read_spsr (arm_write_register p 15 v) = arm_read_spsr p" for v
    by (simp_all add: arm_current_mode_has_spsr_def arm_read_spsr_def current_mode_has_spsr_def)
  have "only_compares (get_bits ins 24 21) \<Longrightarrow> bit ins 20" using assms(3) by simp
  from arm_data_processing_unfold [OF assms(2) this] show ?thesis
    using assms(1,3) rd
    by (auto simp: Let_def assms(4) [symmetric] assms(5) spsr read_register_same_mode dp_status_mode arm_read_cpsr_def mode_regs.rd_wr
        bit_dp_status_low split: if_splits)
qed

theorem data_processing_result_witness:
  "let p = \<lparr>cycle_count = 0, arm_reg = (\<lambda>_. 0)(1 := 5, 2 := 7, 15 := 8, 16 := 0x20000013),
            arm_mem = memory_create (\<lambda>_. 0) 16 True\<rparr>
   in \<exists>p'. arm_data_processing (x86_env 0) p 0xE0A13002 = (0, p') \<and> read_register (arm_reg p') 3 = 13 \<and>
        read_register (arm_reg p') 15 = 8"
proof -
  let ?p = "\<lparr>cycle_count = 0, arm_reg = (\<lambda>_. 0)(1 := 5, 2 := 7, 15 := 8, 16 := 0x20000013),
            arm_mem = memory_create (\<lambda>_. 0) 16 True\<rparr>"
  obtain r p' where d: "arm_data_processing (x86_env 0) ?p 0xE0A13002 = (r, p')"
    by (cases "arm_data_processing (x86_env 0) ?p 0xE0A13002")
  have v: "dp_operand (x86_env 0) ?p 0xE0A13002 = (7, True)"
    "\<not> only_compares (get_bits 0xE0A13002 24 21)" "3 = (ucast (get_bits 0xE0A13002 15 12) :: u8)"
    "13 = arch_result (get_bits 0xE0A13002 24 21) (arm_read_register ?p (ucast (get_bits 0xE0A13002 19 16))) 7
       (bit (arm_read_cpsr ?p) 29)"
    and w: "read_register (arm_reg ?p) 15 = 8"
    by code_simp+
  show ?thesis using data_processing_result [OF d v] d w by simp
qed

text \<open>
  The flags of the logical instructions (also the comparing ones): N and Z describe the
  result, C is the carry of the shifter, V is kept.
\<close>

lemma logical_flags:
  assumes "arm_data_processing E p ins = (result, p')" "dp_operand E p ins = (m, co)"
    and "logical_op (get_bits ins 24 21)" "bit ins 20" "ucast (get_bits ins 15 12) \<noteq> (15 :: u8)"
    and "res = arch_result (get_bits ins 24 21) (arm_read_register p (ucast (get_bits ins 19 16))) m
                 (bit (arm_read_cpsr p) CPSR_C)"
  shows "bit (arm_read_cpsr p') CPSR_N = bit res 31 \<and> bit (arm_read_cpsr p') CPSR_Z = (res = 0) \<and>
         bit (arm_read_cpsr p') CPSR_C = co \<and>
         bit (arm_read_cpsr p') CPSR_V = bit (arm_read_cpsr p) CPSR_V"
  using assms(1,4,5) unfolding arm_data_processing_unfold [OF assms(2,4)]
  by (auto simp: Let_def assms(6) [symmetric] dp_status_NZ dp_status_logical [OF assms(3)])

text \<open>
  The flags of \<open>ADD\<close> and \<open>CMN\<close>. V is set exactly when the sum of the signed operands does
  not fit into 32 bits. C is set when the unsigned sum does not fit, but also whenever the carry of
  the second operand is set, which for an immediate operand is the carry flag before the
  instruction: once set, it stays set.
\<close>

lemma addition_flags:
  assumes "arm_data_processing E p ins = (result, p')" "dp_operand E p ins = (m, co)"
    and "get_bits ins 24 21 = op_ADD \<or> get_bits ins 24 21 = op_CMN" "bit ins 20"
    and "ucast (get_bits ins 15 12) \<noteq> (15 :: u8)" "n = arm_read_register p (ucast (get_bits ins 19 16))"
  shows "bit (arm_read_cpsr p') CPSR_N = bit (n + m) 31 \<and> bit (arm_read_cpsr p') CPSR_Z = (n + m = 0) \<and>
         bit (arm_read_cpsr p') CPSR_C = (co \<or> 2 ^ 32 \<le> uint n + uint m) \<and>
         bit (arm_read_cpsr p') CPSR_V = (\<not> signed_range (sint n + sint m))"
proof -
  have res: "arch_result (get_bits ins 24 21) n m c = n + m" for c
    using assms(3) by (auto simp: arch_result_simps)
  have "arm_read_cpsr p' = dp_status (arm_read_cpsr p) (get_bits ins 24 21) n m (n + m) co"
    using assms(1,4,5) unfolding arm_data_processing_unfold [OF assms(2,4)]
    by (auto simp: Let_def assms(6) [symmetric] res)
  then show ?thesis by (simp add: dp_status_NZ dp_status_add [OF assms(3)])
qed

text \<open>
  The flags of \<open>SUB\<close> and \<open>CMP\<close> when the first operand is not zero. V is set exactly when
  the difference of the signed operands does not fit into 32 bits; C is set when the unsigned
  subtraction needs no borrow, or when the carry of the second operand is set.
\<close>

lemma subtraction_flags:
  assumes "arm_data_processing E p ins = (result, p')" "dp_operand E p ins = (m, co)"
    and "get_bits ins 24 21 = op_SUB \<or> get_bits ins 24 21 = op_CMP" "bit ins 20"
    and "ucast (get_bits ins 15 12) \<noteq> (15 :: u8)" "n = arm_read_register p (ucast (get_bits ins 19 16))"
    and "n \<noteq> 0"
  shows "bit (arm_read_cpsr p') CPSR_N = bit (n - m) 31 \<and> bit (arm_read_cpsr p') CPSR_Z = (n = m) \<and>
         bit (arm_read_cpsr p') CPSR_C = (co \<or> uint m \<le> uint n) \<and>
         bit (arm_read_cpsr p') CPSR_V = (\<not> signed_range (sint n - sint m))"
proof -
  have res: "arch_result (get_bits ins 24 21) n m c = n - m" for c
    using assms(3) by (auto simp: arch_result_simps)
  have "arm_read_cpsr p' = dp_status (arm_read_cpsr p) (get_bits ins 24 21) n m (n - m) co"
    using assms(1,4,5) unfolding arm_data_processing_unfold [OF assms(2,4)]
    by (auto simp: Let_def assms(6) [symmetric] res)
  then show ?thesis by (simp add: dp_status_NZ dp_status_sub [OF assms(3,7)])
qed

text \<open>
  Return from an exception. A computing instruction with the flag bit and the program counter
  as destination, in a mode with an SPSR, jumps to the result and replaces the whole status
  word by the SPSR; in another mode the status word keeps its mode.
\<close>

lemma exception_return:
  assumes "arm_data_processing E p ins = (result, p')" "dp_operand E p ins = (m, co)"
    and "\<not> only_compares (get_bits ins 24 21)" "bit ins 20" "ucast (get_bits ins 15 12) = (15 :: u8)"
  shows "read_register (arm_reg p') 15 =
           arch_result (get_bits ins 24 21) (arm_read_register p (ucast (get_bits ins 19 16))) m
             (bit (arm_read_cpsr p) CPSR_C) \<and>
         (arm_current_mode_has_spsr p \<longrightarrow> arm_read_cpsr p' = arm_read_spsr p) \<and>
         (\<not> arm_current_mode_has_spsr p \<longrightarrow> arm_read_cpsr p' AND 0x1F = arm_read_cpsr p AND 0x1F)"
proof -
  have pc: "read_register (write_cpsr r c) 15 = read_register r 15" for r c
    by (simp add: read_register_slot write_cpsr_apply)
  show ?thesis
    using assms(1,3,4,5) unfolding arm_data_processing_unfold [OF assms(2,4)]
    by (auto simp: Let_def mode_regs.rd_wr pc dp_status_mode)
qed

end
