(* ===== verification/Arm_Load_Store.thy ===== *)
theory Arm_Load_Store
  imports Arm_Data_Processing
begin

text \<open>
  Loads and stores of one and of several registers (\<^verbatim>\<open>arm_load_store.c\<close>). The local
  \<^verbatim>\<open>val\<close> starts with what the stack held (\<open>uninit_val\<close>); a byte or half load writes its
  low bytes through a narrower pointer, on a little-endian host. The \<^verbatim>\<open>printf\<close> calls are left
  out.
\<close>

section \<open>Definitions\<close>

definition addressing_mode :: "cenv \<Rightarrow> arm_core \<Rightarrow> u32 \<Rightarrow> u32" where
  "addressing_mode E p ins =
     (let is_half = (get_bit ins 26 = 0);
          is_shift = (get_bit ins 25 \<noteq> 0);
          is_immedHL = (get_bit ins 22 \<noteq> 0);
          U = (get_bit ins 23 \<noteq> 0);
          Rm = ucast (get_bits ins 3 0);
          res = (if is_shift then fst (shifter_operand E p ins False)
                 else if is_half then
                   if is_immedHL then push_bit 4 (get_bits ins 11 8) OR get_bits ins 3 0
                   else arm_read_register p Rm
                 else get_bits ins 11 0)
      in if \<not> U then res * - 1 else res)"

text \<open>Writing through \<^verbatim>\<open>(uint16_t *) &val\<close> and \<^verbatim>\<open>(uint8_t *) &val\<close>.\<close>

definition low_half :: "u32 \<Rightarrow> u16 \<Rightarrow> u32" where
  "low_half val h = (val AND NOT 0xFFFF) OR ucast h"

definition low_byte :: "u32 \<Rightarrow> u8 \<Rightarrow> u32" where
  "low_byte val b = (val AND NOT 0xFF) OR ucast b"

definition load_value :: "arm_core \<Rightarrow> bool \<Rightarrow> bool \<Rightarrow> u32 \<Rightarrow> u32 \<Rightarrow> u32" where
  "load_value p is_half is_byte address val =
     (if is_half then low_half val (snd (arm_read_half p address (ucast val)))
      else if is_byte then low_byte val (snd (arm_read_byte p address (ucast val)))
      else snd (arm_read_word p address val))"

definition store_value :: "arm_core \<Rightarrow> bool \<Rightarrow> bool \<Rightarrow> u32 \<Rightarrow> u32 \<Rightarrow> int \<times> arm_core" where
  "store_value p is_half is_byte address val =
     (if is_half then arm_write_half p address (ucast val)
      else if is_byte then arm_write_byte p address (ucast val)
      else arm_write_word p address val)"

definition arm_load_store :: "cenv \<Rightarrow> arm_core \<Rightarrow> u32 \<Rightarrow> int \<times> arm_core" where
  "arm_load_store E p ins =
     (let Rn = ucast (get_bits ins 19 16);
          Rd = ucast (get_bits ins 15 12);
          is_load = (get_bit ins 20 \<noteq> 0);
          is_half = (get_bit ins 7 \<noteq> 0 \<and> get_bit ins 4 \<noteq> 0);
          is_byte = (get_bit ins 22 \<noteq> 0);
          is_P = (get_bit ins 24 \<noteq> 0);
          is_W = (get_bit ins 21 \<noteq> 0);
          address = arm_read_register p Rn;
          address = (if is_P then address + addressing_mode E p ins else address);
          (res, p) =
            (if is_load then
               let val = load_value p is_half is_byte address (uninit_val E);
                   val = (if Rd = PC then val AND 0xFFFFFFFE else val)
               in (0, if \<not> is_P \<and> is_W then arm_write_usr_register p Rd val
                      else arm_write_register p Rd val)
             else
               let val = (if \<not> is_P \<and> is_W then arm_read_usr_register p Rd else arm_read_register p Rd)
               in store_value p is_half is_byte address val);
          address = (if \<not> is_P then address + addressing_mode E p ins else address);
          p = (if \<not> is_P \<or> is_W then arm_write_register p Rn address else p)
      in (res, p))"

text \<open>
  One turn of the loop of a multiple transfer. The loop state is the processor, \<^verbatim>\<open>address\<close>,
  \<^verbatim>\<open>Number_Of_Set_Bits\<close>, \<^verbatim>\<open>val\<close> and \<^verbatim>\<open>res\<close>.
\<close>

type_synonym lsm_state = "arm_core \<times> u32 \<times> u8 \<times> u32 \<times> int"

definition lsm_turn :: "u32 \<Rightarrow> nat \<Rightarrow> lsm_state \<Rightarrow> lsm_state" where
  "lsm_turn ins Ri s =
     (let (p, address, number, val, res) = s
      in if get_bit ins Ri \<noteq> 0 then
           if get_bit ins 20 \<noteq> 0 then
             let val = snd (arm_read_word p address val);
                 val = (if Ri = 15 then val AND 0xFFFFFFFE else val);
                 p = arm_write_register p (of_nat Ri) val
             in (p, address + 4, number + 1, val, 0)
           else
             let val = arm_read_register p (of_nat Ri);
                 (res, p) = arm_write_word p address val
             in (p, address + 4, number + 1, val, res)
         else s)"

definition arm_load_store_multiple :: "cenv \<Rightarrow> arm_core \<Rightarrow> u32 \<Rightarrow> int \<times> arm_core" where
  "arm_load_store_multiple E p ins =
     (let Rn = ucast (get_bits ins 19 16);
          is_incr = get_bit ins 23;
          is_before = get_bit ins 24;
          write_back = (get_bit ins 21 \<noteq> 0);
          start_address = arm_read_register p Rn;
          address = start_address;
          address = (if is_incr = 0
                     then fold (\<lambda>Ri a. if get_bit ins Ri \<noteq> 0 then a - 4 else a) [0..<16] address
                     else address);
          address = (if is_incr = is_before then address + 4 else address);
          (p, address, number, val, res) =
            fold (lsm_turn ins) [0..<16] (p, address, 0, uninit_val E, uninit_res E);
          p = (if write_back then
                 if is_incr \<noteq> 0 then arm_write_register p Rn (start_address + ucast number * 4)
                 else arm_write_register p Rn (start_address - ucast number * 4)
               else p)
      in (res, p))"

definition arm_coprocessor_load_store :: "arm_core \<Rightarrow> u32 \<Rightarrow> int" where
  "arm_coprocessor_load_store p ins = UNDEFINED_INSTRUCTION"

section \<open>Consecutive words of memory\<close>

primrec store_words :: "memory \<Rightarrow> u32 \<Rightarrow> u32 list \<Rightarrow> memory" where
  "store_words mem a [] = mem"
| "store_words mem a (v # vs) = store_words (snd (memory_write_word mem a v)) (a + 4) vs"

definition words_fit :: "memory \<Rightarrow> u32 \<Rightarrow> nat \<Rightarrow> bool" where
  "words_fit mem a n \<longleftrightarrow>
     unat a mod 4 = 0 \<and> unat a + 4 * n \<le> unat (mem_size mem) \<and> unat a + 4 * n \<le> 4294967296"

text \<open>The registers a multiple transfer names, in the order it transfers them.\<close>

definition reg_list :: "u32 \<Rightarrow> nat list" where
  "reg_list ins = filter (bit ins) [0..<16]"

primrec load_words :: "memory \<Rightarrow> u32 \<Rightarrow> nat \<Rightarrow> u32 list" where
  "load_words mem a 0 = []"
| "load_words mem a (Suc n) = snd (memory_read_word mem a 0) # load_words mem (a + 4) n"

definition loaded :: "nat \<Rightarrow> u32 \<Rightarrow> u32" where
  "loaded i v = (if i = 15 then v AND 0xFFFFFFFE else v)"

text \<open>The lowest address a multiple transfer uses and the base it leaves (ARM manual A5.4).\<close>

definition block_start :: "u32 \<Rightarrow> u32 \<Rightarrow> u32" where
  "block_start ins base =
     (let n = of_nat (length (reg_list ins))
      in if bit ins 23 then if bit ins 24 then base + 4 else base
         else if bit ins 24 then base - 4 * n else base - 4 * n + 4)"

definition block_base :: "u32 \<Rightarrow> u32 \<Rightarrow> u32" where
  "block_base ins base =
     (let n = of_nat (length (reg_list ins)) in if bit ins 23 then base + 4 * n else base - 4 * n)"

section \<open>Stored and loaded words\<close>

lemma store_words_frame [simp]:
  "mem_size (store_words mem a vs) = mem_size mem"
  by (induction vs arbitrary: mem a) (simp_all add: word_access.wr_size)

lemma words_fit_Suc:
  assumes "words_fit mem a (Suc n)"
  shows "in_block mem a" "unat a mod 4 = 0" "words_fit mem (a + 4) n"
    "n \<noteq> 0 \<Longrightarrow> unat (a + 4) = unat a + 4"
proof -
  show "in_block mem a" "unat a mod 4 = 0" using assms by (simp_all add: words_fit_def in_block_def)
  have plus: "unat (a + 4) = (unat a + 4) mod 4294967296" by (simp add: unat_word_ariths)
  then show "words_fit mem (a + 4) n"
  proof (cases "unat a + 4 = 4294967296")
    case True
    with assms plus show ?thesis by (simp add: words_fit_def)
  next
    case False
    with assms have "unat a + 4 < 4294967296" by (simp add: words_fit_def)
    with assms plus show ?thesis by (simp add: words_fit_def)
  qed
  show "unat (a + 4) = unat a + 4" if "n \<noteq> 0"
    using assms that plus by (simp add: words_fit_def)
qed

lemma words_fit_cong: "mem_size mem' = mem_size mem \<Longrightarrow> words_fit mem' a n = words_fit mem a n"
  by (simp add: words_fit_def)

lemma read_below_store_words:
  "words_fit mem a (length vs) \<Longrightarrow> unat b mod 4 = 0 \<Longrightarrow> vs = [] \<or> unat b < unat a \<Longrightarrow>
   memory_read_word (store_words mem a vs) b old = memory_read_word mem b old"
proof (induction vs arbitrary: mem a)
  case (Cons v vs)
  note fit = words_fit_Suc [OF Cons.prems(1) [simplified]]
  have lt: "vs = [] \<or> unat a < unat (a + 4)" using fit(4) by (cases vs) simp_all
  have "memory_read_word (store_words (snd (memory_write_word mem a v)) (a + 4) vs) b old =
      memory_read_word (snd (memory_write_word mem a v)) b old"
    using Cons.prems(2,3) fit(3) lt
    by (intro Cons.IH) (auto simp: words_fit_cong [OF word_access.wr_size])
  also have "\<dots> = memory_read_word mem b old"
    using Cons.prems(2,3) fit(2) by (intro word_access.rd_after_aligned_wr) auto
  finally show ?case by simp
qed simp

lemma load_store_words:
  "words_fit mem a (length vs) \<Longrightarrow> load_words (store_words mem a vs) a (length vs) = vs"
proof (induction vs arbitrary: mem a)
  case (Cons v vs)
  note fit = words_fit_Suc [OF Cons.prems(1) [simplified]]
  let ?m = "snd (memory_write_word mem a v)"
  have lt: "vs = [] \<or> unat a < unat (a + 4)" using fit(4) by (cases vs) simp_all
  have fit': "words_fit ?m (a + 4) (length vs)"
    using fit by (simp add: words_fit_cong [OF word_access.wr_size])
  have "fst (memory_write_word mem a v) = 0" using fit by (simp add: word_access.wr_ok_iff)
  then have "memory_read_word ?m a 0 = (0, v)" by (rule word_access.rd_after_wr)
  moreover have "memory_read_word (store_words ?m (a + 4) vs) a 0 = memory_read_word ?m a 0"
    using fit(2) fit' lt by (intro read_below_store_words)
  ultimately show ?case using Cons.IH [OF fit'] by simp
qed simp

lemma read_word_any_old: "in_block mem a \<Longrightarrow> snd (memory_read_word mem a old) = snd (memory_read_word mem a 0)"
  by (simp add: memory_read_word_def valid_address_iff)

lemma arm_read_register_mem [simp]: "arm_read_register (p\<lparr>arm_mem := m\<rparr>) reg = arm_read_register p reg"
  by (simp add: arm_read_register_def)

lemma fold_store:
  assumes "\<not> bit ins 20"
  shows "(\<And>i. i \<in> set rs \<Longrightarrow> bit ins i) \<Longrightarrow>
   \<exists>val' res'. fold (lsm_turn ins) rs (p, a, k, val, res) =
     (p\<lparr>arm_mem := store_words (arm_mem p) a (map (\<lambda>i. arm_read_register p (of_nat i)) rs)\<rparr>,
      a + 4 * of_nat (length rs), k + of_nat (length rs), val', res')"
proof (induction rs arbitrary: p a k val res)
  case (Cons i rs)
  have turn: "lsm_turn ins i (p, a, k, val, res) =
      (p\<lparr>arm_mem := snd (memory_write_word (arm_mem p) a (arm_read_register p (of_nat i)))\<rparr>, a + 4, k + 1,
       arm_read_register p (of_nat i), fst (memory_write_word (arm_mem p) a (arm_read_register p (of_nat i))))"
    using assms Cons.prems [of i] by (simp add: lsm_turn_def Let_def arm_write_word_def case_prod_beta)
  show ?case
    using Cons.IH [of "p\<lparr>arm_mem := snd (memory_write_word (arm_mem p) a (arm_read_register p (of_nat i)))\<rparr>"
        "a + 4" "k + 1"] Cons.prems
    by (simp add: turn algebra_simps)
qed simp

lemma fold_load:
  assumes "bit ins 20"
  shows "(\<And>i. i \<in> set rs \<Longrightarrow> bit ins i) \<Longrightarrow> words_fit (arm_mem p) a (length rs) \<Longrightarrow>
   \<exists>val' res'. fold (lsm_turn ins) rs (p, a, k, val, res) =
     (p\<lparr>arm_reg := mode_regs.wr_all (map2 (\<lambda>i v. (of_nat i, loaded i v)) rs
          (load_words (arm_mem p) a (length rs))) (arm_reg p)\<rparr>,
      a + 4 * of_nat (length rs), k + of_nat (length rs), val', res')"
proof (induction rs arbitrary: p a k val res)
  case (Cons i rs)
  note fit = words_fit_Suc [OF Cons.prems(2) [simplified]]
  let ?v = "loaded i (snd (memory_read_word (arm_mem p) a 0))"
  have turn: "lsm_turn ins i (p, a, k, val, res) =
      (p\<lparr>arm_reg := write_register (arm_reg p) (of_nat i) ?v\<rparr>, a + 4, k + 1, ?v, 0)"
    using assms Cons.prems(1) [of i] fit(1)
    by (simp add: lsm_turn_def Let_def arm_write_register_def arm_read_word_def loaded_def
        read_word_any_old [of _ _ val])
  show ?case
    using Cons.IH [of "p\<lparr>arm_reg := write_register (arm_reg p) (of_nat i) ?v\<rparr>"
        "a + 4" "k + 1"] Cons.prems fit
    by (simp add: turn algebra_simps)
qed simp

lemma length_reg_list: "length (reg_list ins) \<le> 16"
  unfolding reg_list_def using length_filter_le [of "bit ins" "[0..<16]"] by simp

lemma set_reg_list: "set (reg_list ins) = {i. i < 16 \<and> bit ins i}"
  by (auto simp: reg_list_def)

lemma distinct_reg_list: "distinct (reg_list ins)"
  by (simp add: reg_list_def)

lemma fold_lsm_reg_list: "fold (lsm_turn ins) [0..<16] = fold (lsm_turn ins) (reg_list ins)"
  unfolding reg_list_def by (rule fold_filter_skip) (simp add: lsm_turn_def case_prod_beta)

lemma fold_decrement:
  "fold (\<lambda>i a. if bit ins i then a - 4 else a) [0..<16] a = a - 4 * of_nat (length (reg_list ins))"
  for a :: u32
proof -
  have "fold (\<lambda>i a. if bit ins i then a - 4 else a) rs a = a - 4 * of_nat (length (filter (bit ins) rs))"
    for rs and a :: u32
    by (induction rs arbitrary: a) (simp_all add: algebra_simps)
  then show ?thesis unfolding reg_list_def .
qed

lemma ucast_count: "n \<le> 16 \<Longrightarrow> ucast (of_nat n :: u8) = (of_nat n :: u32)"
  by (simp add: word_unat_eq_iff unsigned_ucast_eq unsigned_of_nat take_bit_nat_eq_self)

lemma arm_load_store_multiple_unfold:
  "arm_load_store_multiple E p ins =
     (let Rn = ucast (get_bits ins 19 16); base = arm_read_register p Rn;
          (q, address, number, val, res) =
             fold (lsm_turn ins) (reg_list ins) (p, block_start ins base, 0, uninit_val E, uninit_res E)
      in (res, if bit ins 21 then
                 if bit ins 23 then arm_write_register q Rn (base + ucast number * 4)
                 else arm_write_register q Rn (base - ucast number * 4)
               else q))"
  by (simp add: arm_load_store_multiple_def Let_def fold_lsm_reg_list fold_decrement block_start_def bit_eq_conv
      get_bit_of_bool cong: if_cong)

lemma store_multiple_state:
  assumes "\<not> bit ins 20" "arm_load_store_multiple E p ins = (res, p')"
    and "rn = ucast (get_bits ins 19 16)" "base = arm_read_register p rn"
  shows "p' = (let q = p\<lparr>arm_mem := store_words (arm_mem p) (block_start ins base)
                         (map (\<lambda>i. arm_read_register p (of_nat i)) (reg_list ins))\<rparr>
              in if bit ins 21 then arm_write_register q rn (block_base ins base) else q)"
proof -
  have bits: "i \<in> set (reg_list ins) \<Longrightarrow> bit ins i" for i by (simp add: set_reg_list)
  from fold_store [OF assms(1), where rs = "reg_list ins" and p = p, OF bits, where a = "block_start ins base" and k = 0 and
      val = "uninit_val E" and res = "uninit_res E"]
  show ?thesis
    using assms(2) ucast_count [OF length_reg_list, of ins]
    by (auto simp: arm_load_store_multiple_unfold assms(3,4) [symmetric] Let_def block_base_def mult.commute)
qed

lemma load_multiple_state:
  assumes "bit ins 20" "arm_load_store_multiple E p ins = (res, p')"
    and "rn = ucast (get_bits ins 19 16)" "base = arm_read_register p rn"
    and "words_fit (arm_mem p) (block_start ins base) (length (reg_list ins))"
  shows "p' = (let q = p\<lparr>arm_reg := mode_regs.wr_all (map2 (\<lambda>i v. (of_nat i, loaded i v)) (reg_list ins)
                         (load_words (arm_mem p) (block_start ins base) (length (reg_list ins)))) (arm_reg p)\<rparr>
              in if bit ins 21 then arm_write_register q rn (block_base ins base) else q)"
proof -
  have bits: "\<And>i. i \<in> set (reg_list ins) \<Longrightarrow> bit ins i" by (simp add: set_reg_list)
  from fold_load [OF assms(1) bits assms(5), where k = 0 and val = "uninit_val E" and res = "uninit_res E"]
  show ?thesis
    using assms(2) ucast_count [OF length_reg_list, of ins]
    by (auto simp: arm_load_store_multiple_unfold assms(3,4) [symmetric] Let_def block_base_def mult.commute)
qed

lemma length_load_words [simp]: "length (load_words mem a n) = n"
  by (induction n arbitrary: a) simp_all

lemma of_nat_reg: "i < 16 \<Longrightarrow> (of_nat i :: u8) < 16"
  by (simp add: word_less_nat_alt unsigned_of_nat take_bit_nat_eq_self)

lemma of_nat_reg_inj: "i < 16 \<Longrightarrow> j < 16 \<Longrightarrow> (of_nat i :: u8) = of_nat j \<longleftrightarrow> i = j"
  by (simp add: word_unat_eq_iff unsigned_of_nat take_bit_nat_eq_self)

lemma loaded_pairs:
  assumes "length vs = length (reg_list ins)"
  defines "xs \<equiv> map2 (\<lambda>i v. (of_nat i :: u8, loaded i v)) (reg_list ins) vs"
  shows "map fst xs = map of_nat (reg_list ins)" "distinct (map fst xs)"
    "\<And>reg. reg \<in> fst ` set xs \<Longrightarrow> reg < 16"
    "\<And>j. j < length vs \<Longrightarrow> (of_nat (reg_list ins ! j), loaded (reg_list ins ! j) (vs ! j)) \<in> set xs"
proof -
  show m: "map fst xs = map of_nat (reg_list ins)"
    using assms(1) by (auto simp: xs_def intro!: nth_equalityI)
  have "inj_on (of_nat :: nat \<Rightarrow> u8) (set (reg_list ins))"
    by (auto simp: inj_on_def set_reg_list of_nat_reg_inj)
  then show "distinct (map fst xs)" unfolding m by (simp add: distinct_map distinct_reg_list)
  show "reg < 16" if "reg \<in> fst ` set xs" for reg
  proof -
    have "fst ` set xs = of_nat ` set (reg_list ins)" using m by (metis set_map)
    with that show ?thesis by (auto simp: set_reg_list of_nat_reg)
  qed
  show "(of_nat (reg_list ins ! j), loaded (reg_list ins ! j) (vs ! j)) \<in> set xs" if "j < length vs" for j
    using that assms(1) by (force simp: xs_def set_zip)
qed

lemma load_multiple_registers:
  assumes "length vs = length (reg_list ins)" "j < length (reg_list ins)"
  shows "read_register (mode_regs.wr_all (map2 (\<lambda>i v. (of_nat i, loaded i v)) (reg_list ins) vs) r)
           (of_nat (reg_list ins ! j)) = loaded (reg_list ins ! j) (vs ! j)"
  using assms(2) loaded_pairs [OF assms(1)]
  by (intro mode_regs.rd_wr_all) (simp_all add: assms(1))

lemma load_multiple_other:
  assumes "length vs = length (reg_list ins)" "k < 16" "\<not> bit ins k"
  shows "read_register (mode_regs.wr_all (map2 (\<lambda>i v. (of_nat i, loaded i v)) (reg_list ins) vs) r)
           (of_nat k) = read_register r (of_nat k)"
proof (rule mode_regs.rd_wr_all_other)
  show "(of_nat k :: u8) < 16" using assms(2) by (rule of_nat_reg)
  have "fst ` set (map2 (\<lambda>i v. (of_nat i, loaded i v)) (reg_list ins) vs) = (of_nat :: nat \<Rightarrow> u8) ` set (reg_list ins)"
    using loaded_pairs(1) [OF assms(1)] by (metis set_map)
  then show "(of_nat k :: u8) \<notin> fst ` set (map2 (\<lambda>i v. (of_nat i, loaded i v)) (reg_list ins) vs)"
    using assms(2,3) by (auto simp: set_reg_list of_nat_reg_inj)
qed (rule loaded_pairs(3) [OF assms(1)])

lemma nth_load_words:
  "j < n \<Longrightarrow> load_words mem a n ! j = snd (memory_read_word mem (a + 4 * of_nat j) 0)"
proof (induction n arbitrary: a j)
  case (Suc n)
  then show ?case by (cases j) (simp_all add: algebra_simps)
qed simp

lemma reg_list_index:
  assumes "i < 16" "bit ins i"
  obtains j where "j < length (reg_list ins)" "reg_list ins ! j = i"
  using assms by (metis (mono_tags, lifting) in_set_conv_nth mem_Collect_eq set_reg_list)

lemma nth_reg_list: "j < length (reg_list ins) \<Longrightarrow> reg_list ins ! j < 16 \<and> bit ins (reg_list ins ! j)"
  using nth_mem [of j "reg_list ins"] by (simp add: set_reg_list)

lemma block_inverse:
  assumes "reg_list ins' = reg_list ins" "bit ins' 23 \<noteq> bit ins 23" "bit ins' 24 \<noteq> bit ins 24"
  shows "block_start ins' (block_base ins base) = block_start ins base"
    "block_base ins' (block_base ins base) = base"
  using assms by (auto simp: block_start_def block_base_def Let_def)

section \<open>Properties of multiple transfers\<close>

text \<open>
  C13: a load of several registers reads consecutive words, from the lowest address that its
  addressing mode defines on, into the registers of its list in ascending order (bit 0 of the program
  counter is cleared), leaves every other register and memory as they were, and with write-back
  moves the base register past the block.
\<close>

theorem load_multiple_effect:
  assumes "arm_load_store_multiple E p ins = (res, p')" "bit ins 20"
    and "rn = ucast (get_bits ins 19 16)" "base = arm_read_register p rn" "\<not> bit ins (unat rn)"
    and "words_fit (arm_mem p) (block_start ins base) (length (reg_list ins))"
  shows "(\<forall>j. j < length (reg_list ins) \<longrightarrow>
           read_register (arm_reg p') (of_nat (reg_list ins ! j)) =
             loaded (reg_list ins ! j)
               (snd (memory_read_word (arm_mem p) (block_start ins base + 4 * of_nat j) 0))) \<and>
         (bit ins 21 \<longrightarrow> read_register (arm_reg p') rn = block_base ins base) \<and>
         (\<forall>k. k < 16 \<and> \<not> bit ins k \<and> (of_nat k \<noteq> rn \<or> \<not> bit ins 21) \<longrightarrow>
           read_register (arm_reg p') (of_nat k) = read_register (arm_reg p) (of_nat k)) \<and>
         arm_mem p' = arm_mem p"
proof -
  let ?vs = "load_words (arm_mem p) (block_start ins base) (length (reg_list ins))"
  let ?r = "mode_regs.wr_all (map2 (\<lambda>i v. (of_nat i, loaded i v)) (reg_list ins) ?vs) (arm_reg p)"
  have rn: "rn < 16" by (simp add: assms(3))
  have p': "p' = (if bit ins 21 then arm_write_register (p\<lparr>arm_reg := ?r\<rparr>) rn (block_base ins base)
      else p\<lparr>arm_reg := ?r\<rparr>)"
    using load_multiple_state [OF assms(2,1,3,4,6)] by (simp add: Let_def)
  have other: "of_nat (reg_list ins ! j) \<noteq> rn" if "j < length (reg_list ins)" for j
    using nth_reg_list [OF that] assms(5)
    by (auto simp: word_unat_eq_iff unsigned_of_nat take_bit_nat_eq_self)
  have "read_register (arm_reg p') (of_nat (reg_list ins ! j)) = loaded (reg_list ins ! j) (?vs ! j)"
    if "j < length (reg_list ins)" for j
    using load_multiple_registers [of ?vs ins j] that other [OF that] nth_reg_list [OF that] rn
    by (simp add: p' mode_regs.rd_wr of_nat_reg)
  moreover have "read_register (arm_reg p') (of_nat k) = read_register (arm_reg p) (of_nat k)"
    if "k < 16" "\<not> bit ins k" "of_nat k \<noteq> rn \<or> \<not> bit ins 21" for k
    using load_multiple_other [of ?vs ins k] that rn by (auto simp: p' mode_regs.rd_wr of_nat_reg)
  ultimately show ?thesis
    using rn by (simp add: nth_load_words p' mode_regs.rd_wr)
qed

theorem load_multiple_effect_witness:
  "let p = \<lparr>cycle_count = 0, arm_reg = (\<lambda>_. 0)(2 := 8, 16 := 0x13),
            arm_mem = memory_create (\<lambda>a. ucast a) 32 True\<rparr>
   in \<exists>res p'. arm_load_store_multiple (x86_env 0) p 0xE8B20003 = (res, p') \<and>
        read_register (arm_reg p') 1 = 0x0C0D0E0F \<and> read_register (arm_reg p') 2 = 16"
proof -
  let ?p = "\<lparr>cycle_count = 0, arm_reg = (\<lambda>_. 0)(2 := 8, 16 := 0x13),
            arm_mem = memory_create (\<lambda>a. ucast a) 32 True\<rparr>"
  obtain res p' where l: "arm_load_store_multiple (x86_env 0) ?p 0xE8B20003 = (res, p')"
    by (cases "arm_load_store_multiple (x86_env 0) ?p 0xE8B20003")
  have v: "bit (0xE8B20003 :: u32) 20" "2 = (ucast (get_bits 0xE8B20003 19 16) :: u8)"
    "8 = arm_read_register ?p 2" "\<not> bit (0xE8B20003 :: u32) (unat (2 :: u8))"
    and w: "reg_list 0xE8B20003 = [0, 1]" "block_start 0xE8B20003 8 = 8" "block_base 0xE8B20003 8 = 16"
    "snd (memory_read_word (arm_mem ?p) 12 0) = 0x0C0D0E0F" "bit (0xE8B20003 :: u32) 21"
    by code_simp+
  have "words_fit (arm_mem ?p) (block_start 0xE8B20003 8) (length (reg_list 0xE8B20003))"
    by (simp add: w words_fit_def memory_create_def)
  note e = load_multiple_effect [OF l v this]
  have "read_register (arm_reg p') (of_nat (reg_list 0xE8B20003 ! 1)) =
      loaded (reg_list 0xE8B20003 ! 1) (snd (memory_read_word (arm_mem ?p) (block_start 0xE8B20003 8 + 4 * of_nat 1) 0))"
    using conjunct1 [OF e, rule_format, of 1] unfolding w(1) by simp
  then have "read_register (arm_reg p') 1 = 0x0C0D0E0F"
    using w(4) unfolding w(1,2) by (simp add: loaded_def)
  moreover have "read_register (arm_reg p') 2 = 16" using e w(3,5) by simp
  ultimately show ?thesis using l by simp
qed

text \<open>
  C12: push and pop. A store of several registers with write-back, followed later by a load of the
  same registers with the opposite addressing mode (as \<^verbatim>\<open>STMDB\<close> and \<^verbatim>\<open>LDMIA\<close>) on the same
  base, restores the registers and the base register, whatever happened to the registers and
  the processor mode in between, if memory and base are as the store left them.
\<close>

theorem push_pop_roundtrip:
  assumes "arm_load_store_multiple E p ins = (res, p1)" "\<not> bit ins 20" "bit ins 21"
    and "rn = ucast (get_bits ins 19 16)" "rn \<noteq> 15" "\<not> bit ins (unat rn)"
    and "words_fit (arm_mem p) (block_start ins (arm_read_register p rn)) (length (reg_list ins))"
    and "arm_mem p2 = arm_mem p1" "arm_read_register p2 rn = arm_read_register p1 rn"
    and "arm_load_store_multiple E' p2 ins' = (res', p3)" "bit ins' 20" "bit ins' 21"
    and "get_bits ins' 19 16 = get_bits ins 19 16" "reg_list ins' = reg_list ins"
    and "bit ins' 23 \<noteq> bit ins 23" "bit ins' 24 \<noteq> bit ins 24"
  shows "(\<forall>i. i < 15 \<and> bit ins i \<longrightarrow> arm_read_register p3 (of_nat i) = arm_read_register p (of_nat i)) \<and>
         arm_read_register p3 rn = arm_read_register p rn"
proof -
  define base where "base = arm_read_register p rn"
  let ?n = "length (reg_list ins)" and ?a = "block_start ins base"
  let ?vals = "map (\<lambda>i. arm_read_register p (of_nat i)) (reg_list ins)"
  have rn: "rn < 16" by (simp add: assms(4))
  have p1: "p1 = arm_write_register (p\<lparr>arm_mem := store_words (arm_mem p) ?a ?vals\<rparr>) rn (block_base ins base)"
    using store_multiple_state [OF assms(2,1,4) base_def] assms(3) by (simp add: Let_def)
  have base2: "arm_read_register p2 rn = block_base ins base"
    using rn assms(5,9) by (simp add: p1)
  have mem2: "arm_mem p2 = store_words (arm_mem p) ?a ?vals" by (simp add: assms(8) p1)
  have fit: "words_fit (arm_mem p) ?a (length ?vals)" using assms(7) by (simp add: base_def)
  have start: "block_start ins' (block_base ins base) = ?a" "block_base ins' (block_base ins base) = base"
    using block_inverse [OF assms(14-16)] by simp_all
  have rn': "rn = ucast (get_bits ins' 19 16)" by (simp add: assms(4,13))
  have "words_fit (arm_mem p2) ?a (length (reg_list ins'))"
    using fit by (simp add: mem2 words_fit_cong [OF store_words_frame] assms(14))
  from load_multiple_state [OF assms(11,10) rn' base2 [symmetric], unfolded start, OF this]
  have p3: "p3 = arm_write_register (p2\<lparr>arm_reg := mode_regs.wr_all (map2 (\<lambda>i v. (of_nat i, loaded i v))
      (reg_list ins) ?vals) (arm_reg p2)\<rparr>) rn base"
    using assms(12) load_store_words [OF fit] by (simp add: Let_def mem2 assms(14))
  have "arm_read_register p3 (of_nat i) = arm_read_register p (of_nat i)" if "i < 15" "bit ins i" for i
  proof -
    have "i < 16" using that(1) by simp
    from reg_list_index [OF this that(2)] obtain j where j: "j < ?n" "reg_list ins ! j = i" .
    have "of_nat i \<noteq> rn" "(of_nat i :: u8) \<noteq> 15"
      using that assms(6) by (auto simp: word_unat_eq_iff unsigned_of_nat take_bit_nat_eq_self)
    with load_multiple_registers [of ?vals ins j "arm_reg p2"] j that rn show ?thesis
      by (simp add: p3 of_nat_reg arm_read_register_other mode_regs.rd_wr loaded_def)
  qed
  moreover have "arm_read_register p3 rn = base" using rn assms(5) by (simp add: p3)
  ultimately show ?thesis by (simp add: base_def)
qed

theorem push_pop_roundtrip_witness:
  "let p = \<lparr>cycle_count = 0, arm_reg = (\<lambda>_. 0)(0 := 11, 1 := 22, 17 := 32, 16 := 0x13),
            arm_mem = memory_create (\<lambda>_. 0) 32 True\<rparr>;
       p1 = snd (arm_load_store_multiple (x86_env 0) p 0xE92D0003);
       p3 = snd (arm_load_store_multiple (x86_env 1) (arm_write_register p1 0 99) 0xE8BD0003)
   in arm_read_register p3 0 = 11 \<and> arm_read_register p3 13 = 32"
proof -
  let ?p = "\<lparr>cycle_count = 0, arm_reg = (\<lambda>_. 0)(0 := 11, 1 := 22, 17 := 32, 16 := 0x13),
            arm_mem = memory_create (\<lambda>_. 0) 32 True\<rparr>"
  obtain r1 p1 where s: "arm_load_store_multiple (x86_env 0) ?p 0xE92D0003 = (r1, p1)"
    by (cases "arm_load_store_multiple (x86_env 0) ?p 0xE92D0003")
  obtain r3 p3 where l: "arm_load_store_multiple (x86_env 1) (arm_write_register p1 0 99) 0xE8BD0003 = (r3, p3)"
    by (cases "arm_load_store_multiple (x86_env 1) (arm_write_register p1 0 99) 0xE8BD0003")
  have v: "\<not> bit (0xE92D0003 :: u32) 20" "bit (0xE92D0003 :: u32) 21"
    "13 = (ucast (get_bits 0xE92D0003 19 16) :: u8)" "(13 :: u8) \<noteq> 15" "\<not> bit (0xE92D0003 :: u32) (unat (13 :: u8))"
    by code_simp+
  have w: "bit (0xE8BD0003 :: u32) 20" "bit (0xE8BD0003 :: u32) 21"
    "get_bits 0xE8BD0003 19 16 = get_bits 0xE92D0003 19 16" "reg_list 0xE8BD0003 = reg_list 0xE92D0003"
    "bit (0xE8BD0003 :: u32) 23 \<noteq> bit (0xE92D0003 :: u32) 23"
    "bit (0xE8BD0003 :: u32) 24 \<noteq> bit (0xE92D0003 :: u32) 24"
    and x: "arm_read_register ?p 0 = 11" "arm_read_register ?p 13 = 32" "bit (0xE92D0003 :: u32) 0"
    and y: "reg_list 0xE92D0003 = [0, 1]" "block_start 0xE92D0003 32 = 24"
    by code_simp+
  have f: "words_fit (arm_mem ?p) (block_start 0xE92D0003 (arm_read_register ?p 13)) (length (reg_list 0xE92D0003))"
    unfolding x(2) y by (simp add: words_fit_def memory_create_def)
  have m: "arm_mem (arm_write_register p1 0 99) = arm_mem p1"
    "arm_read_register (arm_write_register p1 0 99) 13 = arm_read_register p1 13"
    by simp_all
  note e = push_pop_roundtrip [OF s v f m l w]
  have "arm_read_register p3 0 = 11" using conjunct1 [OF e, rule_format, of 0] x by simp
  moreover have "arm_read_register p3 13 = 32" using e x(2) by simp
  ultimately show ?thesis using s l by simp
qed

section \<open>Single transfers\<close>

lemma load_word_value: "load_value p False False a val = snd (memory_read_word (arm_mem p) a val)"
  by (simp add: load_value_def arm_read_word_def)

lemma addressing_mode_immediate:
  "bit ins 26 \<Longrightarrow> \<not> bit ins 25 \<Longrightarrow>
   addressing_mode E p ins = (if bit ins 23 then get_bits ins 11 0 else - get_bits ins 11 0)"
  by (simp add: addressing_mode_def Let_def)

lemma bit_low_byte: "bit (low_byte w b) n \<longleftrightarrow> (if n < 8 then bit b n else bit w n)"
proof -
  have "(0xFF :: u32) = mask 8" by (simp add: mask_eq_exp_minus_1)
  then have "bit (low_byte w b) n \<longleftrightarrow> n < 32 \<and> bit w n \<and> 8 \<le> n \<or> n < 32 \<and> bit b n"
    by (simp only: low_byte_def bit_simps) auto
  then show ?thesis by (auto dest: bit_imp_le_length)
qed

text \<open>
  The transfer of one word with offset or pre-indexed addressing. A store writes the register to
  the effective address and reports the memory's outcome; a load from inside the memory
  puts the word into the register; the base register takes the effective address exactly with
  write-back; nothing else changes.
\<close>

lemma word_transfer:
  assumes "arm_load_store E p ins = (res, p')" "bit ins 24" "\<not> bit ins 22" "\<not> (bit ins 7 \<and> bit ins 4)"
    and "rn = ucast (get_bits ins 19 16)" "rd = ucast (get_bits ins 15 12)" "rd \<noteq> 15" "rd \<noteq> rn"
    and "address = arm_read_register p rn + addressing_mode E p ins"
    and "reg < 15"
  shows "(\<not> bit ins 20 \<longrightarrow>
            (res, arm_mem p') = memory_write_word (arm_mem p) address (arm_read_register p rd)) \<and>
         (bit ins 20 \<longrightarrow> res = 0 \<and> arm_mem p' = arm_mem p \<and> (in_block (arm_mem p) address \<longrightarrow>
            (0, arm_read_register p' rd) = memory_read_word (arm_mem p) address 0)) \<and>
         (reg \<noteq> rd \<or> \<not> bit ins 20 \<longrightarrow>
            arm_read_register p' reg =
              (if reg = rn \<and> bit ins 21 then address else arm_read_register p reg)) \<and>
         arm_read_cpsr p' = arm_read_cpsr p"
proof -
  have regs: "rn < 16" "rd < 16" "reg < 16" "reg \<noteq> 15"
    using assms(10) less_trans [OF assms(10), of 16] by (auto simp: assms(5,6))
  define q where "q = (if bit ins 20 then arm_write_register p rd (snd (memory_read_word (arm_mem p) address (uninit_val E)))
      else snd (arm_write_word p address (arm_read_register p rd)))"
  have p': "p' = (if bit ins 21 then arm_write_register q rn address else q)"
    and res: "res = (if bit ins 20 then 0 else fst (memory_write_word (arm_mem p) address (arm_read_register p rd)))"
    using assms(1-4,7)
    by (auto simp: arm_load_store_def Let_def q_def assms(5,6,9) load_word_value store_value_def
        case_prod_beta split: if_splits)
  have qr: "arm_read_register q r = (if bit ins 20 \<and> r = rd then snd (memory_read_word (arm_mem p) address (uninit_val E))
      else arm_read_register p r)" if "r < 16" "r \<noteq> 15" for r
    using that regs by (simp add: q_def arm_read_register_other mode_regs.rd_wr)
  have qm: "arm_mem q = (if bit ins 20 then arm_mem p else snd (memory_write_word (arm_mem p) address (arm_read_register p rd)))"
    "arm_read_cpsr q = arm_read_cpsr p"
    using regs by (simp_all add: q_def arm_read_cpsr_def)
  show ?thesis
    using regs assms(7,8)
    by (auto simp: p' res qr qm memory_read_word_def valid_address_iff)
qed

text \<open>
  A byte load replaces the low byte of a local variable that was never initialised: the
  upper 24 bits of the destination register are what the stack held.
\<close>

lemma byte_load_upper_bits:
  assumes "arm_load_store E p ins = (res, p')" "bit ins 24" "bit ins 20" "bit ins 22"
    and "\<not> (bit ins 7 \<and> bit ins 4)"
    and "rn = ucast (get_bits ins 19 16)" "rd = ucast (get_bits ins 15 12)" "rd \<noteq> 15" "rd \<noteq> rn"
    and "address = arm_read_register p rn + addressing_mode E p ins" "in_block (arm_mem p) address"
  shows "take_bit 8 (arm_read_register p' rd) = ucast (mem_m (arm_mem p) address) \<and>
         drop_bit 8 (arm_read_register p' rd) = drop_bit 8 (uninit_val E)"
proof -
  have regs: "rn < 16" "rd < 16" by (simp_all add: assms(6,7))
  let ?v = "low_byte (uninit_val E) (mem_m (arm_mem p) address)"
  have "arm_read_register p' rd = ?v"
    using assms regs
    by (auto simp: arm_load_store_def Let_def load_value_def arm_read_byte_def memory_read_byte_def
        valid_address_iff mode_regs.rd_wr arm_read_register_other split: if_splits)
  moreover have hi: "bit b n \<Longrightarrow> n < 8" for b :: u8 and n
    by (drule bit_imp_le_length) simp
  have "take_bit 8 (low_byte w b) = ucast b" "drop_bit 8 (low_byte w b) = drop_bit 8 w" for w b
    by (auto simp: bit_low_byte bit_simps intro!: bit_word_eqI dest: hi)
  ultimately show ?thesis by simp
qed

text \<open>
  A store with an immediate offset that has its bits 7 and 4 set (for instance 144) is
  taken for a half store: the low half of the register is written at the address, not the word.
\<close>

lemma store_offset_taken_for_half:
  assumes "arm_load_store E p ins = (res, p')" "bit ins 26" "\<not> bit ins 25" "bit ins 24" "\<not> bit ins 20"
    and "bit ins 7" "bit ins 4"
    and "rn = ucast (get_bits ins 19 16)" "rd = ucast (get_bits ins 15 12)"
    and "offset = get_bits ins 11 0"
    and "address = (if bit ins 23 then arm_read_register p rn + offset else arm_read_register p rn - offset)"
  shows "(res, arm_mem p') = memory_write_half (arm_mem p) address (ucast (arm_read_register p rd))"
  using assms
  by (auto simp: arm_load_store_def Let_def store_value_def addressing_mode_immediate arm_write_half_def
      case_prod_beta split: if_splits)

end
