(* ===== verification/Arm_Confined.thy ===== *)
theory Arm_Confined
  imports Arm_Exception Arm_Load_Store
begin

text \<open>
  What no instruction can do. \<open>confined p p'\<close> says that between two states the size and the
  endianness of the memory are the same, and that no byte outside the memory block and no word
  outside the 37 words of the register block was written. Every operation of the processor is
  confined; the rules are in the form that the simplifier chains along a sequence of operations.
\<close>

section \<open>Confinement\<close>

definition confined :: "arm_core \<Rightarrow> arm_core \<Rightarrow> bool" where
  "confined p p' \<longleftrightarrow>
     mem_size (arm_mem p') = mem_size (arm_mem p) \<and>
     is_big_endian_mem (arm_mem p') = is_big_endian_mem (arm_mem p) \<and>
     (4 dvd unat (mem_size (arm_mem p)) \<longrightarrow>
        (\<forall>b. \<not> in_block (arm_mem p) b \<longrightarrow> mem_m (arm_mem p') b = mem_m (arm_mem p) b)) \<and>
     (\<forall>k. 37 \<le> k \<longrightarrow> arm_reg p' k = arm_reg p k)"

lemma confined_refl [simp, intro]: "confined p p"
  by (simp add: confined_def)

lemma confined_trans: "confined p q \<Longrightarrow> confined q r \<Longrightarrow> confined p r"
  by (auto simp: confined_def in_block_def)

lemma spsr_high: "37 \<le> k \<Longrightarrow> write_spsr r v k = r k"
  by (auto simp: write_spsr_slot split: option.split dest!: spsr_slot_bounds)

lemma confined_register:
  "reg < 16 \<Longrightarrow> confined p (arm_write_register p reg v)"
  "reg < 16 \<Longrightarrow> confined p (arm_write_usr_register p reg v)"
  "confined p (arm_write_cpsr p v)"
  "confined p (arm_write_spsr p v)"
  by (auto simp: confined_def mode_regs.wr_bound usr_regs.wr_bound write_cpsr_def spsr_high)

lemma confined_store:
  "confined p (snd (arm_write_byte p a v8))"
  "confined p (snd (arm_write_half p a v16))"
  "confined p (snd (arm_write_word p a v32))"
proof -
  have two: "4 dvd n \<Longrightarrow> 2 dvd n" for n :: nat by (metis dvd_trans even_numeral)
  show "confined p (snd (arm_write_byte p a v8))"
    by (auto simp: confined_def byte_access.wr_size byte_access.wr_endian byte_access.wr_block_safe)
  show "confined p (snd (arm_write_half p a v16))"
    by (auto simp: confined_def half_access.wr_size half_access.wr_endian half_access.wr_block_safe two)
  show "confined p (snd (arm_write_word p a v32))"
    by (auto simp: confined_def word_access.wr_size word_access.wr_endian word_access.wr_block_safe)
qed

text \<open>The same as rules for an operation at the end of a sequence.\<close>

lemma confined_after [simp, core_frame]:
  "confined p q \<Longrightarrow> reg < 16 \<Longrightarrow> confined p (arm_write_register q reg v)"
  "confined p q \<Longrightarrow> reg < 16 \<Longrightarrow> confined p (arm_write_usr_register q reg v)"
  "confined p q \<Longrightarrow> confined p (arm_write_cpsr q v)"
  "confined p q \<Longrightarrow> confined p (arm_write_spsr q v)"
  "confined p q \<Longrightarrow> confined p (snd (arm_write_byte q a v8))"
  "confined p q \<Longrightarrow> confined p (snd (arm_write_half q a v16))"
  "confined p q \<Longrightarrow> confined p (snd (arm_write_word q a v32))"
  "confined p q \<Longrightarrow> confined p (q\<lparr>cycle_count := c\<rparr>)"
  by (rule confined_trans, assumption, simp add: confined_register confined_store)+
    (simp add: confined_def in_block_def)

section \<open>The handlers are confined\<close>

lemma confined_fetch [simp, core_frame]: "confined p q \<Longrightarrow> confined p (snd (snd (arm_fetch q old)))"
  by (simp add: arm_fetch_def Let_def case_prod_beta)

lemma confined_exception [simp, core_frame]: "confined p q \<Longrightarrow> confined p (arm_exception q e)"
  by (simp add: arm_exception_def Let_def case_prod_beta)

lemma confined_branch [simp, core_frame]: "confined p q \<Longrightarrow> confined p (snd (arm_branch q ins))"
  by (simp add: arm_branch_def Let_def)

lemma confined_miscellaneous [simp, core_frame]: "confined p q \<Longrightarrow> confined p (snd (arm_miscellaneous q ins))"
  by (simp add: arm_miscellaneous_def)

lemma confined_data_processing [simp, core_frame]:
  "confined p q \<Longrightarrow> confined p (snd (arm_data_processing E q ins))"
  by (simp add: arm_data_processing_def Let_def case_prod_beta dp_compute_state dp_misc_def)

lemma confined_load_store [simp, core_frame]: "confined p q \<Longrightarrow> confined p (snd (arm_load_store E q ins))"
  by (simp add: arm_load_store_def Let_def case_prod_beta store_value_def)

lemma confined_fold_lsm:
  "confined p q \<Longrightarrow> (\<And>i. i \<in> set rs \<Longrightarrow> i < 16) \<Longrightarrow>
   confined p (fst (fold (lsm_turn ins) rs (q, a, n, val, res)))"
proof (induction rs arbitrary: q a n val res)
  case (Cons i rs)
  obtain q' a' n' val' res' where t: "lsm_turn ins i (q, a, n, val, res) = (q', a', n', val', res')"
    by (metis prod_cases5)
  have "i < 16" using Cons.prems(2) by simp
  then have "confined p q'"
    using t Cons.prems(1) by (auto simp: lsm_turn_def Let_def case_prod_beta of_nat_reg split: if_splits)
  then show ?case using Cons by (simp add: t)
qed simp

lemma confined_load_store_multiple [simp, core_frame]:
  assumes "confined p q"
  shows "confined p (snd (arm_load_store_multiple E q ins))"
proof -
  have "confined p (fst (fold (lsm_turn ins) (reg_list ins) (q, a, n, val, res)))" for a n val res
    by (rule confined_fold_lsm [OF assms]) (simp add: set_reg_list)
  then show ?thesis by (simp add: arm_load_store_multiple_unfold Let_def case_prod_beta)
qed

end
