(* ===== verification/Arm_Instruction.thy ===== *)
theory Arm_Instruction
  imports Arm_Confined
begin

text \<open>
  Fetch, condition, decoding and the step of the processor (\<^verbatim>\<open>arm_instruction.c\<close>).
  The flags tested are those before the fetch. The handlers' return codes are dropped by the
  dispatch, as in the source.
\<close>

section \<open>Definitions\<close>

definition condition_passed :: "u32 \<Rightarrow> bool \<Rightarrow> bool \<Rightarrow> bool \<Rightarrow> bool \<Rightarrow> bool" where
  "condition_passed cond n z c v =
     (if cond = cond_EQ then z
      else if cond = cond_NE then \<not> z
      else if cond = cond_CS then c
      else if cond = cond_CC then \<not> c
      else if cond = cond_MI then n
      else if cond = cond_PL then \<not> n
      else if cond = cond_VS then v
      else if cond = cond_VC then \<not> v
      else if cond = cond_HI then c \<and> \<not> z
      else if cond = cond_LS then \<not> c \<or> z
      else if cond = cond_GE then n = v
      else if cond = cond_LT then n \<noteq> v
      else if cond = cond_GT then \<not> z \<and> n = v
      else if cond = cond_LE then z \<or> n \<noteq> v
      else True)"

definition arm_dispatch :: "cenv \<Rightarrow> arm_core \<Rightarrow> u32 \<Rightarrow> halt + int \<times> arm_core" where
  "arm_dispatch E p ins =
     (let kind = field ins 7 25
      in if kind = DATA_PROCESSING_SHIFT then
           if drop_bit 4 ins AND 1 \<noteq> 0 \<and> drop_bit 7 ins AND 1 \<noteq> 0
           then Inr (0, snd (arm_load_store E p ins))
           else Inr (0, snd (arm_data_processing E p ins))
         else if kind = DATA_PROCESSING_IMMEDIATE then Inr (0, snd (arm_data_processing E p ins))
         else if kind = LOAD_STORE_IMMEDIATE then Inr (0, snd (arm_load_store E p ins))
         else if kind = LOAD_STORE_REGISTER then Inr (0, snd (arm_load_store E p ins))
         else if kind = LOAD_STORE_MULTIPLE then Inr (0, snd (arm_load_store_multiple E p ins))
         else if kind = BRANCH then Inr (0, snd (arm_branch p ins))
         else if kind = COPROCESSOR_OTHERS_SWI then
           case arm_coprocessor_others_swi p ins of
             Inl h \<Rightarrow> Inl h
           | Inr result \<Rightarrow> Inr (0, p)
         else Inr (UNDEFINED_INSTRUCTION, p))"

definition arm_execute_instruction :: "cenv \<Rightarrow> arm_core \<Rightarrow> halt + int \<times> arm_core" where
  "arm_execute_instruction E p =
     (let cpsr = arm_read_cpsr p;
          n = (field cpsr 1 31 \<noteq> 0);
          z = (field cpsr 1 30 \<noteq> 0);
          c = (field cpsr 1 29 \<noteq> 0);
          v = (field cpsr 1 28 \<noteq> 0);
          (result, ins, p) = arm_fetch p (uninit_ins E)
      in if result \<noteq> 0 then Inr (result, p)
         else if \<not> condition_passed (field ins 0xF 28) n z c v then Inr (0, p)
         else arm_dispatch E p ins)"

definition arm_step :: "cenv \<Rightarrow> arm_core \<Rightarrow> halt + int \<times> arm_core" where
  "arm_step E p =
     (case arm_execute_instruction E p of
        Inl h \<Rightarrow> Inl h
      | Inr (result, p) \<Rightarrow>
          Inr (result, if result \<noteq> 0 then arm_exception p (word_of_int result) else p))"

section \<open>Shape of a step\<close>

definition status_allows :: "u32 \<Rightarrow> u32 \<Rightarrow> bool" where
  "status_allows cpsr cond \<longleftrightarrow> condition_passed cond (bit cpsr 31) (bit cpsr 30) (bit cpsr 29) (bit cpsr 28)"

lemma kind_cases: "field ins 7 25 \<in> {0, 1, 2, 3, 4, 5, 6, 7}"
proof (rule word_less_8_cases)
  show "unat (field ins 7 25) < 8"
    using get_bits_less [of 25 27 ins] by (simp add: field_get_bits)
qed

lemma arm_execute_unfold:
  "arm_fetch p (uninit_ins E) = (result, ins, q) \<Longrightarrow>
   arm_execute_instruction E p =
     (if result \<noteq> 0 then Inr (result, q)
      else if \<not> status_allows (arm_read_cpsr p) (get_bits ins 31 28) then Inr (0, q)
      else arm_dispatch E q ins)"
  by (simp add: arm_execute_instruction_def status_allows_def field_1 field_get_bits)

lemma arm_fetch_status: "fst (arm_fetch p old) = 0 \<or> fst (arm_fetch p old) = DATA_ABORT"
  using word_access.rd_status [of "arm_mem p" "arm_read_register p 15 - 4" old]
  by (auto simp: arm_fetch_def Let_def case_prod_beta arm_read_register_def split: if_splits)

lemma arm_dispatch_result: "arm_dispatch E p ins = Inr (result, p') \<Longrightarrow> result = 0 \<or> result = UNDEFINED_INSTRUCTION"
  by (auto simp: arm_dispatch_def Let_def split: if_splits sum.splits)

lemma arm_dispatch_halt:
  "arm_dispatch E p ins = Inl h \<longleftrightarrow>
     h = Exit 0 \<and> get_bits ins 27 25 = 7 \<and> bit ins 24 \<and> ins AND 0xFFFFFF = 0x123456"
  using kind_cases [of ins] unfolding field_get_bits [of 25, simplified]
  by (elim insertE emptyE)
    (auto simp: arm_dispatch_def Let_def field_get_bits arm_coprocessor_others_swi_def split: if_splits)

lemma arm_dispatch_status:
  "arm_dispatch E p ins = Inr (result, p') \<Longrightarrow>
   result = (if get_bits ins 27 25 = 6 then UNDEFINED_INSTRUCTION else 0)"
  using kind_cases [of ins] unfolding field_get_bits [of 25, simplified]
  by (elim insertE emptyE)
    (auto simp: arm_dispatch_def Let_def field_get_bits split: if_splits sum.splits)

lemma confined_dispatch: "confined p q \<Longrightarrow> arm_dispatch E q ins = Inr (result, p') \<Longrightarrow> confined p p'"
  by (auto simp: arm_dispatch_def Let_def split: if_splits sum.splits)

lemma confined_step: "arm_step E p = Inr (result, p') \<Longrightarrow> confined p p'"
proof -
  assume s: "arm_step E p = Inr (result, p')"
  obtain r ins q where f: "arm_fetch p (uninit_ins E) = (r, ins, q)" by (metis prod_cases3)
  have "confined p q" using confined_fetch [OF confined_refl, of p "uninit_ins E"] by (simp add: f)
  with s show ?thesis
    by (auto simp: arm_step_def arm_execute_unfold [OF f] split: if_splits sum.splits dest: confined_dispatch)
qed

lemma signed_compare:
  "bit (n - m) 31 = (\<not> signed_range (sint n - sint m)) \<longleftrightarrow> sint m \<le> sint n" for n m :: u32
  unfolding sint_by_bit31 signed_range_def bit31_iff uint_sub_32
  using uint32_bounds [of n] uint32_bounds [of m]
  by (auto split: if_split; insert uint_ge_0 [of n] uint_ge_0 [of m]; linarith)

lemma sint_less_iff_le_neq: "sint m < sint n \<longleftrightarrow> sint m \<le> sint n \<and> n \<noteq> m" for n m :: u32
  by (auto simp: order_less_le dest: signed_word_eqI)

lemma uint_less_iff_le_neq: "uint m < uint n \<longleftrightarrow> uint m \<le> uint n \<and> n \<noteq> m" for n m :: u32
  by (auto simp: order_less_le dest: unsigned_word_eqI)

lemma compare_status:
  assumes "arm_data_processing E p ins = (result, p')" "dp_operand E p ins = (m, co)"
    and "get_bits ins 24 21 = op_CMP" "bit ins 20" "ucast (get_bits ins 15 12) \<noteq> (15 :: u8)"
    and "n = arm_read_register p (ucast (get_bits ins 19 16))"
  shows "arm_read_cpsr p' = dp_status (arm_read_cpsr p) op_CMP n m (n - m) co"
  using assms(1,3-5) unfolding arm_data_processing_unfold [OF assms(2,4)]
  by (auto simp: Let_def assms(6) [symmetric] arch_result_simps only_compares_def)

section \<open>Properties\<close>

text \<open>
  C7: the outcome of a step. The simulation ends only at an executed \<^verbatim>\<open>swi 0x123456\<close>, with status
  0. A failed fetch raises a data abort; after a successful one the step reports an undefined instruction
  exactly for the coprocessor transfers and 0 for everything else, software interrupts and failed
  loads and stores included. In every case nothing outside the memory and register blocks is
  written.
\<close>

theorem step_outcome:
  assumes "arm_fetch p (uninit_ins E) = (r, ins, q)"
  shows "case arm_step E p of
      Inl h \<Rightarrow> h = Exit 0 \<and> r = 0 \<and> status_allows (arm_read_cpsr p) (get_bits ins 31 28) \<and>
               get_bits ins 27 25 = 7 \<and> bit ins 24 \<and> ins AND 0xFFFFFF = 0x123456
    | Inr (result, p') \<Rightarrow>
        confined p p' \<and>
        (r \<noteq> 0 \<longrightarrow> result = DATA_ABORT \<and> p' = arm_exception q 5) \<and>
        (r = 0 \<longrightarrow> result =
           (if status_allows (arm_read_cpsr p) (get_bits ins 31 28) \<and> get_bits ins 27 25 = 6
            then UNDEFINED_INSTRUCTION else 0))"
proof (cases "arm_step E p")
  case (Inl h)
  then show ?thesis
    by (auto simp: arm_step_def arm_execute_unfold [OF assms] arm_dispatch_halt split: if_splits sum.splits)
next
  case (Inr x)
  obtain result p' where x: "x = (result, p')" by (cases x)
  have r: "r = 0 \<or> r = 5" using arm_fetch_status [of p "uninit_ins E"] by (simp add: assms)
  have "confined p p'" using Inr x by (auto intro: confined_step)
  then show ?thesis using Inr x r
    by (auto simp: arm_step_def arm_execute_unfold [OF assms] split: if_splits sum.splits
        dest: arm_dispatch_status)
qed

theorem step_outcome_witness:
  "let p = \<lparr>cycle_count = 0, arm_reg = (\<lambda>_. 0)(15 := 0x1000, 16 := 0x13),
            arm_mem = memory_create (\<lambda>_. 0) 16 True\<rparr>
   in \<exists>p'. arm_step (x86_env 0) p = Inr (DATA_ABORT, p') \<and> confined p p'"
proof -
  let ?p = "\<lparr>cycle_count = 0, arm_reg = (\<lambda>_. 0)(15 := 0x1000, 16 := 0x13),
            arm_mem = memory_create (\<lambda>_. 0) 16 True\<rparr>"
  obtain r ins q where f: "arm_fetch ?p (uninit_ins (x86_env 0)) = (r, ins, q)" by (metis prod_cases3)
  have "fst (arm_fetch ?p (uninit_ins (x86_env 0))) = 5" by code_simp
  then have "r = 5" by (simp add: f)
  then show ?thesis using step_outcome [OF f] by (auto split: sum.splits)
qed

text \<open>
  An instruction whose condition does not hold costs a cycle and moves the program counter to
  the next instruction, and does nothing else.
\<close>

lemma condition_failed_skips:
  assumes "pc = read_register (arm_reg p) 15" "\<not> bit pc 1"
    and "memory_read_word (arm_mem p) pc (uninit_ins E) = (0, ins)"
    and "\<not> status_allows (arm_read_cpsr p) (get_bits ins 31 28)"
  shows "arm_step E p = Inr (0, p\<lparr>cycle_count := cycle_count p + 1,
                                  arm_reg := write_register (arm_reg p) 15 (pc + 4)\<rparr>)"
proof -
  have "arm_fetch p (uninit_ins E) =
      (0, ins, p\<lparr>cycle_count := cycle_count p + 1, arm_reg := write_register (arm_reg p) 15 (pc + 4)\<rparr>)"
    using assms(1-3) arm_fetch_unfold [of p "uninit_ins E"] by simp
  from arm_execute_unfold [OF this] assms(4) show ?thesis by (simp add: arm_step_def)
qed

text \<open>
  C9: after a comparison of a register that is not zero, the conditional instructions see the order of the two
  values: \<open>EQ\<close> and \<open>NE\<close> equality, \<open>GE\<close>, \<open>LT\<close>, \<open>GT\<close> and \<open>LE\<close> the signed order, whatever the carry \<open>co\<close> of the second
  operand. \<open>CS\<close>, \<open>CC\<close>, \<open>HI\<close> and \<open>LS\<close> see the unsigned order if that carry is clear. If it is set, as it is for a
  constant when the C flag was set before, the C flag stays set and they take the register to be at least as great.
\<close>

theorem compare_then_condition:
  assumes "arm_data_processing E p ins = (result, p')" "dp_operand E p ins = (m, co)"
    and "get_bits ins 24 21 = op_CMP" "bit ins 20" "ucast (get_bits ins 15 12) \<noteq> (15 :: u8)"
    and "n = arm_read_register p (ucast (get_bits ins 19 16))" "n \<noteq> 0"
  shows "(status_allows (arm_read_cpsr p') cond_EQ \<longleftrightarrow> n = m) \<and>
         (status_allows (arm_read_cpsr p') cond_NE \<longleftrightarrow> n \<noteq> m) \<and>
         (status_allows (arm_read_cpsr p') cond_CS \<longleftrightarrow> co \<or> uint m \<le> uint n) \<and>
         (status_allows (arm_read_cpsr p') cond_CC \<longleftrightarrow> \<not> co \<and> uint n < uint m) \<and>
         (status_allows (arm_read_cpsr p') cond_HI \<longleftrightarrow> (if co then n \<noteq> m else uint m < uint n)) \<and>
         (status_allows (arm_read_cpsr p') cond_LS \<longleftrightarrow> (if co then n = m else uint n \<le> uint m)) \<and>
         (status_allows (arm_read_cpsr p') cond_GE \<longleftrightarrow> sint m \<le> sint n) \<and>
         (status_allows (arm_read_cpsr p') cond_LT \<longleftrightarrow> sint n < sint m) \<and>
         (status_allows (arm_read_cpsr p') cond_GT \<longleftrightarrow> sint m < sint n) \<and>
         (status_allows (arm_read_cpsr p') cond_LE \<longleftrightarrow> sint n \<le> sint m)"
proof -
  let ?s = "arm_read_cpsr p'"
  have s: "?s = dp_status (arm_read_cpsr p) op_CMP n m (n - m) co"
    by (rule compare_status [OF assms(1-6)])
  have flags: "bit ?s 30 \<longleftrightarrow> n = m" "bit ?s 29 \<longleftrightarrow> co \<or> uint m \<le> uint n"
    "bit ?s 31 = bit ?s 28 \<longleftrightarrow> sint m \<le> sint n"
    using assms(7) unfolding s signed_compare [symmetric] by (simp_all add: dp_status_NZ dp_status_sub)
  show ?thesis
    unfolding status_allows_def using flags sint_less_iff_le_neq [of m n] sint_less_iff_le_neq [of n m]
      uint_less_iff_le_neq [of m n]
    by (simp add: condition_passed_def) (auto simp: not_le)
qed

theorem compare_then_condition_witness:
  "let p = \<lparr>cycle_count = 0, arm_reg = (\<lambda>_. 0)(1 := 0xFFFFFFFF, 2 := 1, 16 := 0x13),
            arm_mem = memory_create (\<lambda>_. 0) 16 True\<rparr>
   in \<exists>p'. arm_data_processing (x86_env 0) p 0xE1510002 = (0, p') \<and>
        status_allows (arm_read_cpsr p') cond_LT \<and> status_allows (arm_read_cpsr p') cond_HI"
proof -
  let ?p = "\<lparr>cycle_count = 0, arm_reg = (\<lambda>_. 0)(1 := 0xFFFFFFFF, 2 := 1, 16 := 0x13),
            arm_mem = memory_create (\<lambda>_. 0) 16 True\<rparr>"
  have v: "dp_operand (x86_env 0) ?p 0xE1510002 = (1, False)"
    "get_bits 0xE1510002 24 21 = op_CMP" "bit (0xE1510002 :: u32) 20"
    "ucast (get_bits 0xE1510002 15 12) \<noteq> (15 :: u8)"
    "0xFFFFFFFF = arm_read_register ?p (ucast (get_bits 0xE1510002 19 16))" "(0xFFFFFFFF :: u32) \<noteq> 0"
    and w: "sint (0xFFFFFFFF :: u32) < sint (1 :: u32)" "uint (1 :: u32) < uint (0xFFFFFFFF :: u32)"
    by code_simp+
  obtain p' where d: "arm_data_processing (x86_env 0) ?p 0xE1510002 = (0, p')"
    by (simp add: arm_data_processing_def Let_def case_prod_beta)
  have "status_allows (arm_read_cpsr p') cond_LT \<and> status_allows (arm_read_cpsr p') cond_HI"
    using compare_then_condition [OF d v] w unfolding if_False by blast
  with d show ?thesis by simp
qed

text \<open>
  When the register compared is zero the order is wrong: compared with a positive number, zero is
  taken to be the greater one.
\<close>

lemma compare_zero_inverts_order:
  assumes "arm_data_processing E p ins = (result, p')" "dp_operand E p ins = (m, co)"
    and "get_bits ins 24 21 = op_CMP" "bit ins 20" "ucast (get_bits ins 15 12) \<noteq> (15 :: u8)"
    and "arm_read_register p (ucast (get_bits ins 19 16)) = 0" "0 < sint m"
  shows "status_allows (arm_read_cpsr p') cond_GE \<and> status_allows (arm_read_cpsr p') cond_GT"
proof -
  let ?s = "arm_read_cpsr p'"
  have s: "?s = dp_status (arm_read_cpsr p) op_CMP 0 m (0 - m) co"
    using compare_status [OF assms(1-5) refl] by (simp add: assms(6))
  have m: "\<not> bit m 31" "m \<noteq> 0" "bit (- m) 31"
    using assms(7) uint32_bounds [of m] uint_sub_32 [of 0 m]
    by (auto simp: sint_by_bit31 bit31_iff split: if_splits)
  then have "bit ?s 31" "bit ?s 28" "\<not> bit ?s 30"
    unfolding s by (simp_all add: dp_status_def Let_def bit_eq_conv)
  then show ?thesis by (simp add: status_allows_def condition_passed_def)
qed

end
