(* ===== verification/C_Strings.thy ===== *)
theory C_Strings
  imports Prelude
begin

text \<open>
  What the program uses of the C library: strings as lists of bytes, \<^verbatim>\<open>%02x\<close> and \<^verbatim>\<open>%d\<close> of
  \<^verbatim>\<open>sprintf\<close>, \<^verbatim>\<open>%x\<close> of \<^verbatim>\<open>sscanf\<close> with an optional field width, \<^verbatim>\<open>atoi\<close> and
  \<^verbatim>\<open>index\<close>. A list holds the bytes from a pointer on; the string is what precedes the first
  zero byte, and a string that starts behind the list is empty.
\<close>

section \<open>Definitions\<close>

definition ascii :: "string \<Rightarrow> u8 list" where
  "ascii s = map of_char s"

definition cstr :: "u8 list \<Rightarrow> u8 list" where
  "cstr s = takeWhile (\<lambda>c. c \<noteq> 0) s"

definition hex_digit :: "u8 \<Rightarrow> u8" where
  "hex_digit d = (if d < 10 then d + 48 else d + 87)"

definition hex2 :: "u8 \<Rightarrow> u8 list" where
  "hex2 b = [hex_digit (drop_bit 4 b), hex_digit (take_bit 4 b)]"

definition hex_val :: "u8 \<Rightarrow> nat option" where
  "hex_val c =
     (if 48 \<le> c \<and> c \<le> 57 then Some (unat c - 48)
      else if 97 \<le> c \<and> c \<le> 102 then Some (unat c - 87)
      else if 65 \<le> c \<and> c \<le> 70 then Some (unat c - 55)
      else None)"

definition is_space :: "u8 \<Rightarrow> bool" where
  "is_space c \<longleftrightarrow> c = 32 \<or> 9 \<le> c \<and> c \<le> 13"

definition number_of :: "int \<Rightarrow> u8 list \<Rightarrow> int" where
  "number_of base s = foldl (\<lambda>n c. base * n + int (the (hex_val c))) 0 s"

definition scan_sign :: "u8 list \<Rightarrow> bool \<times> u8 list" where
  "scan_sign s = (if s = [] then (False, s)
                  else if hd s = 45 then (True, tl s)
                  else if hd s = 43 then (False, tl s) else (False, s))"

text \<open>The prefix \<^verbatim>\<open>0x\<close> belongs to the number when a digit follows.\<close>

definition scan_prefix :: "u8 list \<Rightarrow> u8 list" where
  "scan_prefix s =
     (if 3 \<le> length s \<and> s ! 0 = 48 \<and> (s ! 1 = 120 \<or> s ! 1 = 88) \<and> hex_val (s ! 2) \<noteq> None
      then drop 2 s else s)"

text \<open>\<^verbatim>\<open>strtoul\<close>: unsigned 64 bits, the largest value when the digits do not fit.\<close>

definition strtoul_value :: "bool \<Rightarrow> int \<Rightarrow> u32" where
  "strtoul_value neg n =
     (if n < 2 ^ 64 then if neg then - word_of_int n else word_of_int n else - 1)"

text \<open>\<open>scan_hex w s\<close>: the directive \<^verbatim>\<open>%x\<close>, with at most \<open>w\<close> characters when a width is given. The result is
  the value and what is left of the string.\<close>

definition scan_hex :: "nat option \<Rightarrow> u8 list \<Rightarrow> (u32 \<times> u8 list) option" where
  "scan_hex w s =
     (let s = dropWhile is_space (cstr s);
          s' = (case w of None \<Rightarrow> s | Some k \<Rightarrow> take k s);
          (neg, t) = scan_sign s';
          t = scan_prefix t;
          ds = takeWhile (\<lambda>c. hex_val c \<noteq> None) t;
          used = length s' - length t + length ds
      in if ds = [] then None else Some (strtoul_value neg (number_of 16 ds), drop used s))"

text \<open>\<^verbatim>\<open>sscanf(s, "%x,%x", &a, &b)\<close>: a directive that does not match leaves the variables as they are.\<close>

definition scan_hex_pair :: "u8 list \<Rightarrow> u32 \<Rightarrow> u32 \<Rightarrow> u32 \<times> u32" where
  "scan_hex_pair s a b =
     (case scan_hex None s of
        None \<Rightarrow> (a, b)
      | Some (a, r) \<Rightarrow>
          (if r \<noteq> [] \<and> hd r = 44 then
             case scan_hex None (tl r) of None \<Rightarrow> (a, b) | Some (b, r) \<Rightarrow> (a, b)
           else (a, b)))"

definition atoi :: "u8 list \<Rightarrow> int" where
  "atoi s =
     (let (neg, t) = scan_sign (dropWhile is_space (cstr s));
          n = number_of 10 (takeWhile (\<lambda>c. 48 \<le> c \<and> c \<le> 57) t);
          v = (if neg then max (- n) (- (2 ^ 63)) else min n (2 ^ 63 - 1))
      in sint (word_of_int v :: u32))"

text \<open>\<^verbatim>\<open>index(s, c) + 1\<close>: the bytes behind the first \<open>c\<close>; \<open>None\<close> stands for the null pointer.\<close>

definition index_after :: "u8 list \<Rightarrow> u8 \<Rightarrow> nat option" where
  "index_after s c =
     (let k = length (takeWhile (\<lambda>x. x \<noteq> c) (cstr s)) in if k < length (cstr s) then Some (k + 1) else None)"

text \<open>The conversion \<^verbatim>\<open>%d\<close>.\<close>

fun print_nat :: "nat \<Rightarrow> string" where
  "print_nat n = (if n < 10 then [] else print_nat (n div 10)) @ [char_of (48 + n mod 10)]"

declare print_nat.simps [simp del]

definition print_int :: "int \<Rightarrow> string" where
  "print_int i = (if i < 0 then CHR ''-'' # print_nat (nat (- i)) else print_nat (nat i))"

section \<open>Two hexadecimal digits\<close>

lemma hex_val_hex_digit: "d < 16 \<Longrightarrow> hex_val (hex_digit d) = Some (unat d)"
proof -
  assume "d < 16"
  then have "unat d < 16" by (simp add: word_less_nat_alt)
  then have "unat d \<in> {0, 1, 2, 3, 4, 5, 6, 7, 8, 9, 10, 11, 12, 13, 14, 15}"
    by (auto simp: numeral_eq_Suc less_Suc_eq)
  moreover have "d = of_nat (unat d)" by simp
  ultimately have "d \<in> {0, 1, 2, 3, 4, 5, 6, 7, 8, 9, 10, 11, 12, 13, 14, 15}" by fastforce
  then show ?thesis
    by (elim insertE emptyE) (simp_all add: hex_val_def hex_digit_def word_le_nat_alt)
qed

lemma nibbles: "drop_bit 4 b < (16 :: u8)" "take_bit 4 b < (16 :: u8)"
  "16 * unat (drop_bit 4 b) + unat (take_bit 4 b) = unat b"
proof -
  have b: "unat b < 256" using unsigned_less [where 'a = nat, of b] by simp
  show "drop_bit 4 b < (16 :: u8)"
    using b by (simp add: word_less_nat_alt drop_bit_eq_div unat_div less_mult_imp_div_less)
  show "take_bit 4 b < (16 :: u8)" by (simp add: word_less_nat_alt take_bit_eq_mod unat_mod)
  show "16 * unat (drop_bit 4 b) + unat (take_bit 4 b) = unat b"
    by (simp add: drop_bit_eq_div take_bit_eq_mod unat_div unat_mod)
qed

lemma hex_digit_range: "d < 16 \<Longrightarrow> hex_val (hex_digit d) \<noteq> None"
  by (simp add: hex_val_hex_digit)

lemma hex_char_plain: "hex_val c \<noteq> None \<Longrightarrow> c \<noteq> 0 \<and> \<not> is_space c \<and> c \<noteq> 45 \<and> c \<noteq> 43 \<and> c \<noteq> 120 \<and> c \<noteq> 88 \<and> c \<noteq> 35 \<and> c \<noteq> 36"
  by (auto simp: hex_val_def is_space_def word_le_nat_alt split: if_splits)

lemma hex2_number: "number_of 16 (hex2 b) = uint b"
proof -
  have "number_of 16 (hex2 b) = 16 * int (unat (drop_bit 4 b)) + int (unat (take_bit 4 b))"
    by (simp add: number_of_def hex2_def hex_val_hex_digit nibbles(1,2))
  also have "\<dots> = int (unat b)"
    unfolding nibbles(3) [of b, symmetric] by simp
  finally show ?thesis by simp
qed

lemma strtoul_byte: "strtoul_value False (uint b) = ucast b" for b :: u8
proof -
  have "uint b < 2 ^ 8" using uint_lt2p [of b] by simp
  then have "uint b < 2 ^ 64" by (rule less_trans) simp
  moreover have "word_of_int (uint b) = (ucast b :: u32)" by simp
  ultimately show ?thesis by (simp add: strtoul_value_def)
qed

lemma hex2_chars:
  "hex2 b = [h, l] \<Longrightarrow> hex_val h \<noteq> None \<and> hex_val l \<noteq> None"
  using nibbles(1,2) [of b] by (auto simp: hex2_def hex_val_hex_digit)

lemma scan_hex2:
  "scan_hex (Some 2) (hex2 b @ rest) = Some (ucast b, cstr rest)"
  "scan_hex None (hex2 b) = Some (ucast b, [])"
proof -
  obtain h l where hl: "hex2 b = [h, l]" by (simp add: hex2_def)
  have v: "hex_val h \<noteq> None" "hex_val l \<noteq> None" using hex2_chars [OF hl] by simp_all
  have p: "h \<noteq> 0" "\<not> is_space h" "h \<noteq> 45" "h \<noteq> 43" "l \<noteq> 0"
    using hex_char_plain [OF v(1)] hex_char_plain [OF v(2)] by simp_all
  have n: "number_of 16 [h, l] = uint b" using hex2_number [of b] by (simp add: hl)
  show "scan_hex (Some 2) (hex2 b @ rest) = Some (ucast b, cstr rest)"
    "scan_hex None (hex2 b) = Some (ucast b, [])"
    using p v by (auto simp: scan_hex_def hl cstr_def scan_sign_def scan_prefix_def n Let_def strtoul_byte)
qed

section \<open>Decimal numbers\<close>

lemma print_nat_digits: "c \<in> set (print_nat n) \<Longrightarrow> 48 \<le> (of_char c :: nat) \<and> (of_char c :: nat) < 58"
  by (induction n rule: print_nat.induct) (subst (asm) (2) print_nat.simps, auto split: if_splits)

lemma print_nat_ne [simp]: "print_nat n \<noteq> []"
  by (subst print_nat.simps) simp

lemma byte_of_char: "(of_char c :: u8) = of_nat (of_char c)"
  by (rule of_nat_of_char [symmetric])

lemma ascii_digit: "k < 10 \<Longrightarrow> (of_char (char_of (48 + k)) :: u8) = of_nat (48 + k)"
  by (simp only: byte_of_char of_char_of) (simp add: take_bit_nat_eq_self)

lemma unat_digit: "k < 200 \<Longrightarrow> unat (of_nat k :: u8) = k"
  by (simp add: unat_of_nat)

lemma digit_value: "k < 10 \<Longrightarrow> hex_val (of_nat (48 + k)) = Some k"
  unfolding hex_val_def word_le_nat_alt by (subst unat_digit, simp)+ simp

lemma ascii_digits: "c \<in> set (ascii (print_nat n)) \<Longrightarrow> 48 \<le> c \<and> c \<le> 57"
proof -
  assume "c \<in> set (ascii (print_nat n))"
  then obtain x where x: "x \<in> set (print_nat n)" "c = of_nat (of_char x)" by (auto simp: ascii_def byte_of_char)
  with print_nat_digits [OF x(1)] show ?thesis by (simp add: word_le_nat_alt unat_digit)
qed

lemma number_of_digits: "number_of 10 (ascii (print_nat n)) = int n"
proof (induction n rule: print_nat.induct)
  case (1 n)
  have last: "hex_val (of_char (char_of (48 + n mod 10))) = Some (n mod 10)"
    by (simp only: ascii_digit digit_value mod_less_divisor zero_less_numeral)
  have n: "print_nat n = (if n < 10 then [] else print_nat (n div 10)) @ [char_of (48 + n mod 10)]"
    by (rule print_nat.simps)
  show ?case
  proof (cases "n < 10")
    case False
    with 1 show ?thesis unfolding n by (simp add: number_of_def ascii_def last del: of_char_of) presburger
  qed (use last in \<open>simp add: n number_of_def ascii_def\<close>)
qed

lemma atoi_print_nat: "n < 2 ^ 31 \<Longrightarrow> atoi (ascii (print_nat n)) = int n"
proof -
  let ?s = "ascii (print_nat n)"
  assume n: "n < 2 ^ 31"
  have ne: "?s \<noteq> []" by (simp add: ascii_def)
  have d: "c \<noteq> 0 \<and> \<not> is_space c \<and> c \<noteq> 45 \<and> c \<noteq> 43" if "c \<in> set ?s" for c
    using ascii_digits [OF that] by (auto simp: is_space_def word_le_nat_alt)
  have cs: "cstr ?s = ?s" unfolding cstr_def using d by (simp add: takeWhile_eq_all_conv)
  have sp: "dropWhile is_space ?s = ?s" using d [OF hd_in_set [OF ne]] ne by (cases ?s) simp_all
  have ss: "scan_sign ?s = (False, ?s)" using d [OF hd_in_set [OF ne]] by (simp add: scan_sign_def)
  have tw: "takeWhile (\<lambda>c. 48 \<le> c \<and> c \<le> 57) ?s = ?s" using ascii_digits by (simp add: takeWhile_eq_all_conv)
  have "sint (word_of_int (int n) :: u32) = int n"
    using n by (simp only: signed_of_int) (simp add: signed_take_bit_int_eq_self)
  then show ?thesis using n by (simp add: atoi_def cs sp ss tw number_of_digits)
qed

end
