(* ===== verification/Gdb_Protocol.thy ===== *)
theory Gdb_Protocol
  imports Arm_Instruction C_Strings
begin

text \<open>
  The server side of the gdb remote protocol (\<^verbatim>\<open>gdb_protocol.c\<close>). The record holds what
  \<^verbatim>\<open>struct gdb_protocol_data\<close> holds. Its memory is the memory of its processor (the simulator
  creates the processor on it), so it is not a field of its own. The connection is the list of
  the writes to it (\<open>gdb_out\<close>) and whether its writing side was shut down; a write that fails ends
  the process in \<^verbatim>\<open>Rio_writen\<close>, see \<open>Rio\<close>, and so does one after the shutdown, see \<open>Threads\<close>. \<open>gdb_packet\<close> is the
  string in \<^verbatim>\<open>packet\<close>; \<^verbatim>\<open>buffer\<close> points to its second byte. A string that does not fit in the 1024 bytes of the array
  overwrites \<^verbatim>\<open>len\<close>, \<^verbatim>\<open>buffer\<close> and what follows the structure: there the result is \<open>Inl Undefined\<close>. Debug messages and the calls that switch the trace off
  and on are left out. The simulator is built with \<^verbatim>\<open>BIG_ENDIAN_SIMULATOR\<close> for a
  little-endian host.
\<close>

section \<open>Definitions\<close>

abbreviation (input) MAX_PACKET_SIZE :: nat where "MAX_PACKET_SIZE \<equiv> 1024"

record gdb_protocol_data =
  gdb_arm :: arm_core
  target_exception :: int
  gdb_packet :: "u8 list"
  gdb_len :: nat
  gdb_out :: "u8 list list"
  gdb_shut :: bool

type_synonym gdb = gdb_protocol_data

datatype gdb_handler =
  Cont | Kill_request | Query | Read_general_registers | Read_memory | Read_register | Reason
  | Set_thread | Step | Write_general_registers | Write_memory_binary | Write_register

text \<open>A write is added to the output here, also after the shutdown; that it then ends the process is in the steps of \<open>Threads\<close>.\<close>

definition rio_out :: "gdb \<Rightarrow> u8 list \<Rightarrow> gdb" where
  "rio_out gdb bytes = gdb\<lparr>gdb_out := gdb_out gdb @ [bytes]\<rparr>"

definition gdb_send_ack :: "gdb \<Rightarrow> gdb" where
  "gdb_send_ack gdb = rio_out gdb (ascii ''+'')"

definition gdb_transmit_packet :: "gdb \<Rightarrow> gdb" where
  "gdb_transmit_packet gdb = rio_out gdb (take (gdb_len gdb) (gdb_packet gdb))"

text \<open>The string at \<^verbatim>\<open>gdb->buffer\<close> becomes \<open>data\<close>, with the zero that ends it.\<close>

definition set_buffer :: "gdb \<Rightarrow> u8 list \<Rightarrow> halt + gdb" where
  "set_buffer gdb data =
     (if 1 + length data < MAX_PACKET_SIZE then Inr (gdb\<lparr>gdb_packet := take 1 (gdb_packet gdb @ [0]) @ data\<rparr>)
      else Inl Undefined)"

text \<open>The dollar sign, the hash sign, the checksum and the zero behind it are written to the array too.\<close>

definition gdb_send_buffer :: "gdb \<Rightarrow> halt + gdb" where
  "gdb_send_buffer gdb =
     (let payload = cstr (tl (gdb_packet gdb));
          check = sum_list payload;
          packet = ascii ''$'' @ payload @ ascii ''#'' @ hex2 check
      in if length packet < MAX_PACKET_SIZE
         then Inr (gdb_transmit_packet (gdb\<lparr>gdb_packet := packet, gdb_len := length packet\<rparr>))
         else Inl Undefined)"

definition then_send_buffer :: "halt + gdb \<Rightarrow> halt + gdb" where
  "then_send_buffer x = (case x of Inl h \<Rightarrow> Inl h | Inr gdb \<Rightarrow> gdb_send_buffer gdb)"

definition gdb_send_data :: "gdb \<Rightarrow> u8 list \<Rightarrow> halt + gdb" where
  "gdb_send_data gdb data = then_send_buffer (set_buffer gdb data)"

definition is_big_endian_host :: bool where
  "is_big_endian_host = False"

definition target_big_endian :: bool where
  "target_big_endian = True"

definition byte_order :: "nat list" where
  "byte_order = (if is_big_endian_host = target_big_endian then [0, 1, 2, 3] else [3, 2, 1, 0])"

text \<open>
  \<open>read_turn\<close> is one turn of the loop of \<^verbatim>\<open>read_uint32\<close>: the union's bytes, \<^verbatim>\<open>value\<close> and
  \<^verbatim>\<open>data\<close>, an offset into the packet. The byte \<open>i\<close> of the union is the byte \<open>i\<close> of the integer on a little-endian
  host. The packet ends with a zero that flex puts there; what a read from behind it finds is up to the platform.
\<close>

definition scan_byte :: "cenv \<Rightarrow> u8 list \<Rightarrow> nat \<Rightarrow> u32 option" where
  "scan_byte E packet k =
     (if k \<le> length packet then map_option fst (scan_hex (Some 2) (drop k packet))
      else beyond_scan E (k - length packet))"

definition read_turn ::
  "cenv \<Rightarrow> u8 list \<Rightarrow> nat \<Rightarrow> (nat \<Rightarrow> u8) \<times> u32 \<times> nat \<Rightarrow> (nat \<Rightarrow> u8) \<times> u32 \<times> nat" where
  "read_turn E packet i s =
     (let (bytes, value, data) = s;
          value = (case scan_byte E packet data of None \<Rightarrow> value | Some v \<Rightarrow> v)
      in (bytes(i := ucast value), value, data + 2))"

definition read_uint32 :: "cenv \<Rightarrow> u8 list \<Rightarrow> nat \<Rightarrow> u32" where
  "read_uint32 E packet data =
     (let (bytes, value, data) = fold (read_turn E packet) byte_order (\<lambda>_. 0, uninit_val E, data)
      in push_bit 24 (ucast (bytes 3)) OR push_bit 16 (ucast (bytes 2)) OR
         push_bit 8 (ucast (bytes 1)) OR ucast (bytes 0))"

definition write_uint32 :: "u32 \<Rightarrow> u8 list" where
  "write_uint32 value = concat (map (\<lambda>i. hex2 (ucast (drop_bit (8 * i) value))) byte_order)"

definition gdb_send_stop_reason :: "gdb \<Rightarrow> halt + gdb" where
  "gdb_send_stop_reason gdb =
     (if target_exception gdb = UNDEFINED_INSTRUCTION then gdb_send_data gdb (ascii ''S04'')
      else if target_exception gdb = PREFETCH_ABORT \<or> target_exception gdb = DATA_ABORT
      then gdb_send_data gdb (ascii ''S10'')
      else gdb_send_data gdb (ascii ''S05''))"

text \<open>
  The loop of \<^verbatim>\<open>cont\<close> may not end; then the result is \<open>None\<close>. It takes one environment per turn.
\<close>

partial_function (option) cont_loop :: "(nat \<Rightarrow> cenv) \<Rightarrow> u32 \<Rightarrow> gdb \<Rightarrow> (halt + gdb) option" where
  "cont_loop Es instruction gdb =
     (let r15 = arm_read_register (gdb_arm gdb) 15 - 4;
          instruction = snd (arm_read_word (gdb_arm gdb) r15 instruction)
      in if instruction AND 0xFFF000F0 = 0xE7F000F0 then Some (Inr gdb)
         else case arm_step (Es 0) (gdb_arm gdb) of
                Inl h \<Rightarrow> Some (Inl h)
              | Inr x \<Rightarrow> cont_loop (\<lambda>n. Es (Suc n)) instruction
                           (gdb\<lparr>gdb_arm := snd x, target_exception := fst x\<rparr>))"

definition cont :: "(nat \<Rightarrow> cenv) \<Rightarrow> gdb \<Rightarrow> u8 list \<Rightarrow> (halt + gdb) option" where
  "cont Es gdb data =
     (case cont_loop Es (uninit_ins (Es 0)) gdb of
        None \<Rightarrow> None
      | Some (Inl h) \<Rightarrow> Some (Inl h)
      | Some (Inr gdb) \<Rightarrow> Some (gdb_send_stop_reason gdb))"

definition kill_request :: "gdb \<Rightarrow> u8 list \<Rightarrow> halt + gdb" where
  "kill_request gdb data = Inr (gdb\<lparr>gdb_shut := True\<rparr>)"

definition query :: "gdb \<Rightarrow> u8 list \<Rightarrow> halt + gdb" where
  "query gdb data =
     (if cstr data = ascii ''Offsets'' then gdb_send_data gdb (ascii ''Text=0;Data=0;Bss=0'')
      else if take 9 (cstr data) = ascii ''Supported'' then gdb_send_data gdb (ascii ''PacketSize=400'')
      else if cstr data = ascii ''TStatus'' then gdb_send_data gdb (ascii ''T0;tnotrun:0'')
      else if cstr data = ascii ''Symbol::'' then gdb_send_data gdb []
      else gdb_send_data gdb [])"

definition read_general_registers :: "gdb \<Rightarrow> u8 list \<Rightarrow> halt + gdb" where
  "read_general_registers gdb data =
     (let p = gdb_arm gdb;
          general = concat (map (\<lambda>i. write_uint32 (arm_read_register p (of_nat i))) [0..<15]);
          pc = write_uint32 (arm_read_register p 15 - 4);
          floats = concat (replicate (8 * 3) (ascii ''xxxxxxxx''));
          fps = ascii ''xxxxxxxx'';
          cpsr = write_uint32 (arm_read_cpsr p)
      in then_send_buffer (set_buffer gdb (general @ pc @ floats @ fps @ cpsr)))"

text \<open>The loop compares the result of the read with -1.\<close>

fun read_memory_loop :: "memory \<Rightarrow> u32 \<Rightarrow> u8 \<Rightarrow> nat \<Rightarrow> u8 list" where
  "read_memory_loop mem address value 0 = []"
| "read_memory_loop mem address value (Suc sz) =
     (let (result, value) = memory_read_byte mem address value
      in if result \<noteq> - 1 then hex2 value @ read_memory_loop mem (address + 1) value sz else [])"

definition read_memory :: "cenv \<Rightarrow> gdb \<Rightarrow> u8 list \<Rightarrow> halt + gdb" where
  "read_memory E gdb data =
     (let (address, sz) = scan_hex_pair data (uninit_val E) (uninit_val E)
      in then_send_buffer (set_buffer gdb
           (read_memory_loop (arm_mem (gdb_arm gdb)) address (ucast (uninit_val E)) (unat sz))))"

definition gdb_read_register :: "gdb \<Rightarrow> u8 list \<Rightarrow> halt + gdb" where
  "gdb_read_register gdb data =
     (let reg = word_of_int (atoi data) :: u32
      in if reg < 16 then
           then_send_buffer (set_buffer gdb
             (write_uint32 (arm_read_register (gdb_arm gdb) (ucast reg) - (if reg = 15 then 4 else 0))))
         else Inl Abort)"

definition reason :: "gdb \<Rightarrow> u8 list \<Rightarrow> halt + gdb" where
  "reason gdb data = gdb_send_stop_reason gdb"

definition set_thread :: "gdb \<Rightarrow> u8 list \<Rightarrow> halt + gdb" where
  "set_thread gdb data =
     (let c = hd (data @ [0]); value = atoi (tl data)
      in if (c = of_char CHR ''c'' \<or> c = of_char CHR ''g'') \<and> value < 1 \<and> value > - 2
         then gdb_send_data gdb (ascii ''OK'')
         else gdb_send_data gdb (ascii ''E01''))"

definition gdb_step :: "cenv \<Rightarrow> gdb \<Rightarrow> u8 list \<Rightarrow> halt + gdb" where
  "gdb_step E gdb data =
     (case arm_step E (gdb_arm gdb) of
        Inl h \<Rightarrow> Inl h
      | Inr (result, p) \<Rightarrow> gdb_send_stop_reason (gdb\<lparr>gdb_arm := p, target_exception := result\<rparr>))"

definition write_general_registers :: "cenv \<Rightarrow> gdb \<Rightarrow> u8 list \<Rightarrow> halt + gdb" where
  "write_general_registers E gdb data =
     (let p = fold (\<lambda>i p. arm_write_register p (of_nat i) (read_uint32 E data (8 * i))) [0..<16]
                (gdb_arm gdb);
          value = read_uint32 E data (8 * (16 + 8 * 3 + 1));
          p = arm_write_cpsr p value
      in gdb_send_data (gdb\<lparr>gdb_arm := p\<rparr>) (ascii ''OK''))"

definition char_at :: "cenv \<Rightarrow> u8 list \<Rightarrow> nat \<Rightarrow> u8" where
  "char_at E data k = (if k < length data then data ! k else beyond_packet E (k - length data))"

text \<open>The loop state is \<^verbatim>\<open>write_ok\<close>, the memory, \<^verbatim>\<open>address\<close> and \<^verbatim>\<open>content\<close>, an offset into the packet.\<close>

fun write_memory_loop ::
  "cenv \<Rightarrow> u8 list \<Rightarrow> nat \<Rightarrow> bool \<Rightarrow> memory \<Rightarrow> u32 \<Rightarrow> nat \<Rightarrow> bool \<times> memory" where
  "write_memory_loop E data 0 write_ok mem address content = (write_ok, mem)"
| "write_memory_loop E data (Suc n) write_ok mem address content =
     (if write_ok then
        let (value, content) =
              (if char_at E data content = 0x7d
               then (char_at E data (content + 1) XOR 0x20, content + 1)
               else (char_at E data content, content));
            (result, mem) = memory_write_byte mem address value
        in write_memory_loop E data n (result = 0) mem (address + 1) (content + 1)
      else (write_ok, mem))"

definition write_memory_binary :: "cenv \<Rightarrow> gdb \<Rightarrow> u8 list \<Rightarrow> halt + gdb" where
  "write_memory_binary E gdb data =
     (let (address, sz) = scan_hex_pair data (uninit_val E) (uninit_val E)
      in case index_after data (of_char CHR '':'') of
           None \<Rightarrow> Inl Abort
         | Some content \<Rightarrow>
             let mem = arm_mem (gdb_arm gdb);
                 (write_ok, mem) = write_memory_loop E data (unat sz)
                    (ucast address < memory_get_size mem) mem address content;
                 gdb = gdb\<lparr>gdb_arm := (gdb_arm gdb)\<lparr>arm_mem := mem\<rparr>\<rparr>
             in if write_ok then gdb_send_data gdb (ascii ''OK'') else gdb_send_data gdb (ascii ''E02''))"

definition gdb_write_register :: "cenv \<Rightarrow> gdb \<Rightarrow> u8 list \<Rightarrow> halt + gdb" where
  "gdb_write_register E gdb data =
     (let reg = (case scan_hex None data of None \<Rightarrow> uninit_val E | Some (v, r) \<Rightarrow> v)
      in case index_after data (of_char CHR ''='') of
           None \<Rightarrow> Inl Abort
         | Some k \<Rightarrow>
             let value = read_uint32 E data k
             in if reg < 16 then
                  gdb_send_data (gdb\<lparr>gdb_arm := arm_write_register (gdb_arm gdb) (ucast reg) value\<rparr>) (ascii ''OK'')
                else Inl Abort)"

definition gdb_init_data :: "arm_core \<Rightarrow> u8 list \<Rightarrow> gdb" where
  "gdb_init_data arm heap =
     \<lparr>gdb_arm = arm, target_exception = 0, gdb_packet = heap, gdb_len = 0, gdb_out = [], gdb_shut = False\<rparr>"

text \<open>The table \<^verbatim>\<open>handler\<close> as \<^verbatim>\<open>gdb_init\<close> fills it.\<close>

definition handler :: "u8 \<Rightarrow> gdb_handler option" where
  "handler = ((\<lambda>_. None)
     (of_char CHR ''c'' := Some Cont, of_char CHR ''k'' := Some Kill_request,
      of_char CHR ''q'' := Some Query, of_char CHR ''g'' := Some Read_general_registers,
      of_char CHR ''m'' := Some Read_memory, of_char CHR ''p'' := Some Read_register,
      of_char CHR ''?'' := Some Reason, of_char CHR ''H'' := Some Set_thread,
      of_char CHR ''s'' := Some Step, of_char CHR ''G'' := Some Write_general_registers,
      of_char CHR ''X'' := Some Write_memory_binary, of_char CHR ''P'' := Some Write_register))"

definition run_handler :: "(nat \<Rightarrow> cenv) \<Rightarrow> gdb_handler \<Rightarrow> gdb \<Rightarrow> u8 list \<Rightarrow> (halt + gdb) option" where
  "run_handler Es h gdb data =
     (case h of
        Cont \<Rightarrow> cont Es gdb data
      | Kill_request \<Rightarrow> Some (kill_request gdb data)
      | Query \<Rightarrow> Some (query gdb data)
      | Read_general_registers \<Rightarrow> Some (read_general_registers gdb data)
      | Read_memory \<Rightarrow> Some (read_memory (Es 0) gdb data)
      | Read_register \<Rightarrow> Some (gdb_read_register gdb data)
      | Reason \<Rightarrow> Some (reason gdb data)
      | Set_thread \<Rightarrow> Some (set_thread gdb data)
      | Step \<Rightarrow> Some (gdb_step (Es 0) gdb data)
      | Write_general_registers \<Rightarrow> Some (write_general_registers (Es 0) gdb data)
      | Write_memory_binary \<Rightarrow> Some (write_memory_binary (Es 0) gdb data)
      | Write_register \<Rightarrow> Some (gdb_write_register (Es 0) gdb data))"

definition gdb_require_retransmission :: "gdb \<Rightarrow> gdb" where
  "gdb_require_retransmission gdb = rio_out gdb (ascii ''-'')"

definition gdb_packet_analysis :: "(nat \<Rightarrow> cenv) \<Rightarrow> gdb \<Rightarrow> u8 list \<Rightarrow> (halt + gdb) option" where
  "gdb_packet_analysis Es gdb packet =
     (let i = max 1 (length packet - 3);
          check = sum_list (take (length packet - 4) (drop 1 packet));
          given = (case scan_hex None (drop (i + 1) packet) of
                     None \<Rightarrow> uninit_val (Es 0) | Some (v, r) \<Rightarrow> v)
      in if ucast check = given then
           let gdb = gdb_send_ack gdb;
               packet = packet[i := 0]
           in case handler (packet ! 1) of
                Some h \<Rightarrow> run_handler Es h gdb (drop 2 packet)
              | None \<Rightarrow> Some (gdb_send_data gdb [])
         else Some (Inr (gdb_require_retransmission gdb)))"

end
