(* ===== verification/Gdb_Proofs.thy ===== *)
theory Gdb_Proofs
  imports Gdb_Protocol
begin

text \<open>
  What the gdb server does: the encodings of words, frames, registers and memory are inverse to each
  other, continuing stops at breakpoints, and no packet makes the server write outside the memory and
  register blocks.
\<close>

section \<open>Words on the wire\<close>

lemma length_hex2 [simp]: "length (hex2 b) = 2"
  by (simp add: hex2_def)

lemma byte_order_eq: "byte_order = [3, 2, 1, 0]"
  by (simp add: byte_order_def is_big_endian_host_def target_big_endian_def)

lemma length_write_uint32 [simp]: "length (write_uint32 v) = 8"
  by (simp add: write_uint32_def byte_order_eq)

lemma u8_u32_u8 [simp]: "ucast (ucast b :: u32) = b" for b :: u8
  by (rule bit_word_eqI) (simp add: bit_simps)

lemma read_turn_hex2:
  assumes "drop k packet = hex2 b @ rest"
  shows "read_turn E packet i (bytes, v, k) = (bytes(i := b), ucast b, k + 2)" "drop (k + 2) packet = rest"
proof -
  have "k \<le> length packet" using assms by (cases "k \<le> length packet") (auto simp: hex2_def)
  then show "read_turn E packet i (bytes, v, k) = (bytes(i := b), ucast b, k + 2)"
    by (simp add: read_turn_def scan_byte_def assms scan_hex2 Let_def)
  have "drop (k + 2) packet = drop 2 (drop k packet)" by (simp add: add.commute)
  then show "drop (k + 2) packet = rest" by (simp add: assms)
qed

lemma read_write_uint32:
  assumes "drop k packet = write_uint32 v @ rest"
  shows "read_uint32 E packet k = v"
proof -
  have "drop k packet = hex2 (ucast (drop_bit 24 v)) @ hex2 (ucast (drop_bit 16 v)) @ hex2 (ucast (drop_bit 8 v)) @
      hex2 (ucast v) @ rest"
    using assms by (simp add: write_uint32_def byte_order_eq)
  note a = read_turn_hex2 [OF this]
  note b = read_turn_hex2 [OF a(2)]
  note c = read_turn_hex2 [OF b(2)]
  show ?thesis
    by (simp only: read_uint32_def byte_order_eq fold_simps a(1) b(1) c(1) read_turn_hex2(1) [OF c(2)])
      (simp add: word_of_bytes)
qed

lemma cstr_plain: "0 \<notin> set s \<Longrightarrow> cstr s = s"
  by (auto simp: cstr_def)

lemma hex2_no_0: "0 \<notin> set (hex2 b)"
proof -
  obtain h l where hl: "hex2 b = [h, l]" by (simp add: hex2_def)
  then show ?thesis using hex2_chars [OF hl] hex_char_plain [of h] hex_char_plain [of l] by auto
qed

lemma write_uint32_no_0: "0 \<notin> set (write_uint32 v)"
  by (simp add: write_uint32_def byte_order_eq hex2_no_0)

lemma unat_ucast_u8: "unat (ucast x :: u32) = unat x" for x :: u8
proof -
  have "unat x < 256" using unsigned_less [where 'a = nat, of x] by simp
  then show ?thesis by (simp add: unsigned_ucast_eq take_bit_nat_eq_self)
qed

lemma ucast_u8_inj: "ucast x = (ucast y :: u32) \<longleftrightarrow> x = y" for x y :: u8
  using unat_ucast_u8 [of x] unat_ucast_u8 [of y] by (auto simp: word_unat_eq_iff)

section \<open>Output does not touch the processor\<close>

lemma arm_of_output [simp]:
  "gdb_arm (rio_out g b) = gdb_arm g" "gdb_arm (gdb_send_ack g) = gdb_arm g"
  "gdb_arm (gdb_transmit_packet g) = gdb_arm g" "gdb_arm (gdb_require_retransmission g) = gdb_arm g"
  by (simp_all add: gdb_send_ack_def gdb_transmit_packet_def gdb_require_retransmission_def rio_out_def)

lemma arm_of_sent:
  "then_send_buffer (set_buffer g d) = Inr g' \<Longrightarrow> gdb_arm g' = gdb_arm g"
  "gdb_send_data g d = Inr g' \<Longrightarrow> gdb_arm g' = gdb_arm g"
  by (auto simp: gdb_send_data_def then_send_buffer_def set_buffer_def gdb_send_buffer_def Let_def
      split: if_splits)

lemma arm_of_stop_reason: "gdb_send_stop_reason g = Inr g' \<Longrightarrow> gdb_arm g' = gdb_arm g"
  by (auto simp: gdb_send_stop_reason_def split: if_splits dest: arm_of_sent)

section \<open>Framing\<close>

definition frame :: "u8 list \<Rightarrow> u8 \<Rightarrow> u8 list" where
  "frame payload check = 36 # payload @ 35 # hex2 check"

lemma length_frame [simp]: "length (frame payload check) = length payload + 4"
  by (simp add: frame_def)

text \<open>A packet is sent and kept for a retransmission, if it fits in the array with its final zero.\<close>

definition sent_packet :: "gdb \<Rightarrow> u8 list \<Rightarrow> gdb" where
  "sent_packet g m = g\<lparr>gdb_packet := m, gdb_len := length m, gdb_out := gdb_out g @ [m]\<rparr>"

lemma sent_packet_simps [simp]:
  "gdb_arm (sent_packet g m) = gdb_arm g" "gdb_out (sent_packet g m) = gdb_out g @ [m]"
  "gdb_packet (sent_packet g m) = m" "gdb_len (sent_packet g m) = length m" "gdb_shut (sent_packet g m) = gdb_shut g"
  by (simp_all add: sent_packet_def)

lemma gdb_send_data_eq:
  assumes "0 \<notin> set data"
  shows "gdb_send_data gdb data =
     (if length data + 4 < MAX_PACKET_SIZE then Inr (sent_packet gdb (frame data (sum_list data))) else Inl Undefined)"
proof -
  have "tl (take 1 (gdb_packet gdb @ [0]) @ data) = data" by (cases "gdb_packet gdb") simp_all
  then show ?thesis using assms
    by (simp add: gdb_send_data_def then_send_buffer_def set_buffer_def gdb_send_buffer_def gdb_transmit_packet_def
        rio_out_def sent_packet_def Let_def cstr_plain frame_def ascii_def)
qed

lemma ascii_no_0 [simp]: "0 \<in> set (ascii s) \<longleftrightarrow> CHR 0x00 \<in> set s"
proof -
  have "of_char c = (0 :: u8) \<longleftrightarrow> c = CHR 0x00" for c
  proof -
    have "(of_char c :: nat) mod 256 < 256" by (rule mod_less_divisor) simp
    then have "\<not> (256 dvd (of_char c :: nat) \<and> 0 < (of_char c :: nat))"
      by (simp only: of_char_mod_256) (metis nat_dvd_not_less)
    then have "of_nat (of_char c) = (0 :: u8) \<longleftrightarrow> (of_char c :: nat) = 0"
      by (auto simp: word_of_nat_eq_0_iff simp del: of_nat_of_char)
    moreover have "(of_char c :: nat) = 0 \<longleftrightarrow> of_char c = (of_char CHR 0x00 :: nat)" by simp
    ultimately show ?thesis by (simp only: of_nat_of_char of_char_eq_iff)
  qed
  then show ?thesis by (force simp: ascii_def)
qed

text \<open>The literals the server sends all fit.\<close>

definition literal_reply :: "gdb \<Rightarrow> string \<Rightarrow> gdb" where
  "literal_reply gdb s = sent_packet gdb (frame (ascii s) (sum_list (ascii s)))"

lemma send_literal:
  "CHR 0x00 \<notin> set s \<Longrightarrow> length s < 1020 \<Longrightarrow> gdb_send_data gdb (ascii s) = Inr (literal_reply gdb s)"
  "gdb_send_data gdb [] = Inr (literal_reply gdb [])"
  by (simp_all add: gdb_send_data_eq literal_reply_def) (simp_all add: ascii_def)

lemma literal_reply_simps [simp]:
  "gdb_arm (literal_reply g s) = gdb_arm g" "gdb_shut (literal_reply g s) = gdb_shut g"
  "gdb_out (literal_reply g s) = gdb_out g @ [frame (ascii s) (sum_list (ascii s))]"
  by (simp_all add: literal_reply_def)

text \<open>The report of a stop, by the exception of the last step.\<close>

definition stop_reply :: "int \<Rightarrow> string" where
  "stop_reply e =
     (if e = UNDEFINED_INSTRUCTION then ''S04'' else if e = PREFETCH_ABORT \<or> e = DATA_ABORT then ''S10'' else ''S05'')"

lemma send_stop_reason: "gdb_send_stop_reason gdb = Inr (literal_reply gdb (stop_reply (target_exception gdb)))"
  by (simp add: gdb_send_stop_reason_def stop_reply_def send_literal)

lemma packet_analysis_frame:
  "gdb_packet_analysis Es gdb (frame (c # data) check) =
     (if check = sum_list (c # data) then
        case handler c of
          Some h \<Rightarrow> run_handler Es h (gdb_send_ack gdb) (data @ 0 # hex2 check)
        | None \<Rightarrow> Some (Inr (literal_reply (gdb_send_ack gdb) []))
      else Some (Inr (gdb_require_retransmission gdb)))"
proof -
  have "ucast (sum_list (c # data)) = (ucast check :: u32) \<longleftrightarrow> check = sum_list (c # data)"
    by (auto simp: ucast_u8_inj)
  then show ?thesis
    by (simp add: gdb_packet_analysis_def frame_def Let_def scan_hex2(2) list_update_append send_literal
        numeral_2_eq_2 split: option.split)
qed

section \<open>Register packets\<close>

lemma fold_write_registers:
  "fold (\<lambda>i p. arm_write_register p (of_nat i) (f i)) is p =
     p\<lparr>arm_reg := mode_regs.wr_all (map (\<lambda>i. (of_nat i, f i)) is) (arm_reg p)\<rparr>"
  by (induction "is" arbitrary: p) (simp_all add: arm_write_register_def)

lemma read_concat_words:
  assumes "i < length ws"
  shows "read_uint32 E (concat (map write_uint32 ws) @ rest) (8 * i) = ws ! i"
proof -
  have "\<exists>rest'. drop (8 * i) (concat (map write_uint32 ws) @ rest) = write_uint32 (ws ! i) @ rest'"
    using assms
  proof (induction ws arbitrary: i)
    case (Cons w ws)
    then show ?case by (cases i) simp_all
  qed simp
  then show ?thesis using read_write_uint32 by blast
qed

lemma length_concat_words: "length (concat (map write_uint32 ws)) = 8 * length ws"
  by (induction ws) simp_all

lemma distinct_register_numbers: "distinct (map (\<lambda>i. of_nat i :: u8) [0..<16])"
  by (auto simp: distinct_map inj_on_def of_nat_reg_inj)

definition register_packet :: "u32 list \<Rightarrow> u8 list \<Rightarrow> u32 \<Rightarrow> u8 list" where
  "register_packet ws unavailable cpsr = concat (map write_uint32 ws) @ unavailable @ write_uint32 cpsr"

lemma write_general_registers_state:
  assumes "length ws = 16" "length unavailable = 200"
  shows "write_general_registers E gdb (register_packet ws unavailable cpsr @ rest) =
     Inr (literal_reply (gdb\<lparr>gdb_arm := arm_write_cpsr ((gdb_arm gdb)\<lparr>arm_reg :=
        mode_regs.wr_all (map (\<lambda>i. (of_nat i, ws ! i)) [0..<16]) (arm_reg (gdb_arm gdb))\<rparr>) cpsr\<rparr>) ''OK'')"
proof -
  let ?d = "register_packet ws unavailable cpsr @ rest"
  have "read_uint32 E ?d (8 * i) = ws ! i" if "i < 16" for i
    using read_concat_words [of i ws E "unavailable @ write_uint32 cpsr @ rest"] that assms(1)
    by (simp add: register_packet_def)
  then have "fold (\<lambda>i p. arm_write_register p (of_nat i) (read_uint32 E ?d (8 * i))) [0..<16] p =
      fold (\<lambda>i p. arm_write_register p (of_nat i) (ws ! i)) [0..<16] p" for p
    by (intro fold_cong) auto
  moreover have "read_uint32 E ?d 328 = cpsr"
    using assms by (intro read_write_uint32) (simp add: register_packet_def length_concat_words)
  ultimately show ?thesis
    by (simp add: write_general_registers_def fold_write_registers Let_def send_literal)
qed

lemma concat_words_split:
  assumes "length ws = 16" "\<And>i. i < 15 \<Longrightarrow> f i = ws ! i"
  shows "concat (map write_uint32 ws) =
    concat (map (\<lambda>i. write_uint32 (f i)) [0..<15]) @ write_uint32 (ws ! 15)"
proof -
  have "[0..<16] = [0..<15] @ [15 :: nat]" using upt_Suc [of 0 15] by simp
  then have "ws = map ((!) ws) [0..<15] @ [ws ! 15]"
    using assms(1) map_nth [of ws] by simp
  also have "map ((!) ws) [0..<15] = map f [0..<15]" using assms(2) by simp
  finally have "map write_uint32 ws = map write_uint32 (map f [0..<15] @ [ws ! 15])" by (rule arg_cong)
  then show ?thesis by (simp add: comp_def)
qed

lemma register_packet_no_0: "0 \<notin> set (register_packet ws (concat (replicate n (ascii ''xxxxxxxx''))) cpsr)"
  by (simp add: register_packet_def write_uint32_no_0 ascii_def)

lemma length_register_packet:
  "length (register_packet ws (concat (replicate n (ascii ''xxxxxxxx''))) cpsr) = 8 * length ws + 8 * n + 8"
proof -
  have "length (concat (replicate n (ascii ''xxxxxxxx''))) = 8 * n" by (induction n) (simp_all add: ascii_def)
  then show ?thesis by (simp add: register_packet_def length_concat_words)
qed

lemma read_general_registers_reply:
  assumes "length ws = 16" "\<And>i. i < 15 \<Longrightarrow> arm_read_register (gdb_arm g) (of_nat i) = ws ! i"
    and "arm_read_register (gdb_arm g) 15 - 4 = ws ! 15"
  shows "read_general_registers g data =
     (let reply = register_packet ws (concat (replicate 25 (ascii ''xxxxxxxx''))) (arm_read_cpsr (gdb_arm g))
      in Inr (sent_packet g (frame reply (sum_list reply))))"
proof -
  note ws = concat_words_split [OF assms(1,2)]
  have "replicate 25 x = replicate 24 x @ [x]" for x :: "u8 list"
    using replicate_append_same [of 24 x] replicate_Suc [of 24 x] by simp
  then have "read_general_registers g data =
      gdb_send_data g (register_packet ws (concat (replicate 25 (ascii ''xxxxxxxx''))) (arm_read_cpsr (gdb_arm g)))"
    unfolding read_general_registers_def Let_def assms(3)
    by (simp add: gdb_send_data_def register_packet_def ws)
  also have "\<dots> = Inr (sent_packet g (frame reply (sum_list reply)))"
    if "reply = register_packet ws (concat (replicate 25 (ascii ''xxxxxxxx''))) (arm_read_cpsr (gdb_arm g))" for reply
    unfolding that
    by (subst gdb_send_data_eq [OF register_packet_no_0]) (simp add: length_register_packet assms(1))
  finally show ?thesis by (simp add: Let_def)
qed

lemma index_after_le: "index_after s c = Some k \<Longrightarrow> k \<le> length s"
proof -
  assume "index_after s c = Some k"
  then have "k \<le> length (cstr s)" by (auto simp: index_after_def Let_def split: if_splits)
  also have "\<dots> \<le> length s" by (simp add: cstr_def length_takeWhile_le)
  finally show ?thesis .
qed

section \<open>Memory packets\<close>

definition escape :: "(u8 \<Rightarrow> bool) \<Rightarrow> u8 list \<Rightarrow> u8 list" where
  "escape P bs = concat (map (\<lambda>b. if b = 0x7d \<or> P b then [0x7d, b XOR 0x20] else [b]) bs)"

definition bytes_fit :: "memory \<Rightarrow> u32 \<Rightarrow> nat \<Rightarrow> bool" where
  "bytes_fit mem a n \<longleftrightarrow> unat a + n \<le> unat (mem_size mem) \<and> unat a + n \<le> 4294967296"

definition holds_bytes :: "memory \<Rightarrow> u32 \<Rightarrow> u8 list \<Rightarrow> bool" where
  "holds_bytes mem a bs \<longleftrightarrow> (\<forall>i. i < length bs \<longrightarrow> mem_m mem (a + of_nat i) = bs ! i)"

lemma bytes_fit_Suc:
  assumes "bytes_fit mem a (Suc n)"
  shows "in_block mem a" "bytes_fit mem (a + 1) n"
proof -
  show "in_block mem a" using assms by (simp add: bytes_fit_def in_block_def)
  have plus: "unat (a + 1) = (unat a + 1) mod 4294967296" by (simp add: unat_word_ariths)
  show "bytes_fit mem (a + 1) n"
  proof (cases "unat a + 1 = 4294967296")
    case True
    with assms plus show ?thesis by (simp add: bytes_fit_def)
  next
    case False
    with assms have "unat a + 1 < 4294967296" by (simp add: bytes_fit_def)
    with assms plus show ?thesis by (simp add: bytes_fit_def)
  qed
qed

lemma span_Suc: "span a (Suc n) = insert a (span (a + 1) n)"
  by (auto simp: span_def lessThan_Suc_eq_insert_0 image_image algebra_simps)

lemma not_in_later_span: "bytes_fit mem a (Suc n) \<Longrightarrow> a \<notin> span (a + 1) n"
proof
  assume fit: "bytes_fit mem a (Suc n)" and "a \<in> span (a + 1) n"
  then obtain k where k: "k < n" "a = a + 1 + of_nat k" by (auto simp: span_def)
  then have "of_nat (Suc k) = (0 :: u32)" by (simp add: algebra_simps)
  moreover have "Suc k < 4294967296" using fit k(1) by (simp add: bytes_fit_def)
  ultimately show False by (simp add: word_unat_eq_iff unsigned_of_nat take_bit_nat_eq_self
      del: of_nat_Suc)
qed

lemma char_at_append:
  "char_at E (pre @ c # rest) (length pre) = c"
  "char_at E (pre @ c # d # rest) (Suc (length pre)) = d"
  by (simp_all add: char_at_def nth_append)

lemma write_memory_loop_escaped:
  "data = pre @ escape P bs @ post \<Longrightarrow> bytes_fit mem a (length bs) \<Longrightarrow>
   \<exists>mem'. write_memory_loop E data (length bs) True mem a (length pre) = (True, mem') \<and>
     mem_size mem' = mem_size mem \<and> is_big_endian_mem mem' = is_big_endian_mem mem \<and>
     holds_bytes mem' a bs \<and> (\<forall>b. b \<notin> span a (length bs) \<longrightarrow> mem_m mem' b = mem_m mem b)"
proof (induction bs arbitrary: pre mem a)
  case Nil
  then show ?case by (simp add: holds_bytes_def)
next
  case (Cons b bs)
  define enc where "enc = (if b = 0x7d \<or> P b then [0x7d, b XOR 0x20] else [b])"
  let ?mem = "mem\<lparr>mem_m := (mem_m mem)(a := b)\<rparr>"
  note fit = bytes_fit_Suc [OF Cons.prems(2) [simplified]]
  have data: "data = pre @ enc @ escape P bs @ post" "data = (pre @ enc) @ escape P bs @ post"
    using Cons.prems(1) by (simp_all add: enc_def escape_def)
  have "(b XOR 0x20) XOR 0x20 = b" by (simp add: xor.assoc)
  then have turn: "write_memory_loop E data (length (b # bs)) True mem a (length pre) =
      write_memory_loop E data (length bs) True ?mem (a + 1) (length (pre @ enc))"
    using fit(1) unfolding data(1)
    by (auto simp: enc_def char_at_append memory_write_byte_def valid_address_iff)
  have "bytes_fit ?mem (a + 1) (length bs)" using fit(2) by (simp add: bytes_fit_def)
  from Cons.IH [OF data(2) this] obtain mem' where mem':
    "write_memory_loop E data (length bs) True ?mem (a + 1) (length (pre @ enc)) = (True, mem')"
    "mem_size mem' = mem_size mem" "is_big_endian_mem mem' = is_big_endian_mem mem"
    "holds_bytes mem' (a + 1) bs"
    "\<And>x. x \<notin> span (a + 1) (length bs) \<Longrightarrow> mem_m mem' x = ((mem_m mem)(a := b)) x"
    by auto
  have first: "mem_m mem' a = b"
    using mem'(5) [OF not_in_later_span [OF Cons.prems(2) [simplified]]] by simp
  have "holds_bytes mem' a (b # bs)"
    unfolding holds_bytes_def
  proof (intro allI impI)
    fix i
    assume "i < length (b # bs)"
    then show "mem_m mem' (a + of_nat i) = (b # bs) ! i"
      using mem'(4) first by (cases i) (auto simp: holds_bytes_def algebra_simps)
  qed
  moreover have "mem_m mem' x = mem_m mem x" if "x \<notin> span a (length (b # bs))" for x
    using that mem'(5) [of x] by (simp add: span_Suc)
  ultimately show ?case
    unfolding turn mem'(1) using mem'(2,3) by blast
qed

lemma read_memory_holds:
  "holds_bytes mem a bs \<Longrightarrow> bytes_fit mem a (length bs) \<Longrightarrow>
   read_memory_loop mem a v (length bs) = concat (map hex2 bs)"
proof (induction bs arbitrary: a v)
  case (Cons b bs)
  note fit = bytes_fit_Suc [OF Cons.prems(2) [simplified]]
  have "mem_m mem a = b" using Cons.prems(1) by (auto simp: holds_bytes_def dest: spec [of _ 0])
  moreover have "holds_bytes mem (a + 1) bs"
    unfolding holds_bytes_def
  proof (intro allI impI)
    fix i assume "i < length bs"
    then show "mem_m mem (a + 1 + of_nat i) = bs ! i"
      using Cons.prems(1) [unfolded holds_bytes_def, rule_format, of "Suc i"] by (simp add: algebra_simps)
  qed
  ultimately show ?case
    using Cons.IH fit by (simp add: memory_read_byte_def valid_address_iff)
qed simp

lemma length_read_memory_loop: "length (read_memory_loop mem a v n) = 2 * n"
proof (induction n arbitrary: a v)
  case (Suc n)
  then show ?case
    using byte_access.rd_status [of mem a v] by (auto simp: case_prod_beta hex2_def split: if_splits)
qed simp

text \<open>The number of a register in a \<open>p\<close> packet is read as decimal: a hexadecimal letter means register 0.\<close>

lemma read_register_hex_letter:
  "c \<in> set (ascii ''abcdef'') \<Longrightarrow>
   gdb_read_register gdb (c # 0 # rest) = gdb_read_register gdb (ascii ''0'' @ 0 # rest)"
  by (auto simp: gdb_read_register_def atoi_def cstr_def ascii_def is_space_def scan_sign_def
      number_of_def hex_val_def)

section \<open>Continuing\<close>

primrec run :: "(nat \<Rightarrow> cenv) \<Rightarrow> nat \<Rightarrow> int \<times> arm_core \<Rightarrow> halt + int \<times> arm_core" where
  "run Es 0 x = Inr x"
| "run Es (Suc n) x = (case arm_step (Es 0) (snd x) of Inl h \<Rightarrow> Inl h | Inr y \<Rightarrow> run (\<lambda>k. Es (Suc k)) n y)"

definition next_address :: "arm_core \<Rightarrow> u32" where
  "next_address p = arm_read_register p 15 - 4"

definition at_breakpoint :: "arm_core \<Rightarrow> bool" where
  "at_breakpoint p \<longleftrightarrow> snd (memory_read_word (arm_mem p) (next_address p) 0) AND 0xFFF000F0 = 0xE7F000F0"

lemma cont_loop_turn:
  assumes "in_block (arm_mem (gdb_arm gdb)) (next_address (gdb_arm gdb))"
  shows "at_breakpoint (gdb_arm gdb) \<Longrightarrow> cont_loop Es ins gdb = Some (Inr gdb)"
    "\<not> at_breakpoint (gdb_arm gdb) \<Longrightarrow> cont_loop Es ins gdb =
       (case arm_step (Es 0) (gdb_arm gdb) of
          Inl h \<Rightarrow> Some (Inl h)
        | Inr x \<Rightarrow> cont_loop (\<lambda>n. Es (Suc n)) (snd (memory_read_word (arm_mem (gdb_arm gdb)) (next_address (gdb_arm gdb)) 0))
                     (gdb\<lparr>gdb_arm := snd x, target_exception := fst x\<rparr>))"
  unfolding cont_loop.simps [of Es ins gdb] Let_def arm_read_word_def next_address_def [symmetric]
    read_word_any_old [OF assms, of ins] at_breakpoint_def
  by (rule if_P, assumption) (rule if_not_P, assumption)

lemma cont_loop_reaches:
  assumes "run Es n (target_exception gdb, gdb_arm gdb) = Inr (e, p)" "at_breakpoint p"
    and "\<And>k e' p'. k \<le> n \<Longrightarrow> run Es k (target_exception gdb, gdb_arm gdb) = Inr (e', p') \<Longrightarrow>
           in_block (arm_mem p') (next_address p') \<and> (k < n \<longrightarrow> \<not> at_breakpoint p')"
  shows "cont_loop Es ins gdb = Some (Inr (gdb\<lparr>gdb_arm := p, target_exception := e\<rparr>))"
  using assms
proof (induction n arbitrary: Es ins gdb)
  case 0
  then show ?case using 0(3) [of 0] by (simp add: cont_loop_turn)
next
  case (Suc n)
  have here: "in_block (arm_mem (gdb_arm gdb)) (next_address (gdb_arm gdb))" "\<not> at_breakpoint (gdb_arm gdb)"
    using Suc.prems(3) [of 0] by auto
  obtain x where x: "arm_step (Es 0) (gdb_arm gdb) = Inr x"
    using Suc.prems(1) by (auto split: sum.splits)
  let ?g = "gdb\<lparr>gdb_arm := snd x, target_exception := fst x\<rparr>"
  have "cont_loop (\<lambda>n. Es (Suc n)) i ?g = Some (Inr (?g\<lparr>gdb_arm := p, target_exception := e\<rparr>))" for i
  proof (rule Suc.IH)
    show "run (\<lambda>k. Es (Suc k)) n (target_exception ?g, gdb_arm ?g) = Inr (e, p)"
      using Suc.prems(1) x by simp
    show "in_block (arm_mem p') (next_address p') \<and> (k < n \<longrightarrow> \<not> at_breakpoint p')"
      if "k \<le> n" "run (\<lambda>k. Es (Suc k)) k (target_exception ?g, gdb_arm ?g) = Inr (e', p')" for k e' p'
      using Suc.prems(3) [of "Suc k" e' p'] that x by simp
  qed (rule Suc.prems(2))
  then show ?case using here x by (simp add: cont_loop_turn)
qed

section \<open>Confinement\<close>

lemma confined_cont_loop:
  assumes "cont_loop Es ins gdb = Some (Inr gdb')"
  shows "confined (gdb_arm gdb) (gdb_arm gdb')"
proof -
  have "\<forall>g'. y = Inr g' \<longrightarrow> confined (gdb_arm gdb) (gdb_arm g')" if "cont_loop Es ins gdb = Some y" for y
  proof (rule cont_loop.raw_induct [of "\<lambda>Es ins gdb y. \<forall>g'. y = Inr g' \<longrightarrow> confined (gdb_arm gdb) (gdb_arm g')",
        OF _ that], goal_cases)
    case (1 loop Es ins gdb y)
    note ind = 1
    show ?case
    proof (cases "arm_step (Es 0) (gdb_arm gdb)")
      case (Inl h)
      with ind(2) show ?thesis by (auto simp: Let_def split: if_splits)
    next
      case (Inr x)
      have "confined (gdb_arm gdb) (snd x)" using confined_step [of "Es 0" "gdb_arm gdb"] Inr by (cases x) auto
      with ind(2) Inr show ?thesis
        by (fastforce simp: Let_def split: if_splits dest!: ind(1) intro: confined_trans)
    qed
  qed
  with assms show ?thesis by blast
qed

lemma confined_write_memory_loop:
  "confined p (q\<lparr>arm_mem := mem\<rparr>) \<Longrightarrow>
   confined p (q\<lparr>arm_mem := snd (write_memory_loop E data n ok mem a k)\<rparr>)"
proof (induction n arbitrary: ok mem a k)
  case (Suc n)
  have "confined p (q\<lparr>arm_mem := snd (memory_write_byte mem a' v)\<rparr>)" for a' v
    using confined_after(5) [OF Suc.prems, of a' v] by (simp add: arm_write_byte_def case_prod_beta)
  then show ?case using Suc by (simp add: case_prod_beta)
qed simp

lemma confined_fold_registers:
  "confined p q \<Longrightarrow> (\<And>i. i \<in> set is \<Longrightarrow> i < 16) \<Longrightarrow>
   confined p (fold (\<lambda>i p. arm_write_register p (of_nat i) (f i)) is q)"
  by (induction "is" arbitrary: q) (simp_all add: of_nat_reg)

lemma ucast_reg: "r < 16 \<Longrightarrow> (ucast r :: u8) < 16" for r :: u32
  by (simp add: word_less_nat_alt unat_ucast_8)

lemma confined_run_handler:
  assumes "run_handler Es h gdb data = Some (Inr gdb')"
  shows "confined (gdb_arm gdb) (gdb_arm gdb')"
proof (cases h)
  case Cont
  then show ?thesis using assms
    by (auto simp: run_handler_def cont_def split: option.splits sum.splits dest: confined_cont_loop dest!: arm_of_stop_reason)
next
  case Step
  then show ?thesis using assms
    by (auto simp: run_handler_def gdb_step_def split: sum.splits prod.splits dest: confined_step dest!: arm_of_stop_reason)
next
  case Write_general_registers
  have "confined p (fold (\<lambda>i p. arm_write_register p (of_nat i) (f i)) [0..<16] p)" for p f
    by (rule confined_fold_registers) auto
  with Write_general_registers show ?thesis using assms
    by (auto simp: run_handler_def write_general_registers_def Let_def dest!: arm_of_sent)
next
  case Write_memory_binary
  then show ?thesis using assms
    by (auto simp: run_handler_def write_memory_binary_def Let_def case_prod_beta confined_write_memory_loop
        split: option.splits if_splits dest!: arm_of_sent)
next
  case Write_register
  then show ?thesis using assms
    by (auto simp: run_handler_def gdb_write_register_def Let_def ucast_reg split: option.splits if_splits dest!: arm_of_sent)
qed (use assms in \<open>auto simp: run_handler_def kill_request_def query_def read_general_registers_def
      read_memory_def gdb_read_register_def reason_def set_thread_def Let_def case_prod_beta
    split: if_splits dest!: arm_of_sent arm_of_stop_reason\<close>)

lemma confined_packet_analysis:
  "gdb_packet_analysis Es gdb packet = Some (Inr gdb') \<Longrightarrow> confined (gdb_arm gdb) (gdb_arm gdb')"
  by (auto simp: gdb_packet_analysis_def Let_def split: if_splits option.splits dest!: confined_run_handler arm_of_sent)

section \<open>Properties\<close>

text \<open>
  C32: framing. What the server sends for an answer, when it fits in the packet array, is a frame that the packet analysis accepts: it
  acknowledges it and runs the handler of its first byte on the rest, or answers with an empty
  packet when there is none. With any other checksum it only asks for a retransmission.
\<close>

theorem framing_roundtrip:
  assumes "0 \<notin> set (c # data)" "gdb_send_data gdb (c # data) = Inr gdb'" "gdb_out gdb' = gdb_out gdb @ [packet]"
    and "check \<noteq> sum_list (c # data)"
  shows "gdb_packet_analysis Es other packet =
           (case handler c of
              Some h \<Rightarrow> run_handler Es h (gdb_send_ack other) (data @ 0 # hex2 (sum_list (c # data)))
            | None \<Rightarrow> Some (gdb_send_data (gdb_send_ack other) [])) \<and>
         gdb_packet_analysis Es other (take (length packet - 2) packet @ hex2 check) =
           Some (Inr (other\<lparr>gdb_out := gdb_out other @ [ascii ''-'']\<rparr>))"
proof -
  have packet: "packet = frame (c # data) (sum_list (c # data))"
    using assms(2,3) gdb_send_data_eq [OF assms(1), of gdb] by (auto split: if_splits)
  have cut: "take (length (A @ hex2 x) - 2) (A @ hex2 x) = A" for A x by simp
  have f: "frame (c # data) x = (36 # c # data @ [35]) @ hex2 x" for x by (simp add: frame_def)
  have "take (length packet - 2) packet @ hex2 check = frame (c # data) check"
    unfolding packet f cut ..
  then show ?thesis
    unfolding packet using assms(4)
    by (simp only: packet_analysis_frame) (simp add: gdb_require_retransmission_def rio_out_def send_literal split: option.split)
qed

theorem framing_roundtrip_witness:
  "let g = gdb_init_data \<lparr>cycle_count = 0, arm_reg = \<lambda>_. 0, arm_mem = memory_create (\<lambda>_. 0) 16 True\<rparr> []
   in \<exists>g' packet. gdb_send_data g [107] = Inr g' \<and> gdb_out g' = gdb_out g @ [packet] \<and>
        gdb_packet_analysis (\<lambda>_. x86_env 0) g packet = Some (Inr ((gdb_send_ack g)\<lparr>gdb_shut := True\<rparr>))"
proof -
  let ?g = "gdb_init_data \<lparr>cycle_count = 0, arm_reg = \<lambda>_. 0, arm_mem = memory_create (\<lambda>_. 0) 16 True\<rparr> []"
  have h: "0 \<notin> set [107 :: u8]" "(0 :: u8) \<noteq> sum_list [107]" by simp_all
  obtain g' packet where out: "gdb_send_data ?g [107] = Inr g'" "gdb_out g' = gdb_out ?g @ [packet]"
    by (simp add: gdb_send_data_eq)
  have "handler 107 = Some Kill_request" by (simp add: handler_def)
  then show ?thesis
    using framing_roundtrip [OF h(1) out h(2), of "\<lambda>_. x86_env 0" ?g] out
    by (auto simp: run_handler_def kill_request_def)
qed

text \<open>
  C30: the register packets. Values written with a \<open>G\<close> packet are the
  registers r0 to r14, the program counter and the status word afterwards, and the next \<open>g\<close> packet
  answers with exactly these values, in the same encoding, provided that the new status word has the mode the processor is in and that
  bit 1 of the new program counter is clear. (With another mode r13 and r14 go to the registers of the old one, and the bit is masked
  in the answer.)
\<close>

theorem registers_roundtrip:
  assumes "length ws = 16" "length unavailable = 200" "\<not> bit (ws ! 15) 1"
    and "cpsr AND 0x1F = arm_read_cpsr (gdb_arm gdb) AND 0x1F"
    and "write_general_registers E gdb (register_packet ws unavailable cpsr @ rest) = Inr g1"
    and "read_general_registers g1 data = Inr g2"
  shows "(\<forall>i. i < 15 \<longrightarrow> arm_read_register (gdb_arm g1) (of_nat i) = ws ! i) \<and>
         read_register (arm_reg (gdb_arm g1)) 15 = ws ! 15 \<and> arm_read_cpsr (gdb_arm g1) = cpsr \<and>
         (let reply = register_packet ws (concat (replicate 25 (ascii ''xxxxxxxx''))) cpsr
          in gdb_out g2 = gdb_out g1 @ [frame reply (sum_list reply)])"
proof -
  let ?xs = "map (\<lambda>i. (of_nat i :: u8, ws ! i)) [0..<16]"
  let ?p = "gdb_arm gdb"
  let ?r = "mode_regs.wr_all ?xs (arm_reg ?p)"
  have arm1: "gdb_arm g1 = arm_write_cpsr (?p\<lparr>arm_reg := ?r\<rparr>) cpsr"
    using assms(5) unfolding write_general_registers_state [OF assms(1,2)] by auto
  have d: "distinct (map fst ?xs)" and b: "reg \<in> fst ` set ?xs \<Longrightarrow> reg < 16" for reg
    using distinct_register_numbers by (auto simp: comp_def of_nat_reg)
  have m: "(of_nat i, ws ! i) \<in> set ?xs" if "i < 16" for i using that by auto
  have mode: "cpsr AND 0x1F = read_cpsr ?r AND 0x1F"
    using assms(4) mode_regs.wr_all_cpsr [of ?xs "arm_reg ?p"] b by (simp add: arm_read_cpsr_def read_cpsr_def)
  have reg: "read_register (arm_reg (gdb_arm g1)) (of_nat i) = ws ! i" if "i < 16" for i
    using mode_regs.rd_wr_all [OF d b m [OF that]] that
    by (simp add: arm1 read_register_same_mode [OF _ mode] of_nat_reg)
  have low: "arm_read_register (gdb_arm g1) (of_nat i) = ws ! i" if "i < 15" for i
    using reg [of i] that of_nat_reg_inj [of i 15] by (simp add: arm_read_register_other)
  have pc: "read_register (arm_reg (gdb_arm g1)) 15 = ws ! 15" using reg [of 15] by simp
  then have pc4: "arm_read_register (gdb_arm g1) 15 - 4 = ws ! 15"
    using assms(3) by (simp add: arm_read_pc)
  have cp: "arm_read_cpsr (gdb_arm g1) = cpsr" by (simp add: arm1)
  let ?reply = "register_packet ws (concat (replicate 25 (ascii ''xxxxxxxx''))) cpsr"
  have "g2 = sent_packet g1 (frame ?reply (sum_list ?reply))"
    using assms(6) read_general_registers_reply [OF assms(1) low pc4, of data] by (simp add: cp Let_def)
  then show ?thesis using low pc cp by (simp add: Let_def)
qed

theorem registers_roundtrip_witness:
  "let g = gdb_init_data \<lparr>cycle_count = 0, arm_reg = (\<lambda>_. 0)(16 := 0x13), arm_mem = memory_create (\<lambda>_. 0) 16 True\<rparr> [];
       ws = map (\<lambda>i. of_nat (4 * i)) [0..<16]
   in \<exists>g1. write_general_registers (x86_env 0) g (register_packet ws (replicate 200 120) 0x80000013 @ [0]) = Inr g1 \<and>
        arm_read_register (gdb_arm g1) (of_nat 7) = 28"
proof -
  let ?g = "gdb_init_data \<lparr>cycle_count = 0, arm_reg = (\<lambda>_. 0)(16 := 0x13), arm_mem = memory_create (\<lambda>_. 0) 16 True\<rparr> []"
  let ?ws = "map (\<lambda>i. of_nat (4 * i)) [0..<16] :: u32 list"
  have h: "length ?ws = 16" "length (replicate 200 (120 :: u8)) = 200" "\<not> bit (?ws ! 15) 1" by simp_all
  have m: "(0x80000013 :: u32) AND 0x1F = arm_read_cpsr (gdb_arm ?g) AND 0x1F" by code_simp
  obtain g1 where g1: "write_general_registers (x86_env 0) ?g
      (register_packet ?ws (replicate 200 120) 0x80000013 @ [0]) = Inr g1"
    using write_general_registers_state [OF h(1,2)] by blast
  obtain g2 where g2: "read_general_registers g1 [] = Inr g2"
    using read_general_registers_reply [of "map (\<lambda>i. if i < 15 then arm_read_register (gdb_arm g1) (of_nat i)
      else arm_read_register (gdb_arm g1) 15 - 4) [0..<16]" g1 "[]"]
    by (simp add: Let_def del: upt_conv_Cons upt_rec_numeral)
  have "arm_read_register (gdb_arm g1) (of_nat 7) = ?ws ! 7"
    using conjunct1 [OF registers_roundtrip [OF h m g1 g2], rule_format, of 7] by simp
  then show ?thesis using g1 by simp
qed

text \<open>
  C31: the memory packets. An \<open>X\<close> packet with binary content, escaped as the protocol asks, stores
  exactly the bytes it encodes at the addresses it names and nothing elsewhere, and answers \<open>OK\<close>;
  an \<open>m\<close> packet for the same range then answers with these bytes in hexadecimal. The range has at most 509 bytes: as many
  as fit in the packet array.
\<close>

theorem memory_packets_roundtrip:
  assumes "scan_hex_pair data (uninit_val E) (uninit_val E) = (address, sz)" "unat sz = length bs" "bs \<noteq> []"
    and "length bs \<le> 509"
    and "index_after data (of_char CHR '':'') = Some k" "drop k data = escape P bs @ rest"
    and "bytes_fit (arm_mem (gdb_arm gdb)) address (length bs)"
    and "scan_hex_pair data' (uninit_val E') (uninit_val E') = (address, sz)"
  shows "\<exists>g1 g2. write_memory_binary E gdb data = Inr g1 \<and> read_memory E' g1 data' = Inr g2 \<and>
         gdb_out g1 = gdb_out gdb @ [frame (ascii ''OK'') (sum_list (ascii ''OK''))] \<and>
         holds_bytes (arm_mem (gdb_arm g1)) address bs \<and>
         (\<forall>b. b \<notin> span address (length bs) \<longrightarrow> mem_m (arm_mem (gdb_arm g1)) b = mem_m (arm_mem (gdb_arm gdb)) b) \<and>
         arm_reg (gdb_arm g1) = arm_reg (gdb_arm gdb) \<and>
         gdb_out g2 = gdb_out g1 @ [frame (concat (map hex2 bs)) (sum_list (concat (map hex2 bs)))]"
proof -
  let ?mem = "arm_mem (gdb_arm gdb)"
  have k: "length (take k data) = k" using assms(5) index_after_le by fastforce
  have data: "data = take k data @ escape P bs @ rest" using assms(6) by (metis append_take_drop_id)
  from write_memory_loop_escaped [OF data assms(7), of E] obtain mem' where mem':
    "write_memory_loop E data (length bs) True ?mem address k = (True, mem')"
    "mem_size mem' = mem_size ?mem" "holds_bytes mem' address bs"
    "\<forall>b. b \<notin> span address (length bs) \<longrightarrow> mem_m mem' b = mem_m ?mem b"
    unfolding k by blast
  have "in_block ?mem address" using assms(3,7) by (cases bs) (auto dest: bytes_fit_Suc)
  then have ok: "ucast address < memory_get_size ?mem"
    using valid_address_iff [of ?mem address] by (simp add: is_not_valid_address_def)
  let ?g1 = "literal_reply (gdb\<lparr>gdb_arm := (gdb_arm gdb)\<lparr>arm_mem := mem'\<rparr>\<rparr>) ''OK''" and ?reply = "concat (map hex2 bs)"
  have "write_memory_binary E gdb data = Inr ?g1"
    by (simp add: write_memory_binary_def assms(1,2) assms(5) [simplified] ok mem'(1) send_literal Let_def)
  moreover have "read_memory_loop mem' address v (length bs) = ?reply" for v
    using mem'(2,3) assms(7) by (intro read_memory_holds) (simp_all add: bytes_fit_def)
  then have "read_memory E' ?g1 data' = gdb_send_data ?g1 ?reply"
    by (simp add: read_memory_def assms(2,8) gdb_send_data_def)
  moreover have "0 \<notin> set ?reply" "length ?reply + 4 < MAX_PACKET_SIZE"
    using hex2_no_0 assms(4) by (auto simp: length_concat comp_def sum_list_triv)
  then have "gdb_send_data ?g1 ?reply = Inr (sent_packet ?g1 (frame ?reply (sum_list ?reply)))"
    by (simp add: gdb_send_data_eq)
  ultimately show ?thesis
    using mem'(3,4) by (intro exI [of _ ?g1] exI [of _ "sent_packet ?g1 (frame ?reply (sum_list ?reply))"]) simp
qed

theorem memory_packets_roundtrip_witness:
  "let g = gdb_init_data \<lparr>cycle_count = 0, arm_reg = (\<lambda>_. 0), arm_mem = memory_create (\<lambda>_. 0) 16 True\<rparr> []
   in \<exists>g1. write_memory_binary (x86_env 0) g (ascii ''8,2:'' @ [0x7d, 0x5d, 0x41, 0]) = Inr g1 \<and>
        holds_bytes (arm_mem (gdb_arm g1)) 8 [0x7d, 0x41]"
proof -
  let ?g = "gdb_init_data \<lparr>cycle_count = 0, arm_reg = (\<lambda>_. 0), arm_mem = memory_create (\<lambda>_. 0) 16 True\<rparr> []"
  let ?d = "ascii ''8,2:'' @ [0x7d, 0x5d, 0x41, 0]"
  have v: "scan_hex_pair ?d (uninit_val (x86_env 0)) (uninit_val (x86_env 0)) = (8, 2)"
    "unat (2 :: u32) = length [0x7d :: u8, 0x41]" "[0x7d :: u8, 0x41] \<noteq> []" "length [0x7d :: u8, 0x41] \<le> 509"
    "index_after ?d (of_char CHR '':'') = Some 4"
    "drop 4 ?d = escape (\<lambda>_. False) [0x7d, 0x41] @ [0]"
    by code_simp+
  have f: "bytes_fit (arm_mem (gdb_arm ?g)) 8 (length [0x7d :: u8, 0x41])"
    by (simp add: bytes_fit_def gdb_init_data_def memory_create_def)
  show ?thesis using memory_packets_roundtrip [OF v f v(1)] by auto
qed

text \<open>
  C29: continuing. If the program reaches an instruction with the pattern of a breakpoint after some
  number of steps, executing only words of the memory on the way, then the \<open>c\<close> packet returns: it stops
  there before the breakpoint is executed, and reports the outcome of the last step in the answer \<open>stop_reply\<close>.
\<close>

theorem continue_to_breakpoint:
  assumes "run Es n (target_exception gdb, gdb_arm gdb) = Inr (e, p)" "at_breakpoint p"
    and "\<And>k e' p'. k \<le> n \<Longrightarrow> run Es k (target_exception gdb, gdb_arm gdb) = Inr (e', p') \<Longrightarrow>
           in_block (arm_mem p') (next_address p') \<and> (k < n \<longrightarrow> \<not> at_breakpoint p')"
  shows "cont Es gdb data = Some (Inr (literal_reply (gdb\<lparr>gdb_arm := p, target_exception := e\<rparr>) (stop_reply e)))"
  using cont_loop_reaches [OF assms] by (simp add: cont_def send_stop_reason)

theorem continue_to_breakpoint_witness:
  "let g = gdb_init_data \<lparr>cycle_count = 0, arm_reg = (\<lambda>_. 0)(16 := 0x13),
             arm_mem = memory_create ((\<lambda>_. 0)(0 := 0xE7, 1 := 0xF1, 3 := 0xF0)) 16 True\<rparr> []
   in cont (\<lambda>_. x86_env 0) g [] = Some (Inr (literal_reply g ''S05''))"
proof -
  let ?g = "gdb_init_data \<lparr>cycle_count = 0, arm_reg = (\<lambda>_. 0)(16 := 0x13),
             arm_mem = memory_create ((\<lambda>_. 0)(0 := 0xE7, 1 := 0xF1, 3 := 0xF0)) 16 True\<rparr> []"
  have a: "next_address (gdb_arm ?g) = 0" by code_simp
  have b: "at_breakpoint (gdb_arm ?g)" by code_simp
  have "in_block (arm_mem (gdb_arm ?g)) 0" by (simp add: in_block_def gdb_init_data_def memory_create_def)
  then have "cont (\<lambda>_. x86_env 0) ?g [] =
      Some (Inr (literal_reply (?g\<lparr>gdb_arm := gdb_arm ?g, target_exception := target_exception ?g\<rparr>)
        (stop_reply (target_exception ?g))))"
    using a b by (intro continue_to_breakpoint [where n = 0]) auto
  then show ?thesis by (simp add: stop_reply_def gdb_init_data_def)
qed

end
