(* ===== verification/Scanner.thy ===== *)
theory Scanner
  imports Gdb_Proofs
begin

text \<open>
  The scanner of the gdb connection (\<^verbatim>\<open>scanner.l\<close>): the actions of its rules, the cutting of the
  input into tokens, and the whole of \<^verbatim>\<open>gdb_scanner\<close>. The code that flex generates is not part of
  the sources; what it does is fixed by the rules and the documented meaning of them: at each point the rule
  with the longest match is taken, and of several the first. \<open>flex_match\<close> says this for the rules
  of the file, \<open>next_token\<close> computes it, and the two are shown to agree.
\<close>

section \<open>The scanner's actions\<close>

abbreviation (input) MAX_ERROR_SIZE :: nat where "MAX_ERROR_SIZE \<equiv> 1024"

record parser_data =
  pd_gdb :: gdb
  pd_buffer :: "u8 list"   \<comment> \<open>the bytes collected so far; \<^verbatim>\<open>len\<close> is their number\<close>

definition handle_error :: "parser_data \<Rightarrow> parser_data" where
  "handle_error data =
     (if pd_buffer data \<noteq> [] then
        data\<lparr>pd_gdb := gdb_require_retransmission (pd_gdb data), pd_buffer := []\<rparr>
      else data)"

definition add_character_to_error :: "parser_data \<Rightarrow> u8 \<Rightarrow> parser_data" where
  "add_character_to_error data c =
     (let data = (if length (pd_buffer data) > MAX_ERROR_SIZE - 2 then handle_error data else data)
      in data\<lparr>pd_buffer := pd_buffer data @ [c]\<rparr>)"

text \<open>
  A token is a rule of the scanner with the text it matched. The rule \<^verbatim>\<open>.\<close> does not match a
  newline; the scanner's default rule does and copies it to the standard output, which the model
  leaves out.
\<close>

datatype token = Ack | Retransmit | Packet "u8 list" | Other u8 | Echo u8 | End_of_input

definition is_packet :: "u8 list \<Rightarrow> bool" where
  "is_packet s \<longleftrightarrow>
     4 \<le> length s \<and> s ! 0 = 36 \<and> s ! (length s - 3) = 35 \<and>
     hex_val (s ! (length s - 2)) \<noteq> None \<and> hex_val (s ! (length s - 1)) \<noteq> None \<and>
     (\<forall>c \<in> set (take (length s - 4) (drop 1 s)). c \<noteq> 36 \<and> c \<noteq> 35)"

definition scanner_action :: "(nat \<Rightarrow> cenv) \<Rightarrow> parser_data \<Rightarrow> token \<Rightarrow> (halt + parser_data) option" where
  "scanner_action Es data t =
     (case t of
        Ack \<Rightarrow> Some (Inr (handle_error data))
      | Retransmit \<Rightarrow>
          (let data = handle_error data in Some (Inr (data\<lparr>pd_gdb := gdb_transmit_packet (pd_gdb data)\<rparr>)))
      | Packet text \<Rightarrow>
          (let data = handle_error data
           in case gdb_packet_analysis Es (pd_gdb data) text of
                None \<Rightarrow> None
              | Some (Inl h) \<Rightarrow> Some (Inl h)
              | Some (Inr gdb) \<Rightarrow> Some (Inr (data\<lparr>pd_gdb := gdb\<rparr>)))
      | Other c \<Rightarrow> Some (Inr (add_character_to_error data c))
      | Echo c \<Rightarrow> Some (Inr data)
      | End_of_input \<Rightarrow> Some (Inr (handle_error data)))"

definition gdb_scanner_start :: "arm_core \<Rightarrow> u8 list \<Rightarrow> parser_data" where
  "gdb_scanner_start arm heap = \<lparr>pd_gdb = gdb_init_data arm heap, pd_buffer = []\<rparr>"

section \<open>Cutting the input into tokens\<close>

text \<open>The patterns of the rules, in the order of the file; the last is the default rule of the generated scanner.\<close>

datatype scan_rule = Rule_plus | Rule_minus | Rule_packet | Rule_any | Rule_default

definition scan_rules :: "scan_rule list" where
  "scan_rules = [Rule_plus, Rule_minus, Rule_packet, Rule_any, Rule_default]"

fun matches :: "scan_rule \<Rightarrow> u8 list \<Rightarrow> bool" where
  "matches Rule_plus s \<longleftrightarrow> s = [43]"
| "matches Rule_minus s \<longleftrightarrow> s = [45]"
| "matches Rule_packet s \<longleftrightarrow> is_packet s"
| "matches Rule_any s \<longleftrightarrow> length s = 1 \<and> s \<noteq> [10]"
| "matches Rule_default s \<longleftrightarrow> length s = 1"

fun token_of :: "scan_rule \<Rightarrow> u8 list \<Rightarrow> token" where
  "token_of Rule_plus s = Ack"
| "token_of Rule_minus s = Retransmit"
| "token_of Rule_packet s = Packet s"
| "token_of Rule_any s = Other (hd s)"
| "token_of Rule_default s = Echo (hd s)"

text \<open>The documented choice of flex among the rules: the longest match, and the first rule with it.\<close>

definition flex_match :: "u8 list \<Rightarrow> scan_rule \<Rightarrow> u8 list \<Rightarrow> u8 list \<Rightarrow> bool" where
  "flex_match input r lexeme rest \<longleftrightarrow>
     input = lexeme @ rest \<and> matches r lexeme \<and>
     (\<forall>r' lexeme' rest'. input = lexeme' @ rest' \<and> matches r' lexeme' \<longrightarrow> length lexeme' \<le> length lexeme) \<and>
     (\<forall>r' \<in> set (takeWhile (\<lambda>x. x \<noteq> r) scan_rules). \<not> matches r' lexeme)"

text \<open>The length of the packet at the front of the input.\<close>

definition plain_char :: "u8 \<Rightarrow> bool" where
  "plain_char c \<longleftrightarrow> c \<noteq> 36 \<and> c \<noteq> 35"

definition packet_length :: "u8 list \<Rightarrow> nat option" where
  "packet_length s =
     (case s of
        [] \<Rightarrow> None
      | c # cs \<Rightarrow>
          if c = 36 then
            case dropWhile plain_char cs of
              m # h # l # rest \<Rightarrow>
                if m = 35 \<and> hex_val h \<noteq> None \<and> hex_val l \<noteq> None
                then Some (length (takeWhile plain_char cs) + 4) else None
            | _ \<Rightarrow> None
          else None)"

definition next_rule :: "u8 list \<Rightarrow> scan_rule \<times> nat" where
  "next_rule s =
     (if hd s = 43 then (Rule_plus, 1)
      else if hd s = 45 then (Rule_minus, 1)
      else case packet_length s of
             Some n \<Rightarrow> (Rule_packet, n)
           | None \<Rightarrow> if hd s = 10 then (Rule_default, 1) else (Rule_any, 1))"

lemma next_rule_positive: "0 < snd (next_rule s)"
  by (auto simp: next_rule_def packet_length_def split: option.splits list.splits if_splits)

function scan :: "u8 list \<Rightarrow> token list" where
  "scan [] = [End_of_input]"
| "scan (c # cs) =
     (let (r, n) = next_rule (c # cs)
      in token_of r (take n (c # cs)) # scan (drop n (c # cs)))"
  by pat_completeness auto
termination
proof (relation "measure length", simp, goal_cases)
  case (1 c cs x r n)
  then have "0 < n" using next_rule_positive [of "c # cs"] by (metis snd_conv)
  then show ?case by simp
qed

declare scan.simps(2) [simp del]

text \<open>
  The scanner on a whole input. Each token has its own environment for what C leaves open; \<open>opened\<close> says
  whether \<^verbatim>\<open>fdopen\<close> gave a stream.
\<close>

fun yylex :: "(nat \<Rightarrow> nat \<Rightarrow> cenv) \<Rightarrow> parser_data \<Rightarrow> token list \<Rightarrow> (halt + parser_data) option" where
  "yylex Ess data [] = Some (Inr data)"
| "yylex Ess data (t # ts) =
     (case scanner_action (Ess 0) data t of
        None \<Rightarrow> None
      | Some (Inl h) \<Rightarrow> Some (Inl h)
      | Some (Inr data) \<Rightarrow> yylex (\<lambda>n. Ess (Suc n)) data ts)"

definition gdb_scanner ::
  "(nat \<Rightarrow> nat \<Rightarrow> cenv) \<Rightarrow> arm_core \<Rightarrow> u8 list \<Rightarrow> bool \<Rightarrow> u8 list \<Rightarrow> (halt + parser_data) option" where
  "gdb_scanner Ess arm heap opened input =
     (let data = gdb_scanner_start arm heap
      in if opened then yylex Ess data (scan input) else Some (Inr data))"

section \<open>The matcher finds the longest match\<close>

lemma length_3: "length xs = 3 \<Longrightarrow> \<exists>a b c. xs = [a, b, c]"
  by (auto simp: numeral_3_eq_3 length_Suc_conv)

lemma is_packet_iff:
  "is_packet s \<longleftrightarrow>
     (\<exists>body h l. s = 36 # body @ [35, h, l] \<and> hex_val h \<noteq> None \<and> hex_val l \<noteq> None \<and>
        (\<forall>c \<in> set body. plain_char c))" (is "_ \<longleftrightarrow> ?R")
proof
  assume p: "is_packet s"
  then obtain c t where s: "s = c # t" and len: "3 \<le> length t"
    by (cases s) (auto simp: is_packet_def)
  define body where "body = take (length t - 3) t"
  obtain m h l where d: "drop (length t - 3) t = [m, h, l]"
    using length_3 [of "drop (length t - 3) t"] len by auto
  have t: "t = body @ [m, h, l]" unfolding body_def d [symmetric] by simp
  have "length (body @ [m, h, l]) - 2 = Suc (length body)" by simp
  then show ?R using p unfolding s t
    by (auto simp: is_packet_def nth_append plain_char_def)
next
  assume ?R
  then show "is_packet s"
    by (auto simp: is_packet_def plain_char_def nth_append nth_Cons')
qed


lemma packet_length_Some:
  "packet_length s = Some n \<Longrightarrow>
   \<exists>body h l rest. s = (36 # body @ [35, h, l]) @ rest \<and> n = length body + 4 \<and> hex_val h \<noteq> None \<and>
     hex_val l \<noteq> None \<and> (\<forall>c \<in> set body. plain_char c)"
proof -
  assume a: "packet_length s = Some n"
  then obtain cs h l rest where s: "s = 36 # cs" "dropWhile plain_char cs = 35 # h # l # rest"
    and hl: "hex_val h \<noteq> None" "hex_val l \<noteq> None" and n: "n = length (takeWhile plain_char cs) + 4"
    by (auto simp: packet_length_def split: list.splits if_splits)
  have "cs = takeWhile plain_char cs @ [35, h, l] @ rest"
    using takeWhile_dropWhile_id [of plain_char cs] s(2) by simp
  moreover have "\<forall>c \<in> set (takeWhile plain_char cs). plain_char c" by (blast dest: set_takeWhileD)
  ultimately show ?thesis using s(1) hl n
    by (intro exI [of _ "takeWhile plain_char cs"] exI [of _ h] exI [of _ l] exI [of _ rest]) simp
qed

lemma packet_length_packet:
  assumes "hex_val h \<noteq> None" "hex_val l \<noteq> None" "\<forall>c \<in> set body. plain_char c"
  shows "packet_length ((36 # body @ [35, h, l]) @ rest) = Some (length body + 4)"
proof -
  have "dropWhile plain_char (body @ 35 # h # l # rest) = 35 # h # l # rest"
    "takeWhile plain_char (body @ 35 # h # l # rest) = body"
    using assms(3) by (simp_all add: dropWhile_append takeWhile_append plain_char_def)
  then show ?thesis using assms(1,2) by (simp add: packet_length_def)
qed

lemma packet_length_iff:
  "packet_length s = Some n \<longleftrightarrow> (\<exists>text rest. s = text @ rest \<and> is_packet text \<and> n = length text)" (is "_ = ?R")
proof
  assume "packet_length s = Some n"
  then obtain body h l rest where "s = (36 # body @ [35, h, l]) @ rest" "n = length body + 4"
    "hex_val h \<noteq> None" "hex_val l \<noteq> None" "\<forall>c \<in> set body. plain_char c"
    using packet_length_Some by blast
  moreover from this have "is_packet (36 # body @ [35, h, l])" unfolding is_packet_iff by blast
  ultimately show ?R by (intro exI [of _ "36 # body @ [35, h, l]"] exI [of _ rest]) simp
next
  assume ?R
  then show "packet_length s = Some n" by (auto simp: is_packet_iff packet_length_packet simp del: append_Cons)
qed

lemma packet_length_le: "packet_length s = Some n \<Longrightarrow> n \<le> length s"
  unfolding packet_length_iff by (metis length_append le_add1)

lemma is_packet_length: "is_packet s \<Longrightarrow> 4 \<le> length s \<and> hd s = 36"
  by (cases s) (auto simp: is_packet_def)

lemma not_packet_Nil [simp]: "\<not> is_packet []"
  by (simp add: is_packet_def)

lemma matches_length: "matches r s \<Longrightarrow> length s = 1 \<or> is_packet s"
  by (cases r) auto

text \<open>The rule and the length that \<open>next_rule\<close> computes are those flex chooses, and no others are.\<close>

lemma next_rule_flex_match:
  assumes "s \<noteq> []" and r: "next_rule s = (r, n)"
  shows "flex_match s r (take n s) (drop n s)"
proof (cases "packet_length s")
  case None
  then have single: "length lexeme \<le> 1" if "s = lexeme @ rest" "matches r' lexeme" for r' lexeme rest
    using matches_length [OF that(2)] that(1) None packet_length_iff [of s "length lexeme"] by auto
  have n: "n = 1" using r None by (auto simp: next_rule_def split: if_splits)
  obtain c cs where s: "s = c # cs" using assms(1) by (cases s) auto
  have "\<not> is_packet [c]" by (simp add: is_packet_def)
  then show ?thesis using r None n single unfolding s
    by (auto simp: flex_match_def next_rule_def scan_rules_def split: if_splits)
next
  case (Some k)
  then obtain lex rest where t: "s = lex @ rest" "is_packet lex" "k = length lex"
    by (auto simp: packet_length_iff)
  then have hd: "hd s = 36" using is_packet_length [of lex] by (cases lex) auto
  then have rn: "r = Rule_packet" "n = k" using r Some by (auto simp: next_rule_def)
  have longest: "length lexeme \<le> k" if "s = lexeme @ rest'" "matches r' lexeme" for r' lexeme rest'
    using matches_length [OF that(2)] that(1) Some is_packet_length [OF t(2)] t(3)
    by (auto simp: packet_length_iff) (metis Some option.inject packet_length_iff order_refl)
  have "\<not> matches Rule_plus lex" "\<not> matches Rule_minus lex" using is_packet_length [OF t(2)] by auto
  then show ?thesis using longest t rn by (auto simp: flex_match_def scan_rules_def)
qed

lemma flex_match_unique:
  assumes "flex_match s r lexeme rest" and "flex_match s r' lexeme' rest'"
  shows "r = r' \<and> lexeme = lexeme' \<and> rest = rest'"
proof -
  have "length lexeme = length lexeme'"
    using assms unfolding flex_match_def by (intro le_antisym) blast+
  then have same: "lexeme = lexeme'" "rest = rest'" using assms by (auto simp: flex_match_def)
  have "matches r lexeme" "matches r' lexeme"
    "\<forall>x \<in> set (takeWhile (\<lambda>x. x \<noteq> r) scan_rules). \<not> matches x lexeme"
    "\<forall>x \<in> set (takeWhile (\<lambda>x. x \<noteq> r') scan_rules). \<not> matches x lexeme"
    using assms same by (auto simp: flex_match_def)
  then have "r = r'" by (cases r; cases r') (simp_all add: scan_rules_def)
  with same show ?thesis by simp
qed

lemma flex_match_iff:
  "flex_match s r lexeme rest \<longleftrightarrow>
     s \<noteq> [] \<and> next_rule s = (r, length lexeme) \<and> s = lexeme @ rest" (is "_ = ?R")
proof
  assume f: "flex_match s r lexeme rest"
  then have "length lexeme = 1 \<or> is_packet lexeme" using matches_length by (auto simp: flex_match_def)
  then have "s \<noteq> []" using f by (auto simp: flex_match_def)
  moreover obtain r' n where n: "next_rule s = (r', n)" by fastforce
  ultimately have "r = r' \<and> lexeme = take n s \<and> rest = drop n s"
    using flex_match_unique f next_rule_flex_match by blast
  moreover have "n \<le> length s"
    using n \<open>s \<noteq> []\<close> packet_length_le [of s n]
    by (auto simp: next_rule_def Suc_le_eq split: if_splits option.splits)
  ultimately show ?R using n \<open>s \<noteq> []\<close> by simp
next
  assume ?R
  then have "flex_match s r (take (length lexeme) s) (drop (length lexeme) s)"
    by (intro next_rule_flex_match) blast+
  with \<open>?R\<close> show "flex_match s r lexeme rest" by simp
qed

lemma scan_nonempty:
  "s \<noteq> [] \<Longrightarrow> scan s = (let (r, n) = next_rule s in token_of r (take n s) # scan (drop n s))"
  by (cases s) (simp_all add: scan.simps(2))

lemma scan_step: "flex_match s r lexeme rest \<Longrightarrow> scan s = token_of r lexeme # scan rest"
  unfolding flex_match_iff
  by (elim conjE, subst scan_nonempty, assumption, simp only: prod.case Let_def, simp)

lemma flex_match_exists: "s \<noteq> [] \<Longrightarrow> \<exists>r lexeme rest. flex_match s r lexeme rest"
  using next_rule_flex_match [of s] by (metis surj_pair)

lemma flex_match_shorter: "flex_match s r lexeme rest \<Longrightarrow> length rest < length s"
  using matches_length is_packet_length by (fastforce simp: flex_match_def)

text \<open>Induction along the matches of the scanner.\<close>

lemma scan_induct [case_names Nil step]:
  assumes "P []" and "\<And>s r lexeme rest. flex_match s r lexeme rest \<Longrightarrow> P rest \<Longrightarrow> P s"
  shows "P s"
proof (induction s rule: length_induct)
  case (1 s)
  show ?case
  proof (cases "s = []")
    case False
    then obtain r lexeme rest where "flex_match s r lexeme rest" using flex_match_exists by blast
    then show ?thesis using 1 assms(2) flex_match_shorter by blast
  qed (simp add: assms(1))
qed

section \<open>Tokens and their text\<close>

fun text_of :: "token \<Rightarrow> u8 list" where
  "text_of Ack = [43]"
| "text_of Retransmit = [45]"
| "text_of (Packet s) = s"
| "text_of (Other c) = [c]"
| "text_of (Echo c) = [c]"
| "text_of End_of_input = []"

text \<open>A token the scanner yields whatever follows it. A dollar sign alone may be the start of a packet.\<close>

fun definite :: "token \<Rightarrow> bool" where
  "definite (Packet s) \<longleftrightarrow> is_packet s"
| "definite (Other c) \<longleftrightarrow> c \<notin> {43, 45, 10, 36}"
| "definite (Echo c) \<longleftrightarrow> c = 10"
| "definite End_of_input \<longleftrightarrow> False"
| "definite t \<longleftrightarrow> True"

lemma packet_length_other: "c \<noteq> 36 \<Longrightarrow> packet_length (c # cs) = None"
  by (simp add: packet_length_def)

lemma scan_definite: "definite t \<Longrightarrow> scan (text_of t @ rest) = t # scan rest"
proof (cases t)
  case (Packet s)
  assume "definite t"
  then have "is_packet s" using Packet by simp
  then have "packet_length (s @ rest) = Some (length s)" unfolding packet_length_iff by blast
  moreover have "s \<noteq> []" "hd (s @ rest) = 36"
    using is_packet_length [OF \<open>is_packet s\<close>] by (cases s; simp)+
  ultimately have "flex_match (s @ rest) Rule_packet s rest" by (simp add: flex_match_iff next_rule_def)
  then show ?thesis using Packet scan_step by fastforce
qed (simp_all add: scan.simps(2) next_rule_def packet_length_other)

lemma scan_append_definite: "list_all definite ts \<Longrightarrow> scan (concat (map text_of ts) @ rest) = ts @ scan rest"
  by (induction ts) (simp_all add: scan_definite)

lemma text_of_token: "matches r s \<Longrightarrow> text_of (token_of r s) = s"
  by (cases r) (auto simp: length_Suc_conv)

lemma text_scan: "concat (map text_of (scan s)) = s"
  by (induction s rule: scan_induct) (auto simp: scan_step text_of_token flex_match_def dest: scan_step)

lemma scan_packets: "Packet t \<in> set (scan s) \<Longrightarrow> is_packet t"
proof (induction s rule: scan_induct)
  case (step s r lexeme rest)
  have "matches r lexeme" using step(1) by (simp add: flex_match_def)
  then show ?case using step(2,3) scan_step [OF step(1)] by (cases r) auto
qed simp

section \<open>Bytes that are no message\<close>

fun stray :: "token \<Rightarrow> bool" where
  "stray (Other c) \<longleftrightarrow> True"
| "stray (Echo c) \<longleftrightarrow> True"
| "stray End_of_input \<longleftrightarrow> True"
| "stray t \<longleftrightarrow> False"

text \<open>A stream of which the scanner can cut no acknowledgement, no retransmission request and no packet.\<close>

definition noise :: "u8 list \<Rightarrow> bool" where
  "noise s \<longleftrightarrow> list_all stray (scan s)"

definition stray_token :: "u8 \<Rightarrow> token" where
  "stray_token c = (if c = 10 then Echo c else Other c)"

lemma scan_noise: "noise s \<Longrightarrow> scan s = map stray_token s @ [End_of_input]"
proof (induction s rule: scan_induct)
  case (step s r lexeme rest)
  have m: "s = lexeme @ rest" "matches r lexeme" "\<forall>r' \<in> set (takeWhile (\<lambda>x. x \<noteq> r) scan_rules). \<not> matches r' lexeme"
    using step(1) by (simp_all add: flex_match_def)
  have t: "scan s = token_of r lexeme # scan rest" by (rule scan_step [OF step(1)])
  then have n: "noise rest" "stray (token_of r lexeme)" using step(3) by (simp_all add: noise_def)
  then have "length lexeme = 1" using m(2) by (cases r) simp_all
  then obtain c where c: "lexeme = [c]" by (metis One_nat_def length_0_conv length_Suc_conv)
  have "token_of r lexeme = stray_token c"
    using n(2) m(2,3) unfolding c by (cases r) (simp_all add: stray_token_def scan_rules_def)
  then show ?case using t step(2) [OF n(1)] by (simp add: m(1) c)
qed simp

lemma yylex_strays:
  "yylex Ess data (map stray_token s @ ts) =
     yylex (\<lambda>n. Ess (n + length s)) (foldl add_character_to_error data (filter (\<lambda>c. c \<noteq> 10) s)) ts"
  by (induction s arbitrary: Ess data) (simp_all add: scanner_action_def stray_token_def)

lemma add_characters:
  assumes "pd_buffer data = []"
  shows "pd_gdb (foldl add_character_to_error data s) =
           (pd_gdb data)\<lparr>gdb_out := gdb_out (pd_gdb data) @ replicate ((length s - 1) div 1023) (ascii ''-'')\<rparr> \<and>
         length (pd_buffer (foldl add_character_to_error data s)) =
           (if s = [] then 0 else (length s - 1) mod 1023 + 1)"
proof (induction s rule: rev_induct)
  case Nil
  then show ?case using assms by simp
next
  case (snoc c s)
  let ?d = "foldl add_character_to_error data s"
  show ?case
  proof (cases "length (pd_buffer ?d) > 1022")
    case True
    then have f: "s \<noteq> []" "(length s - 1) mod 1023 = 1022" using snoc mod_less_divisor [of 1023 "length s - 1"]
      by (auto split: if_splits)
    then have "length s mod 1023 = 0" "length s div 1023 = Suc ((length s - 1) div 1023)"
      using mod_Suc [of "length s - 1" 1023] div_Suc [of "length s - 1" 1023] by auto
    then show ?thesis using snoc True f(1)
      by (auto simp: add_character_to_error_def [of ?d] handle_error_def [of ?d] Let_def
          gdb_require_retransmission_def rio_out_def replicate_append_same)
  next
    case False
    then have "length s mod 1023 = length (pd_buffer ?d)" "length s div 1023 = (length s - 1) div 1023"
      using snoc mod_Suc [of "length s - 1" 1023] div_Suc [of "length s - 1" 1023]
      by (cases s; auto split: if_splits)+
    then show ?thesis using snoc False by (simp add: add_character_to_error_def [of ?d] Let_def)
  qed
qed


section \<open>Properties\<close>

text \<open>
  C17: the scanner cuts its input as its rules say. On every input that is not empty some rule matches,
  and the scanner's next token is that of the longest match, of the first rule that has it; the rest of
  the input is cut the same way.
\<close>

theorem scan_longest_match:
  "(s \<noteq> [] \<longrightarrow> (\<exists>r lexeme rest. flex_match s r lexeme rest)) \<and>
   (\<forall>r lexeme rest. flex_match s r lexeme rest \<longrightarrow> scan s = token_of r lexeme # scan rest)"
  using flex_match_exists scan_step by blast

theorem scan_longest_match_witness:
  "let s = ascii ''$g#67+'' in
     \<exists>r lexeme rest. flex_match s r lexeme rest \<and> scan s = token_of r lexeme # scan rest"
proof -
  have "ascii ''$g#67+'' \<noteq> []" by (simp add: ascii_def)
  then show ?thesis using scan_longest_match [of "ascii ''$g#67+''"] unfolding Let_def by blast
qed

text \<open>
  C18: scanning and printing tokens. No byte of the input is lost or repeated: the texts of the tokens,
  one after the other, are the input. And a sequence of acknowledgements, retransmission requests, packets, newlines
  and stray bytes other than the dollar sign is scanned to just these tokens, however it is followed.
\<close>

theorem scan_roundtrip:
  "concat (map text_of (scan s)) = s \<and>
   (list_all definite ts \<longrightarrow> scan (concat (map text_of ts) @ s) = ts @ scan s)"
  using text_scan scan_append_definite by blast

theorem scan_roundtrip_witness:
  "list_all definite [Ack, Packet (ascii ''$?#3f''), Retransmit] \<and>
   scan (concat (map text_of [Ack, Packet (ascii ''$?#3f''), Retransmit]) @ []) =
     [Ack, Packet (ascii ''$?#3f''), Retransmit] @ scan []"
proof -
  have d: "list_all definite [Ack, Packet (ascii ''$?#3f''), Retransmit]" by code_simp
  show ?thesis using d scan_roundtrip [THEN conjunct2, rule_format, OF d, of "[]"] by blast
qed

text \<open>
  C22: noise on the connection. Bytes of which no message can be cut, a dollar sign without its packet among them, never reach
  the processor or the stored packet: newlines are only copied to the standard output, and after \<open>n\<close> other bytes and the end of
  the input the server has sent one retransmission request per started block of 1023, and nothing else has changed. The connection
  must not have been shut down, since then the first request would end the process.
\<close>

theorem noise_is_harmless:
  assumes "noise s" and "pd_buffer data = []" and "\<not> gdb_shut (pd_gdb data)"
    and "n = length (filter (\<lambda>c. c \<noteq> 10) s)"
  shows "yylex Ess data (scan s) =
     Some (Inr (data\<lparr>pd_gdb := (pd_gdb data)\<lparr>gdb_out :=
        gdb_out (pd_gdb data) @ replicate ((n + 1022) div 1023) (ascii ''-'')\<rparr>\<rparr>))"
proof -
  let ?s = "filter (\<lambda>c. c \<noteq> 10) s"
  let ?d = "foldl add_character_to_error data ?s"
  have run: "yylex Ess data (scan s) = Some (Inr (handle_error ?d))"
    using assms(1) by (simp add: scan_noise yylex_strays scanner_action_def)
  show ?thesis
  proof (cases "?s = []")
    case True
    then show ?thesis using run assms(2,4) by (simp add: handle_error_def)
  next
    case False
    then have "(n + 1022) div 1023 = Suc ((length ?s - 1) div 1023)"
      unfolding assms(4) by (cases ?s) (simp_all add: div_add_self2 [symmetric] add.commute)
    moreover have "pd_buffer ?d \<noteq> []" using add_characters [OF assms(2), of ?s] False by auto
    ultimately show ?thesis using run add_characters [OF assms(2), of ?s] assms(2)
      by (simp add: handle_error_def gdb_require_retransmission_def rio_out_def replicate_append_same)
  qed
qed

theorem noise_is_harmless_witness:
  "\<exists>data. pd_buffer data = [] \<and>
     yylex (\<lambda>_ _. x86_env 0) data (scan (ascii ''a$b'' @ [10])) =
       Some (Inr (data\<lparr>pd_gdb := (pd_gdb data)\<lparr>gdb_out := gdb_out (pd_gdb data) @ [ascii ''-'']\<rparr>\<rparr>))"
proof -
  have n: "noise (ascii ''a$b'' @ [10])" "3 = length (filter (\<lambda>c. c \<noteq> 10) (ascii ''a$b'' @ [10]))" by code_simp+
  have b: "pd_buffer (gdb_scanner_start p []) = []" "\<not> gdb_shut (pd_gdb (gdb_scanner_start p []))" for p
    by (simp_all add: gdb_scanner_start_def gdb_init_data_def)
  show ?thesis using noise_is_harmless [OF n(1) b n(2), of "\<lambda>_ _. x86_env 0"] b by fastforce
qed

end
