(* ===== verification/Debug_Table.thy ===== *)
theory Debug_Table
  imports C_Strings "HOL-Library.List_Lexorder"
begin

text \<open>
  The table of source files with debug messages (\<^verbatim>\<open>debug.c\<close>): a sorted array, filled by
  insertion and searched by bisection. The array is a total function, so that an index past its 64
  entries is visible. Names are C strings without their final zero byte.
\<close>

section \<open>Definitions\<close>

abbreviation (input) MAX_FILES_NUMBER :: nat where "MAX_FILES_NUMBER \<equiv> 64"

record debug_table =
  debugged_files :: "nat \<Rightarrow> u8 list"
  nb_debugged_files :: nat

fun strcmp :: "u8 list \<Rightarrow> u8 list \<Rightarrow> int" where
  "strcmp [] [] = 0"
| "strcmp [] (b # bs) = - 1"
| "strcmp (a # as) [] = 1"
| "strcmp (a # as) (b # bs) = (if a < b then - 1 else if b < a then 1 else strcmp as bs)"

text \<open>The first loop of \<^verbatim>\<open>add_debug_to\<close>: the position of the insertion.\<close>

function insert_position :: "debug_table \<Rightarrow> u8 list \<Rightarrow> nat \<Rightarrow> nat" where
  "insert_position d name i =
     (if i < nb_debugged_files d \<and> i < MAX_FILES_NUMBER \<and> strcmp (debugged_files d i) name < 0
      then insert_position d name (i + 1) else i)"
  by pat_completeness auto
termination
  by (relation "measure (\<lambda>(d, name, i). MAX_FILES_NUMBER - i)") auto

text \<open>The second loop, for \<^verbatim>\<open>j\<close> from the number of files down to \<open>i + 1\<close>.\<close>

definition shift_files :: "nat \<Rightarrow> nat \<Rightarrow> (nat \<Rightarrow> u8 list) \<Rightarrow> nat \<Rightarrow> u8 list" where
  "shift_files i n files = fold (\<lambda>j f. f(j := f (j - 1))) (rev [i + 1..<n + 1]) files"

definition add_debug_to :: "debug_table \<Rightarrow> u8 list \<Rightarrow> debug_table" where
  "add_debug_to d name =
     (let i = insert_position d name 0
      in if i \<ge> MAX_FILES_NUMBER then d
         else d\<lparr>debugged_files := (shift_files i (nb_debugged_files d) (debugged_files d))(i := name),
                nb_debugged_files := nb_debugged_files d + 1\<rparr>)"

function search :: "debug_table \<Rightarrow> u8 list \<Rightarrow> int \<Rightarrow> int \<Rightarrow> bool" where
  "search d name from to =
     (if from < to then
        let middle = (from + to) div 2;
            result = strcmp (debugged_files d (nat middle)) name
        in if result < 0 then search d name (middle + 1) to
           else if result > 0 then search d name from (middle - 1)
           else True
      else from = to \<and> strcmp (debugged_files d (nat from)) name = 0)"
  by pat_completeness auto
termination
  by (relation "measure (\<lambda>(d, name, from, to). nat (to - from + 1))") auto

definition is_debugged :: "debug_table \<Rightarrow> u8 list \<Rightarrow> bool" where
  "is_debugged d name = search d name 0 (int (nb_debugged_files d) - 1)"

definition no_debug :: debug_table where
  "no_debug = \<lparr>debugged_files = \<lambda>_. [], nb_debugged_files = 0\<rparr>"

text \<open>
  The macro \<^verbatim>\<open>is_debugged\<close> of \<^verbatim>\<open>debug.h\<close> with \<^verbatim>\<open>CACHE_DEBUG_FLAG\<close>: each source file has two static
  variables, and only its first question goes to the table.
\<close>

record debug_cache =
  is_debugged_first :: bool
  is_debugged_result :: bool

definition initial_cache :: debug_cache where
  "initial_cache = \<lparr>is_debugged_first = True, is_debugged_result = False\<rparr>"

definition is_debugged_cached :: "debug_table \<Rightarrow> u8 list \<Rightarrow> debug_cache \<Rightarrow> bool \<times> debug_cache" where
  "is_debugged_cached d name c =
     (let c = (if is_debugged_first c
               then \<lparr>is_debugged_first = False, is_debugged_result = is_debugged d name\<rparr> else c)
      in (is_debugged_result c, c))"

text \<open>
  The message macros write to the standard error stream when their file is debugged; \<open>message\<close> is the
  text the format gives. \<^verbatim>\<open>__debug_raw_binary\<close> shows a byte that is not printable as a dot.
\<close>

definition is_print :: "u8 \<Rightarrow> bool" where
  "is_print c \<longleftrightarrow> 32 \<le> c \<and> c \<le> 126"

definition debug_raw :: "debug_table \<Rightarrow> u8 list \<Rightarrow> u8 list \<Rightarrow> u8 list" where
  "debug_raw d file message = (if is_debugged d file then message else [])"

definition debug :: "debug_table \<Rightarrow> string \<Rightarrow> int \<Rightarrow> u8 list \<Rightarrow> u8 list" where
  "debug d file line message =
     (if is_debugged d (ascii file) then ascii (''[DEBUG] '' @ file @ '','' @ print_int line @ '': '') @ message else [])"

definition warning :: "string \<Rightarrow> int \<Rightarrow> u8 list \<Rightarrow> u8 list" where
  "warning file line message = ascii (''[WARNING] '' @ file @ '', '' @ print_int line @ '': '') @ message"

definition debug_raw_binary_text :: "u8 list \<Rightarrow> u8 list" where
  "debug_raw_binary_text bytes = map (\<lambda>c. if is_print c then c else 46) bytes"

definition debug_raw_binary :: "debug_table \<Rightarrow> u8 list \<Rightarrow> u8 list \<Rightarrow> u8 list" where
  "debug_raw_binary d file bytes = (if is_debugged d file then debug_raw_binary_text bytes else [])"

declare insert_position.simps [simp del] search.simps [simp del]

section \<open>Insertion\<close>

definition files_of :: "debug_table \<Rightarrow> u8 list list" where
  "files_of d = map (debugged_files d) [0..<nb_debugged_files d]"

lemma strcmp_less: "strcmp s t < 0 \<longleftrightarrow> s < t"
  by (induction s t rule: strcmp.induct) auto

lemma strcmp_eq: "strcmp s t = 0 \<longleftrightarrow> s = t"
  by (induction s t rule: strcmp.induct) auto

lemma strcmp_greater: "0 < strcmp s t \<longleftrightarrow> t < s"
  using strcmp_less [of s t] strcmp_eq [of s t] by (metis linorder_less_linear order_less_asym)

lemma insert_position_spec:
  assumes "i \<le> nb_debugged_files d" "nb_debugged_files d < MAX_FILES_NUMBER"
  shows "insert_position d name i =
     i + length (takeWhile (\<lambda>s. s < name) (map (debugged_files d) [i..<nb_debugged_files d]))"
  using assms
proof (induction d name i rule: insert_position.induct)
  case (1 d name i)
  show ?case
  proof (cases "i < nb_debugged_files d \<and> debugged_files d i < name")
    case True
    with 1 show ?thesis
      by (subst insert_position.simps) (simp add: strcmp_less upt_rec [of i])
  next
    case False
    with 1 show ?thesis
      by (subst insert_position.simps) (auto simp: strcmp_less upt_rec [of i])
  qed
qed

lemma shift_files_apply:
  "i \<le> n \<Longrightarrow> shift_files i n f k = (if i < k \<and> k \<le> n then f (k - 1) else f k)"
proof (induction n arbitrary: f)
  case 0
  then show ?case by (simp add: shift_files_def)
next
  case (Suc n)
  show ?case
  proof (cases "i = Suc n")
    case False
    with Suc.prems have le: "i \<le> n" by simp
    have "shift_files i (Suc n) f = shift_files i n (f(Suc n := f n))"
      using le by (simp add: shift_files_def)
    then have "shift_files i (Suc n) f k =
        (if i < k \<and> k \<le> n then (f(Suc n := f n)) (k - 1) else (f(Suc n := f n)) k)"
      by (simp only: Suc.IH [OF le])
    also have "\<dots> = (if i < k \<and> k \<le> Suc n then f (k - 1) else f k)" using le by auto
    finally show ?thesis .
  qed (auto simp: shift_files_def)
qed

lemma files_of_add:
  assumes "nb_debugged_files d < MAX_FILES_NUMBER"
  shows "files_of (add_debug_to d name) =
     takeWhile (\<lambda>s. s < name) (files_of d) @ name # dropWhile (\<lambda>s. s < name) (files_of d)"
    "nb_debugged_files (add_debug_to d name) = Suc (nb_debugged_files d)"
proof -
  let ?n = "nb_debugged_files d" and ?i = "insert_position d name 0"
  have pos: "?i = length (takeWhile (\<lambda>s. s < name) (files_of d))"
    using insert_position_spec [of 0 d name] assms by (simp add: files_of_def)
  have le: "?i \<le> ?n"
    unfolding pos using length_takeWhile_le [of "\<lambda>s. s < name" "files_of d"] by (simp add: files_of_def)
  have split: "takeWhile (\<lambda>s. s < name) (files_of d) = take ?i (files_of d)"
    "dropWhile (\<lambda>s. s < name) (files_of d) = drop ?i (files_of d)"
    unfolding pos by (rule takeWhile_eq_take, rule dropWhile_eq_drop)
  show "nb_debugged_files (add_debug_to d name) = Suc ?n"
    using le assms by (simp add: add_debug_to_def Let_def)
  have add: "add_debug_to d name = d\<lparr>debugged_files := (shift_files ?i ?n (debugged_files d))(?i := name),
      nb_debugged_files := ?n + 1\<rparr>"
    using le assms by (simp add: add_debug_to_def Let_def)
  show "files_of (add_debug_to d name) =
     takeWhile (\<lambda>s. s < name) (files_of d) @ name # dropWhile (\<lambda>s. s < name) (files_of d)"
    unfolding split
  proof (rule nth_equalityI)
    show "length (files_of (add_debug_to d name)) = length (take ?i (files_of d) @ name # drop ?i (files_of d))"
      using le by (simp add: add files_of_def)
    fix k
    assume "k < length (files_of (add_debug_to d name))"
    then have "k \<le> ?n" by (simp add: add files_of_def)
    then have "files_of (add_debug_to d name) ! k =
        (if k = ?i then name else if ?i < k then debugged_files d (k - 1) else debugged_files d k)"
      using le by (simp add: add files_of_def shift_files_apply del: upt_Suc)
    also have "\<dots> = (take ?i (files_of d) @ name # drop ?i (files_of d)) ! k"
      using le \<open>k \<le> ?n\<close> by (auto simp: files_of_def nth_append nth_Cons')
    finally show "files_of (add_debug_to d name) ! k = (take ?i (files_of d) @ name # drop ?i (files_of d)) ! k" .
  qed
qed

lemma sorted_insert:
  "sorted xs \<Longrightarrow> sorted (takeWhile (\<lambda>s. s < x) xs @ x # dropWhile (\<lambda>s. s < x) xs)" for xs :: "'a :: linorder list"
proof (induction xs)
  case (Cons y ys)
  then show ?case
    by (auto simp: not_less dest: set_takeWhileD set_dropWhileD intro: order_trans less_imp_le)
qed simp

lemma set_insert: "set (takeWhile P xs @ x # dropWhile P xs) = insert x (set xs)"
  by (metis Un_insert_right list.simps(15) set_append takeWhile_dropWhile_id)

section \<open>Search\<close>

lemma search_spec:
  "sorted (files_of d) \<Longrightarrow> 0 \<le> from \<Longrightarrow> to < int (nb_debugged_files d) \<Longrightarrow>
   search d name from to \<longleftrightarrow> (\<exists>k. from \<le> int k \<and> int k \<le> to \<and> debugged_files d k = name)"
proof (induction d name "from" to rule: search.induct)
  case (1 d name "from" to)
  note IH = "1.IH" and sorted = "1.prems"(1) and bounds = "1.prems"(2,3)
  have mono: "debugged_files d j \<le> debugged_files d k" if "j \<le> k" "k < nb_debugged_files d" for j k
    using sorted_nth_mono [OF sorted that(1)] that by (simp add: files_of_def)
  show ?case
  proof (cases "from < to")
    case True
    define m where "m = (from + to) div 2"
    have m: "from \<le> m" "m < to" using True by (auto simp: m_def)
    then have mn: "nat m < nb_debugged_files d" "0 \<le> m" using bounds by auto
    consider (less) "debugged_files d (nat m) < name" | (greater) "name < debugged_files d (nat m)"
      | (eq) "debugged_files d (nat m) = name"
      by (meson linorder_less_linear)
    then show ?thesis
    proof cases
      case less
      have "\<not> int k \<le> m" if "debugged_files d k = name" for k
        using mono [of k "nat m"] mn less that by (auto simp: le_nat_iff)
      then have "m + 1 \<le> int k \<and> int k \<le> to \<and> debugged_files d k = name \<longleftrightarrow>
          from \<le> int k \<and> int k \<le> to \<and> debugged_files d k = name" for k
        using m by force
      moreover have "search d name from to = search d name (m + 1) to"
        using True less by (subst search.simps) (simp add: m_def strcmp_less Let_def)
      moreover have "\<dots> \<longleftrightarrow> (\<exists>k. m + 1 \<le> int k \<and> int k \<le> to \<and> debugged_files d k = name)"
        using IH(1) [OF True m_def refl] less sorted bounds m by (simp add: m_def strcmp_less)
      ultimately show ?thesis by simp
    next
      case greater
      have "\<not> m \<le> int k" if "debugged_files d k = name" "int k \<le> to" for k
        using mono [of "nat m" k] bounds greater that by (auto simp: nat_le_iff)
      then have "from \<le> int k \<and> int k \<le> m - 1 \<and> debugged_files d k = name \<longleftrightarrow>
          from \<le> int k \<and> int k \<le> to \<and> debugged_files d k = name" for k
        using m by force
      moreover have "search d name from to = search d name from (m - 1)"
        using True greater by (subst search.simps)
          (auto simp: m_def strcmp_less strcmp_greater Let_def dest: order_less_asym)
      moreover have "\<dots> \<longleftrightarrow> (\<exists>k. from \<le> int k \<and> int k \<le> m - 1 \<and> debugged_files d k = name)"
        using IH(2) [OF True m_def refl] greater sorted bounds m
        by (simp add: m_def strcmp_less strcmp_greater order_less_asym)
      ultimately show ?thesis by simp
    next
      case eq
      then have "search d name from to"
        using True by (subst search.simps) (simp add: m_def strcmp_eq Let_def flip: strcmp_eq)
      moreover have "from \<le> int (nat m) \<and> int (nat m) \<le> to \<and> debugged_files d (nat m) = name"
        using eq m mn by simp
      ultimately show ?thesis by blast
    qed
  next
    case False
    have "(\<exists>k. from \<le> int k \<and> int k \<le> to \<and> debugged_files d k = name) \<longleftrightarrow>
        from = to \<and> debugged_files d (nat from) = name"
    proof (cases "from = to")
      case True
      then have "from \<le> int k \<and> int k \<le> to \<longleftrightarrow> k = nat from" for k using bounds by auto
      then show ?thesis using True by (metis (no_types, lifting))
    next
      case neq: False
      with False show ?thesis by auto
    qed
    with False show ?thesis by (subst search.simps) (simp add: strcmp_eq)
  qed
qed

section \<open>Properties\<close>

lemma files_of_names:
  "length names \<le> MAX_FILES_NUMBER \<Longrightarrow>
   sorted (files_of (foldl add_debug_to no_debug names)) \<and>
   set (files_of (foldl add_debug_to no_debug names)) = set names \<and>
   nb_debugged_files (foldl add_debug_to no_debug names) = length names"
proof (induction names rule: rev_induct)
  case Nil
  then show ?case by (simp add: files_of_def no_debug_def)
next
  case (snoc name names)
  let ?d = "foldl add_debug_to no_debug names"
  have IH: "sorted (files_of ?d)" "set (files_of ?d) = set names" "nb_debugged_files ?d = length names"
    using snoc by simp_all
  have "nb_debugged_files ?d < MAX_FILES_NUMBER" using IH(3) snoc.prems by simp
  note add = files_of_add [OF this, of name]
  show ?case
    using IH add(2) sorted_insert [OF IH(1), of name] set_insert [of "\<lambda>s. s < name" "files_of ?d" name]
    unfolding foldl_append foldl.simps add(1) by simp
qed

lemma is_debugged_names:
  assumes "length names \<le> MAX_FILES_NUMBER"
  shows "is_debugged (foldl add_debug_to no_debug names) name \<longleftrightarrow> name \<in> set names"
proof -
  let ?d = "foldl add_debug_to no_debug names"
  note d = files_of_names [OF assms]
  have "is_debugged ?d name \<longleftrightarrow> (\<exists>k. k < nb_debugged_files ?d \<and> debugged_files ?d k = name)"
    using search_spec [of ?d 0 "int (nb_debugged_files ?d) - 1" name] d by (auto simp: is_debugged_def)
  also have "\<dots> \<longleftrightarrow> name \<in> set (files_of ?d)" by (auto simp: files_of_def)
  finally show ?thesis using d by simp
qed

text \<open>
  C38: the table of debugged files. After the insertion of at most 64 names, in any order, the
  bisection finds exactly the names that were inserted.
\<close>

theorem is_debugged_correct:
  assumes "length names \<le> MAX_FILES_NUMBER"
  shows "is_debugged (foldl add_debug_to no_debug names) name \<longleftrightarrow> name \<in> set names"
  using assms by (rule is_debugged_names)

theorem is_debugged_correct_witness:
  "length [[98 :: u8], [97], [99]] \<le> MAX_FILES_NUMBER \<and>
   is_debugged (foldl add_debug_to no_debug [[98], [97], [99]]) [97]"
  using is_debugged_correct [of "[[98], [97], [99]]" "[97]"] by simp

text \<open>
  A 65th name that does not sort behind all the others is written too: the last entry moves to an
  index past the end of the array.
\<close>

lemma add_debug_to_overflow:
  assumes "nb_debugged_files d = 64" "name \<le> debugged_files d 0"
  shows "debugged_files (add_debug_to d name) 64 = debugged_files d 63 \<and>
    nb_debugged_files (add_debug_to d name) = 65"
proof -
  have "insert_position d name 0 = 0"
    using assms by (subst insert_position.simps) (auto simp: strcmp_less)
  then show ?thesis using assms(1) by (simp add: add_debug_to_def shift_files_apply)
qed

text \<open>
  With the cache a file keeps the answer of its first question. Without names added in between, that is the
  answer of the table; after an addition it may be an old one, as the comment of \<^verbatim>\<open>debug.h\<close> warns.
\<close>

lemma cached_answer:
  assumes "is_debugged_cached d name initial_cache = (r, c)"
  shows "r = is_debugged d name \<and> is_debugged_cached d' name c = (r, c)"
  using assms by (auto simp: is_debugged_cached_def initial_cache_def Let_def)

lemma raw_binary_printable: "c \<in> set (debug_raw_binary_text bytes) \<Longrightarrow> is_print c"
  by (auto simp: debug_raw_binary_text_def is_print_def word_le_nat_alt split: if_splits)

end
