(* ===== verification/Simulator.thy ===== *)
theory Simulator
  imports Scanner Debug_Table
begin

text \<open>
  The sender of interrupts (\<^verbatim>\<open>send_irq.c\<close>), the options and the creation of the simulator and the requests
  it serves (\<^verbatim>\<open>arm_simulator.c\<close>): tokens of the gdb connection, and bytes of the interrupt connection, each
  of which raises an exception. \<open>Threads\<close> models the threads that serve them.
\<close>

section \<open>Sending an interrupt\<close>

text \<open>
  The search of \<^verbatim>\<open>send_irq\<close> for the number of a named exception, from \<open>RESET\<close> on: \<open>None\<close> for a name that
  is not in the table, which ends the program with status 2.
\<close>

function find_irq :: "string \<Rightarrow> u8 \<Rightarrow> u8 option" where
  "find_irq name irq =
     (case arm_get_exception_name irq of
        Inr (Some irq_name) \<Rightarrow>
          if irq_name \<noteq> name then find_irq name (irq + 1) else Some irq
      | _ \<Rightarrow> None)"
  by pat_completeness auto
termination
proof (relation "measure (\<lambda>(name, irq). 9 - unat irq)", simp, goal_cases)
  case (1 name irq x y)
  then have "unat irq < 9"
    by (auto simp: arm_get_exception_name_def word_less_nat_alt split: if_splits)
  then have "unat (irq + 1) = unat irq + 1" by (simp add: unat_word_ariths)
  then show ?case using \<open>unat irq < 9\<close> by simp
qed

definition send_irq_byte :: "string option \<Rightarrow> halt + u8" where
  "send_irq_byte arg =
     (case arg of
        None \<Rightarrow> Inr 7
      | Some name \<Rightarrow> (case find_irq name 1 of None \<Rightarrow> Inl (Exit 2) | Some irq \<Rightarrow> Inr irq))"

section \<open>The simulator\<close>

text \<open>The options of the command line, as \<^verbatim>\<open>getopt_long\<close> delivers them.\<close>

record configuration =
  gdb_port :: u16
  irq_port :: u16
  trace_file :: "string option"   \<comment> \<open>\<open>None\<close> is \<^verbatim>\<open>stdout\<close>\<close>
  trace_option_flags :: u32
  debug_files :: debug_table

definition default_configuration :: configuration where
  "default_configuration =
     \<lparr>gdb_port = 0, irq_port = 0, trace_file = None, trace_option_flags = 0, debug_files = no_debug\<rparr>"

definition main_option :: "(string \<Rightarrow> bool) \<Rightarrow> configuration \<Rightarrow> char \<times> string \<Rightarrow> halt + configuration" where
  "main_option can_open conf x =
     (let (opt, optarg) = x
      in if opt = CHR ''g'' then Inr (conf\<lparr>gdb_port := word_of_int (atoi (ascii optarg))\<rparr>)
         else if opt = CHR ''i'' then Inr (conf\<lparr>irq_port := word_of_int (atoi (ascii optarg))\<rparr>)
         else if opt = CHR ''h'' then Inl (Exit 0)
         else if opt = CHR ''t'' then
           if can_open optarg then Inr (conf\<lparr>trace_file := Some optarg\<rparr>) else Inl (Exit 1)
         else if opt = CHR ''r'' then Inr (conf\<lparr>trace_option_flags := trace_option_flags conf OR 2\<rparr>)
         else if opt = CHR ''m'' then Inr (conf\<lparr>trace_option_flags := trace_option_flags conf OR 1\<rparr>)
         else if opt = CHR ''s'' then Inr (conf\<lparr>trace_option_flags := trace_option_flags conf OR 4\<rparr>)
         else if opt = CHR ''p'' then Inr (conf\<lparr>trace_option_flags := trace_option_flags conf OR 8\<rparr>)
         else if opt = CHR ''d'' then Inr (conf\<lparr>debug_files := add_debug_to (debug_files conf) (ascii optarg)\<rparr>)
         else Inl (Exit 1))"

fun main_options :: "(string \<Rightarrow> bool) \<Rightarrow> configuration \<Rightarrow> (char \<times> string) list \<Rightarrow> halt + configuration" where
  "main_options can_open conf [] = Inr conf"
| "main_options can_open conf (x # xs) =
     (case main_option can_open conf x of Inl h \<Rightarrow> Inl h | Inr conf \<Rightarrow> main_options can_open conf xs)"

text \<open>The memory and processor that \<^verbatim>\<open>main\<close> creates; the arguments are the contents of fresh storage.\<close>

definition main_memory :: "(u32 \<Rightarrow> u8) \<Rightarrow> memory" where
  "main_memory heap = memory_create heap 0x20000 True"

definition main_processor :: "(u32 \<Rightarrow> u8) \<Rightarrow> registers \<Rightarrow> u32 \<Rightarrow> arm_core" where
  "main_processor heap regs cycles = the (arm_create True regs cycles (main_memory heap))"

text \<open>
  A request: a token of the gdb connection, or a byte of the interrupt connection, which raises the
  exception of that number.
\<close>

definition irq_action :: "parser_data \<Rightarrow> u8 \<Rightarrow> parser_data" where
  "irq_action data irq =
     data\<lparr>pd_gdb := (pd_gdb data)\<lparr>gdb_arm := arm_exception (gdb_arm (pd_gdb data)) irq\<rparr>\<rparr>"

declare find_irq.simps [simp del]

section \<open>Confinement of a whole run\<close>

lemma handle_error_arm [simp]: "gdb_arm (pd_gdb (handle_error data)) = gdb_arm (pd_gdb data)"
  by (simp add: handle_error_def)

lemma add_character_arm [simp]: "gdb_arm (pd_gdb (add_character_to_error data c)) = gdb_arm (pd_gdb data)"
  by (simp add: add_character_to_error_def Let_def)

lemma confined_scanner_action:
  "scanner_action Es data t = Some (Inr data') \<Longrightarrow> confined (gdb_arm (pd_gdb data)) (gdb_arm (pd_gdb data'))"
  by (auto simp: scanner_action_def Let_def split: token.splits option.splits sum.splits
      dest!: confined_packet_analysis)

lemma main_processor_eq:
  "main_processor heap regs cycles =
     (arm_exception \<lparr>cycle_count = cycles, arm_reg = regs, arm_mem = main_memory heap\<rparr> 1)\<lparr>cycle_count := 0\<rparr>"
  by (simp add: main_processor_def arm_create_def registers_create_def Let_def)

lemma confined_main_processor:
  "confined \<lparr>cycle_count = cycles, arm_reg = regs, arm_mem = main_memory heap\<rparr> (main_processor heap regs cycles)"
  by (simp add: main_processor_eq)

lemma confined_from_start:
  assumes "confined (main_processor heap regs cycles) p"
  shows "mem_size (arm_mem p) = 0x20000 \<and> is_big_endian_mem (arm_mem p) \<and>
         (\<forall>b. 0x20000 \<le> unat b \<longrightarrow> mem_m (arm_mem p) b = heap b) \<and>
         (\<forall>k. 37 \<le> k \<longrightarrow> arm_reg p k = regs k)"
proof -
  have "confined \<lparr>cycle_count = cycles, arm_reg = regs, arm_mem = main_memory heap\<rparr> p"
    by (rule confined_trans [OF confined_main_processor assms])
  then show ?thesis
    by (simp add: confined_def main_memory_def memory_create_def in_block_def)
qed

text \<open>The eight names of the table are found under their numbers.\<close>

lemma find_irq_number:
  assumes "arm_get_exception_name irq = Inr (Some name)"
  shows "find_irq name 1 = Some irq"
proof -
  have all: "list_all (\<lambda>k. case arm_get_exception_name (of_nat k) of Inr (Some name) \<Rightarrow> find_irq name 1 = Some (of_nat k) | _ \<Rightarrow> True)
      [0..<9]" by code_simp
  have "unat irq < 9" using assms by (simp add: arm_get_exception_name_def word_less_nat_alt split: if_splits)
  with all have "case arm_get_exception_name (of_nat (unat irq)) of
      Inr (Some name) \<Rightarrow> find_irq name 1 = Some (of_nat (unat irq)) | _ \<Rightarrow> True"
    unfolding list_all_iff by (metis atLeastLessThan_iff set_upt zero_le)
  then show ?thesis using assms by simp
qed

section \<open>The buffer of the scanner\<close>

lemma buffer_handle_error [simp]: "pd_buffer (handle_error data) = []"
  by (simp add: handle_error_def)

lemma buffer_scanner_action:
  "scanner_action Es data t = Some (Inr data') \<Longrightarrow> length (pd_buffer data) < MAX_ERROR_SIZE \<Longrightarrow>
   length (pd_buffer data') < MAX_ERROR_SIZE"
  by (auto simp: scanner_action_def add_character_to_error_def Let_def
      split: token.splits option.splits sum.splits if_splits)

section \<open>Properties\<close>

text \<open>
  Interrupts. The name of an exception, given to the sender, becomes the number with which the
  simulator jumps to that exception's vector and enters its mode, if it has one; a name that is not in the table ends the
  sender with status 2.
\<close>

lemma named_interrupt:
  "(\<forall>irq name. arm_get_exception_name irq = Inr (Some name) \<longrightarrow>
      send_irq_byte (Some name) = Inr irq \<and>
      get_mode (arm_reg (gdb_arm (pd_gdb (irq_action data irq)))) =
        (case entered_mode irq of None \<Rightarrow> get_mode (arm_reg (gdb_arm (pd_gdb data))) | Some mode \<Rightarrow> mode) \<and>
      read_register (arm_reg (gdb_arm (pd_gdb (irq_action data irq)))) 15 = 4 * (ucast irq - 1)) \<and>
   (\<forall>name. Some name \<notin> set arm_exception_names \<longrightarrow> send_irq_byte (Some name) = Inl (Exit 2))"
proof -
  have none: "find_irq name 1 = None" if "Some name \<notin> set arm_exception_names" for name
    using that by (simp add: find_irq.simps arm_get_exception_name_def table_entry_def arm_exception_names_def
        eq_commute [of _ name])
  show ?thesis
    by (auto simp: send_irq_byte_def irq_action_def exception_target none dest: find_irq_number)
qed

end
