(* ===== verification/Threads.thy ===== *)
theory Threads
  imports Simulator
begin

text \<open>
  The three threads of \<^verbatim>\<open>arm_simulator.c\<close> and the lock they share. \<open>gdb_listener\<close> scans the
  tokens of its connection and takes the lock for the handler of a packet (\<^verbatim>\<open>gdb_packet_analysis\<close>),
  \<open>irq_listener\<close> takes it for each byte it receives, and \<^verbatim>\<open>main\<close> waits for the first and then frees the
  processor. A thread that works on the processor reads it when it enters and leaves its result when it is done, in
  two steps, so that without the lock one thread could lose what the other did. The system's answers are nondeterministic; a
  failed \<^verbatim>\<open>accept\<close> or \<^verbatim>\<open>read\<close> ends the process in its wrapper. A write to the gdb connection after \<^verbatim>\<open>kill_request\<close> has shut
  it down ends the process with \<^verbatim>\<open>SIGPIPE\<close> (\<open>Abort\<close>), a handler that writes past the packet array and an access to
  the processor that \<^verbatim>\<open>main\<close> has freed end in \<open>Undefined\<close>.
\<close>

section \<open>Definitions\<close>

text \<open>
  What \<^verbatim>\<open>gdb_packet_analysis\<close> does before it takes the lock: the new protocol data and, when there is
  one, the handler with its argument.
\<close>

definition packet_request :: "cenv \<Rightarrow> gdb \<Rightarrow> u8 list \<Rightarrow> halt + gdb \<times> (gdb_handler \<times> u8 list) option" where
  "packet_request E gdb packet =
     (let i = max 1 (length packet - 3);
          check = sum_list (take (length packet - 4) (drop 1 packet));
          given = (case scan_hex None (drop (i + 1) packet) of None \<Rightarrow> uninit_val E | Some (v, r) \<Rightarrow> v)
      in if ucast check = given then
           let gdb = gdb_send_ack gdb;
               packet = packet[i := 0]
           in case handler (packet ! 1) of
                Some h \<Rightarrow> Inr (gdb, Some (h, drop 2 packet))
              | None \<Rightarrow> (case gdb_send_data gdb [] of Inl e \<Rightarrow> Inl e | Inr gdb \<Rightarrow> Inr (gdb, None))
         else Inr (gdb_require_retransmission gdb, None))"

datatype thread = Gdb_listener | Irq_listener

datatype gdb_pc =
  G_accept                                                         \<comment> \<open>at \<^verbatim>\<open>Accept\<close>\<close>
| G_scan                                                           \<comment> \<open>in \<^verbatim>\<open>yylex\<close>, between two tokens\<close>
| G_lock "nat \<Rightarrow> cenv" "u8 list" gdb_handler "u8 list"             \<comment> \<open>at \<^verbatim>\<open>pthread_mutex_lock\<close>\<close>
| G_enter "nat \<Rightarrow> cenv" "u8 list" gdb_handler "u8 list"            \<comment> \<open>before the call of the handler\<close>
| G_run "nat \<Rightarrow> cenv" "u8 list" gdb_handler "u8 list" arm_core     \<comment> \<open>in the handler, with the processor it found\<close>
| G_unlock                                                         \<comment> \<open>at \<^verbatim>\<open>pthread_mutex_unlock\<close>\<close>
| G_done                                                           \<comment> \<open>after \<^verbatim>\<open>gdb_scanner\<close>\<close>

datatype irq_pc = I_accept | I_read | I_lock u8 | I_enter u8 | I_run u8 arm_core | I_unlock

datatype main_pc = M_join | M_return

text \<open>
  \<open>shared_arm\<close> is the processor as the last request left it. A thread that holds the lock works on a copy, which \<open>G_run\<close> and
  \<open>I_run\<close> carry; what it does in between no other thread can see.
\<close>

record sim =
  shared_arm :: arm_core
  lock_owner :: "thread option"
  gdb_state :: parser_data        \<comment> \<open>what belongs to the gdb thread; its \<open>gdb_arm\<close> is not used\<close>
  gdb_tokens :: "token list"      \<comment> \<open>what is still to come on the gdb connection\<close>
  irq_input :: "u8 list"          \<comment> \<open>what is still to come on interrupt connections\<close>
  gdb_at :: gdb_pc
  irq_at :: irq_pc
  main_at :: main_pc
  arm_freed :: bool
  ended :: "halt option"

definition with_arm :: "arm_core \<Rightarrow> parser_data \<Rightarrow> parser_data" where
  "with_arm p data = data\<lparr>pd_gdb := (pd_gdb data)\<lparr>gdb_arm := p\<rparr>\<rparr>"

definition sim_start :: "arm_core \<Rightarrow> u8 list \<Rightarrow> token list \<Rightarrow> u8 list \<Rightarrow> sim" where
  "sim_start p heap tokens bytes =
     \<lparr>shared_arm = p, lock_owner = None, gdb_state = gdb_scanner_start p heap, gdb_tokens = tokens,
      irq_input = bytes, gdb_at = G_accept, irq_at = I_accept, main_at = M_join, arm_freed = False,
      ended = None\<rparr>"

fun is_packet_token :: "token \<Rightarrow> bool" where
  "is_packet_token (Packet s) \<longleftrightarrow> True"
| "is_packet_token t \<longleftrightarrow> False"

text \<open>The system takes what the server writes from one state to another: nothing, once the connection is shut down.\<close>

definition accepted :: "gdb \<Rightarrow> gdb \<Rightarrow> bool" where
  "accepted g g' \<longleftrightarrow> gdb_shut g \<longrightarrow> concat (gdb_out g') = concat (gdb_out g)"

inductive gdb_step_thread :: "sim \<Rightarrow> sim \<Rightarrow> bool" where
  gdb_accept: "gdb_at s = G_accept \<Longrightarrow> gdb_step_thread s (s\<lparr>gdb_at := G_scan\<rparr>)"
| gdb_accept_fails: "gdb_at s = G_accept \<Longrightarrow> gdb_step_thread s (s\<lparr>ended := Some (Exit 0)\<rparr>)"
| gdb_token: "gdb_at s = G_scan \<Longrightarrow> gdb_tokens s = t # ts \<Longrightarrow> \<not> is_packet_token t \<Longrightarrow>
    scanner_action Es (gdb_state s) t = Some (Inr data) \<Longrightarrow> accepted (pd_gdb (gdb_state s)) (pd_gdb data) \<Longrightarrow>
    gdb_step_thread s (s\<lparr>gdb_state := data, gdb_tokens := ts,
                         gdb_at := (if t = End_of_input then G_done else G_scan)\<rparr>)"
| gdb_token_pipe: "gdb_at s = G_scan \<Longrightarrow> gdb_tokens s = t # ts \<Longrightarrow> \<not> is_packet_token t \<Longrightarrow>
    scanner_action Es (gdb_state s) t = Some (Inr data) \<Longrightarrow> \<not> accepted (pd_gdb (gdb_state s)) (pd_gdb data) \<Longrightarrow>
    gdb_step_thread s (s\<lparr>ended := Some Abort\<rparr>)"
| gdb_packet: "gdb_at s = G_scan \<Longrightarrow> gdb_tokens s = Packet pkt # ts \<Longrightarrow>
    data = handle_error (gdb_state s) \<Longrightarrow>
    packet_request (Es 0) (pd_gdb data) pkt = Inr (gdb, req) \<Longrightarrow> accepted (pd_gdb (gdb_state s)) gdb \<Longrightarrow>
    gdb_step_thread s (s\<lparr>gdb_state := data\<lparr>pd_gdb := gdb\<rparr>, gdb_tokens := ts,
                         gdb_at := (case req of None \<Rightarrow> G_scan | Some (h, arg) \<Rightarrow> G_lock Es pkt h arg)\<rparr>)"
| gdb_packet_pipe: "gdb_at s = G_scan \<Longrightarrow> gdb_tokens s = Packet pkt # ts \<Longrightarrow>
    packet_request E (pd_gdb (handle_error (gdb_state s))) pkt = Inr (gdb, req) \<Longrightarrow>
    \<not> accepted (pd_gdb (gdb_state s)) gdb \<Longrightarrow>
    gdb_step_thread s (s\<lparr>ended := Some Abort\<rparr>)"
| gdb_lock: "gdb_at s = G_lock Es pkt h arg \<Longrightarrow> lock_owner s = None \<Longrightarrow>
    gdb_step_thread s (s\<lparr>lock_owner := Some Gdb_listener, gdb_at := G_enter Es pkt h arg\<rparr>)"
| gdb_enter: "gdb_at s = G_enter Es pkt h arg \<Longrightarrow>
    gdb_step_thread s (s\<lparr>gdb_at := G_run Es pkt h arg (shared_arm s)\<rparr>)"
| gdb_leave: "gdb_at s = G_run Es pkt h arg p \<Longrightarrow>
    run_handler Es h (pd_gdb (with_arm p (gdb_state s))) arg = Some (Inr gdb) \<Longrightarrow> accepted (pd_gdb (gdb_state s)) gdb \<Longrightarrow>
    gdb_step_thread s (s\<lparr>shared_arm := gdb_arm gdb, gdb_state := (gdb_state s)\<lparr>pd_gdb := gdb\<rparr>,
                         gdb_at := G_unlock\<rparr>)"
| gdb_leave_pipe: "gdb_at s = G_run Es pkt h arg p \<Longrightarrow>
    run_handler Es h (pd_gdb (with_arm p (gdb_state s))) arg = Some (Inr gdb) \<Longrightarrow> \<not> accepted (pd_gdb (gdb_state s)) gdb \<Longrightarrow>
    gdb_step_thread s (s\<lparr>ended := Some Abort\<rparr>)"
| gdb_exit: "gdb_at s = G_run Es pkt h arg p \<Longrightarrow>
    run_handler Es h (pd_gdb (with_arm p (gdb_state s))) arg = Some (Inl e) \<Longrightarrow>
    gdb_step_thread s (s\<lparr>ended := Some e\<rparr>)"
| gdb_unlock: "gdb_at s = G_unlock \<Longrightarrow> gdb_step_thread s (s\<lparr>lock_owner := None, gdb_at := G_scan\<rparr>)"

inductive irq_step_thread :: "sim \<Rightarrow> sim \<Rightarrow> bool" where
  irq_accept: "irq_at s = I_accept \<Longrightarrow> irq_step_thread s (s\<lparr>irq_at := I_read\<rparr>)"
| irq_fails: "irq_at s = I_accept \<or> irq_at s = I_read \<Longrightarrow> irq_step_thread s (s\<lparr>ended := Some (Exit 0)\<rparr>)"
| irq_close: "irq_at s = I_read \<Longrightarrow> irq_step_thread s (s\<lparr>irq_at := I_accept\<rparr>)"
| irq_read: "irq_at s = I_read \<Longrightarrow> irq_input s = b # bs \<Longrightarrow>
    irq_step_thread s (s\<lparr>irq_input := bs, irq_at := I_lock b\<rparr>)"
| irq_lock: "irq_at s = I_lock b \<Longrightarrow> lock_owner s = None \<Longrightarrow>
    irq_step_thread s (s\<lparr>lock_owner := Some Irq_listener, irq_at := I_enter b\<rparr>)"
| irq_enter: "irq_at s = I_enter b \<Longrightarrow> \<not> arm_freed s \<Longrightarrow> irq_step_thread s (s\<lparr>irq_at := I_run b (shared_arm s)\<rparr>)"
| irq_freed: "irq_at s = I_enter b \<or> irq_at s = I_run b p \<Longrightarrow> arm_freed s \<Longrightarrow>
    irq_step_thread s (s\<lparr>ended := Some Undefined\<rparr>)"
| irq_leave: "irq_at s = I_run b p \<Longrightarrow> \<not> arm_freed s \<Longrightarrow>
    irq_step_thread s (s\<lparr>shared_arm := arm_exception p b, irq_at := I_unlock\<rparr>)"
| irq_unlock: "irq_at s = I_unlock \<Longrightarrow> irq_step_thread s (s\<lparr>lock_owner := None, irq_at := I_read\<rparr>)"

inductive main_step_thread :: "sim \<Rightarrow> sim \<Rightarrow> bool" where
  main_join: "main_at s = M_join \<Longrightarrow> gdb_at s = G_done \<Longrightarrow>
    main_step_thread s (s\<lparr>arm_freed := True, main_at := M_return\<rparr>)"
| main_return: "main_at s = M_return \<Longrightarrow> main_step_thread s (s\<lparr>ended := Some (Exit 0)\<rparr>)"

inductive thread_step :: "sim \<Rightarrow> sim \<Rightarrow> bool" where
  by_gdb: "ended s = None \<Longrightarrow> gdb_step_thread s s' \<Longrightarrow> thread_step s s'"
| by_irq: "ended s = None \<Longrightarrow> irq_step_thread s s' \<Longrightarrow> thread_step s s'"
| by_main: "ended s = None \<Longrightarrow> main_step_thread s s' \<Longrightarrow> thread_step s s'"

inductive thread_run :: "sim \<Rightarrow> sim \<Rightarrow> bool" for s0 where
  begin_run: "thread_run s0 s0"
| step_run: "thread_run s0 s \<Longrightarrow> thread_step s s' \<Longrightarrow> thread_run s0 s'"

inductive_cases gdb_step_threadE: "gdb_step_thread s s'"
inductive_cases irq_step_threadE: "irq_step_thread s s'"
inductive_cases main_step_threadE: "main_step_thread s s'"
inductive_cases thread_stepE: "thread_step s s'"

section \<open>The lock\<close>

fun gdb_critical :: "gdb_pc \<Rightarrow> bool" where
  "gdb_critical (G_enter Es pkt h arg) \<longleftrightarrow> True"
| "gdb_critical (G_run Es pkt h arg p) \<longleftrightarrow> True"
| "gdb_critical G_unlock \<longleftrightarrow> True"
| "gdb_critical pc \<longleftrightarrow> False"

fun irq_critical :: "irq_pc \<Rightarrow> bool" where
  "irq_critical (I_enter b) \<longleftrightarrow> True"
| "irq_critical (I_run b p) \<longleftrightarrow> True"
| "irq_critical I_unlock \<longleftrightarrow> True"
| "irq_critical pc \<longleftrightarrow> False"

fun gdb_view :: "arm_core \<Rightarrow> gdb_pc \<Rightarrow> bool" where
  "gdb_view p (G_run Es pkt h arg q) \<longleftrightarrow> q = p"
| "gdb_view p pc \<longleftrightarrow> True"

fun irq_view :: "arm_core \<Rightarrow> irq_pc \<Rightarrow> bool" where
  "irq_view p (I_run b q) \<longleftrightarrow> q = p"
| "irq_view p pc \<longleftrightarrow> True"

text \<open>
  The owner of the lock is the thread in its critical section, and a thread that works on the processor
  still sees its current state.
\<close>

definition lock_inv :: "sim \<Rightarrow> bool" where
  "lock_inv s \<longleftrightarrow>
     (lock_owner s = Some Gdb_listener \<longleftrightarrow> gdb_critical (gdb_at s)) \<and>
     (lock_owner s = Some Irq_listener \<longleftrightarrow> irq_critical (irq_at s)) \<and>
     gdb_view (shared_arm s) (gdb_at s) \<and> irq_view (shared_arm s) (irq_at s)"

lemma lock_inv_start: "lock_inv (sim_start p heap tokens bytes)"
  by (simp add: lock_inv_def sim_start_def)

lemma gdb_view_outside: "\<not> gdb_critical pc \<Longrightarrow> gdb_view p pc"
  by (cases pc) simp_all

lemma irq_view_outside: "\<not> irq_critical pc \<Longrightarrow> irq_view p pc"
  by (cases pc) simp_all

lemma lock_inv_gdb: "gdb_step_thread s s' \<Longrightarrow> lock_inv s \<Longrightarrow> lock_inv s'"
proof (induction rule: gdb_step_thread.induct)
  case (gdb_packet s pkt ts data Es gdb req)
  then show ?case by (cases req) (auto simp: lock_inv_def)
next
  case (gdb_leave s Es pkt h arg p gdb)
  then have "\<not> irq_critical (irq_at s)" by (auto simp: lock_inv_def)
  with gdb_leave show ?case by (simp add: lock_inv_def irq_view_outside)
qed (auto simp: lock_inv_def)

lemma lock_inv_irq: "irq_step_thread s s' \<Longrightarrow> lock_inv s \<Longrightarrow> lock_inv s'"
proof (induction rule: irq_step_thread.induct)
  case (irq_leave s b p)
  then have "\<not> gdb_critical (gdb_at s)" by (auto simp: lock_inv_def)
  with irq_leave show ?case by (simp add: lock_inv_def gdb_view_outside)
qed (auto simp: lock_inv_def)

lemma freed_when_done:
  assumes "thread_run (sim_start p heap tokens bytes) s"
  shows "arm_freed s \<longrightarrow> gdb_at s = G_done"
  using assms
proof (induction rule: thread_run.induct)
  case begin_run
  show ?case by (simp add: sim_start_def)
next
  case (step_run s s')
  then show ?case by (elim thread_stepE gdb_step_threadE irq_step_threadE main_step_threadE) auto
qed

lemma lock_inv_main: "main_step_thread s s' \<Longrightarrow> lock_inv s \<Longrightarrow> lock_inv s'"
  by (induction rule: main_step_thread.induct) (simp_all add: lock_inv_def)

lemma lock_inv_step: "thread_step s s' \<Longrightarrow> lock_inv s \<Longrightarrow> lock_inv s'"
  by (erule thread_stepE) (blast intro: lock_inv_gdb lock_inv_irq lock_inv_main)+

lemma lock_inv_run: "thread_run s0 s \<Longrightarrow> lock_inv s0 \<Longrightarrow> lock_inv s"
  by (induction rule: thread_run.induct) (auto intro: lock_inv_step)

lemma run_gdb: "thread_run s0 s \<Longrightarrow> ended s = None \<Longrightarrow> gdb_step_thread s s' \<Longrightarrow> thread_run s0 s'"
  by (blast intro: step_run by_gdb)

lemma run_irq: "thread_run s0 s \<Longrightarrow> ended s = None \<Longrightarrow> irq_step_thread s s' \<Longrightarrow> thread_run s0 s'"
  by (blast intro: step_run by_irq)

lemma run_main: "thread_run s0 s \<Longrightarrow> ended s = None \<Longrightarrow> main_step_thread s s' \<Longrightarrow> thread_run s0 s'"
  by (blast intro: step_run by_main)

text \<open>A byte that arrives while the lock is free can be served at once.\<close>

lemma irq_served:
  "thread_run (sim_start p heap tokens [b])
     ((sim_start p heap tokens [b])\<lparr>shared_arm := arm_exception p b, irq_input := [], irq_at := I_read\<rparr>)"
proof -
  let ?s = "sim_start p heap tokens [b]"
  let ?s1 = "?s\<lparr>irq_at := I_read\<rparr>" and ?s2 = "?s\<lparr>irq_input := [], irq_at := I_lock b\<rparr>"
  let ?s3 = "?s2\<lparr>lock_owner := Some Irq_listener, irq_at := I_enter b\<rparr>"
  let ?s4 = "?s3\<lparr>irq_at := I_run b p\<rparr>"
  let ?s5 = "?s3\<lparr>shared_arm := arm_exception p b, irq_at := I_unlock\<rparr>"
  have r1: "thread_run ?s ?s1" using run_irq [OF begin_run _ irq_accept [of ?s]] by (simp add: sim_start_def)
  have r2: "thread_run ?s ?s2" using run_irq [OF r1 _ irq_read [of ?s1 b "[]"]] by (simp add: sim_start_def)
  have r3: "thread_run ?s ?s3" using run_irq [OF r2 _ irq_lock [of ?s2 b]] by (simp add: sim_start_def)
  have r4: "thread_run ?s ?s4" using run_irq [OF r3 _ irq_enter [of ?s3 b]] by (simp add: sim_start_def)
  have r5: "thread_run ?s ?s5" using run_irq [OF r4 _ irq_leave [of ?s4 b p]] by (simp add: sim_start_def)
  show ?thesis using run_irq [OF r5 _ irq_unlock [of ?s5]] by (simp add: sim_start_def)
qed

section \<open>Runs of whole requests\<close>

datatype request = Token token | Irq_byte u8

fun tokens_of :: "request list \<Rightarrow> token list" where
  "tokens_of [] = []"
| "tokens_of (Token t # rs) = t # tokens_of rs"
| "tokens_of (Irq_byte b # rs) = tokens_of rs"

fun irqs_of :: "request list \<Rightarrow> u8 list" where
  "irqs_of [] = []"
| "irqs_of (Token t # rs) = irqs_of rs"
| "irqs_of (Irq_byte b # rs) = b # irqs_of rs"

lemma requests_append [simp]:
  "tokens_of (rs @ rs') = tokens_of rs @ tokens_of rs'" "irqs_of (rs @ rs') = irqs_of rs @ irqs_of rs'"
  by (induction rs rule: tokens_of.induct) simp_all

inductive atomic_run :: "parser_data \<Rightarrow> request list \<Rightarrow> parser_data \<Rightarrow> bool" for d0 where
  atomic_start: "atomic_run d0 [] d0"
| atomic_token: "atomic_run d0 rs d \<Longrightarrow> scanner_action Es d t = Some (Inr d') \<Longrightarrow> atomic_run d0 (rs @ [Token t]) d'"
| atomic_irq: "atomic_run d0 rs d \<Longrightarrow> atomic_run d0 (rs @ [Irq_byte b]) (irq_action d b)"

lemma confined_atomic_run: "atomic_run d0 rs d \<Longrightarrow> confined (gdb_arm (pd_gdb d0)) (gdb_arm (pd_gdb d))"
  by (induction rule: atomic_run.induct)
    (auto simp: irq_action_def intro: confined_trans dest: confined_scanner_action)

lemma buffer_atomic_run:
  "atomic_run d0 rs d \<Longrightarrow> length (pd_buffer d0) < MAX_ERROR_SIZE \<Longrightarrow> length (pd_buffer d) < MAX_ERROR_SIZE"
  by (induction rule: atomic_run.induct) (auto simp: irq_action_def dest: buffer_scanner_action)

text \<open>The request of a packet that the gdb thread has acknowledged and not finished.\<close>

fun open_request :: "gdb_pc \<Rightarrow> ((nat \<Rightarrow> cenv) \<times> u8 list \<times> gdb_handler \<times> u8 list) option" where
  "open_request (G_lock Es pkt h arg) = Some (Es, pkt, h, arg)"
| "open_request (G_enter Es pkt h arg) = Some (Es, pkt, h, arg)"
| "open_request (G_run Es pkt h arg p) = Some (Es, pkt, h, arg)"
| "open_request pc = None"

fun irq_pending :: "irq_pc \<Rightarrow> u8 list" where
  "irq_pending (I_lock b) = [b]"
| "irq_pending (I_enter b) = [b]"
| "irq_pending (I_run b p) = [b]"
| "irq_pending pc = []"

definition gdb_pending :: "gdb_pc \<Rightarrow> token list" where
  "gdb_pending pc = (case open_request pc of None \<Rightarrow> [] | Some (Es, pkt, h, arg) \<Rightarrow> [Packet pkt])"

text \<open>
  \<open>represents d s\<close>: the state \<open>s\<close> of the threads is the state \<open>d\<close> between two requests or, while a
  packet is open, \<open>d\<close> with what precedes the lock already done.
\<close>

definition represents :: "parser_data \<Rightarrow> sim \<Rightarrow> bool" where
  "represents d s \<longleftrightarrow>
     gdb_arm (pd_gdb d) = shared_arm s \<and>
     (case open_request (gdb_at s) of
        None \<Rightarrow> with_arm (shared_arm s) (gdb_state s) = d
      | Some (Es, pkt, h, arg) \<Rightarrow>
          packet_request (Es 0) (pd_gdb (handle_error d)) pkt =
            Inr (pd_gdb (with_arm (shared_arm s) (gdb_state s)), Some (h, arg)) \<and>
          pd_buffer (gdb_state s) = [])"

lemma with_arm_simps [simp]:
  "gdb_arm (pd_gdb (with_arm p d)) = p" "pd_buffer (with_arm p d) = pd_buffer d"
  "with_arm p (with_arm q d) = with_arm p d" "with_arm (gdb_arm (pd_gdb d)) d = d"
  "pd_gdb (with_arm p d) = (pd_gdb d)\<lparr>gdb_arm := p\<rparr>"
  "with_arm p (d\<lparr>pd_gdb := g\<rparr>) = d\<lparr>pd_gdb := g\<lparr>gdb_arm := p\<rparr>\<rparr>"
  "(with_arm p d)\<lparr>pd_gdb := g\<rparr> = d\<lparr>pd_gdb := g\<rparr>"
  "(with_arm p d)\<lparr>pd_buffer := b\<rparr> = with_arm p (d\<lparr>pd_buffer := b\<rparr>)"
  by (simp_all add: with_arm_def)

lemma with_arm_handle_error: "handle_error (with_arm p d) = with_arm p (handle_error d)"
  by (simp add: handle_error_def with_arm_def gdb_require_retransmission_def rio_out_def)

lemma with_arm_add_character: "add_character_to_error (with_arm p d) c = with_arm p (add_character_to_error d c)"
  by (simp add: add_character_to_error_def Let_def with_arm_handle_error)

lemma with_arm_transmit: "gdb_transmit_packet (g\<lparr>gdb_arm := p\<rparr>) = (gdb_transmit_packet g)\<lparr>gdb_arm := p\<rparr>"
  by (simp add: gdb_transmit_packet_def rio_out_def)

lemma with_arm_action:
  "\<not> is_packet_token t \<Longrightarrow> scanner_action Es d t = Some (Inr d') \<Longrightarrow>
   scanner_action Es (with_arm p d) t = Some (Inr (with_arm p d'))"
  by (cases t) (auto simp: scanner_action_def with_arm_handle_error with_arm_add_character with_arm_transmit
      Let_def)

lemma packet_request_arm:
  "packet_request E g pkt = Inr (g', req) \<Longrightarrow> packet_request E (g\<lparr>gdb_arm := p\<rparr>) pkt = Inr (g'\<lparr>gdb_arm := p\<rparr>, req)"
  by (auto simp: packet_request_def Let_def gdb_send_ack_def rio_out_def gdb_require_retransmission_def
      send_literal literal_reply_def sent_packet_def split: if_splits option.splits)

lemma packet_analysis_request:
  "gdb_packet_analysis Es g pkt =
     (case packet_request (Es 0) g pkt of
        Inl e \<Rightarrow> Some (Inl e)
      | Inr (g', None) \<Rightarrow> Some (Inr g')
      | Inr (g', Some (h, arg)) \<Rightarrow> run_handler Es h g' arg)"
  by (auto simp: gdb_packet_analysis_def packet_request_def Let_def send_literal split: option.splits)

lemma packet_action:
  "packet_request (Es 0) (pd_gdb (handle_error d)) pkt = Inr (g', req) \<Longrightarrow>
   (case req of None \<Rightarrow> Some (Inr g') | Some (h, arg) \<Rightarrow> run_handler Es h g' arg) = Some (Inr g) \<Longrightarrow>
   scanner_action Es d (Packet pkt) = Some (Inr ((handle_error d)\<lparr>pd_gdb := g\<rparr>))"
  by (auto simp: scanner_action_def packet_analysis_request Let_def split: option.splits)

lemma irq_action_with_arm: "irq_action d b = with_arm (arm_exception (gdb_arm (pd_gdb d)) b) d"
  by (simp add: irq_action_def with_arm_def)

text \<open>Every step of the threads is no request, or the one whose effect it completes.\<close>

lemma represents_irq:
  assumes "represents d s"
  shows "represents (with_arm p d) (s\<lparr>shared_arm := p, irq_at := pc\<rparr>)"
proof (cases "open_request (gdb_at s)")
  case None
  then show ?thesis using assms by (auto simp: represents_def)
next
  case (Some r)
  then show ?thesis using assms
    by (auto simp: represents_def with_arm_handle_error dest: packet_request_arm [where p = p])
qed

lemma represents_cong:
  "represents d s \<Longrightarrow> shared_arm s' = shared_arm s \<Longrightarrow> gdb_state s' = gdb_state s \<Longrightarrow>
   open_request (gdb_at s') = open_request (gdb_at s) \<Longrightarrow> represents d s'"
  unfolding represents_def by metis

definition linearized :: "parser_data \<Rightarrow> token list \<Rightarrow> u8 list \<Rightarrow> sim \<Rightarrow> bool" where
  "linearized d0 tokens bytes s \<longleftrightarrow>
     (\<exists>rs d. atomic_run d0 rs d \<and> represents d s \<and>
        tokens = tokens_of rs @ gdb_pending (gdb_at s) @ gdb_tokens s \<and>
        bytes = irqs_of rs @ irq_pending (irq_at s) @ irq_input s)"

lemma linearized_silent:
  assumes "linearized d0 tokens bytes s"
    and "shared_arm s' = shared_arm s" "gdb_state s' = gdb_state s"
    and "open_request (gdb_at s') = open_request (gdb_at s)" "gdb_tokens s' = gdb_tokens s"
    and "irq_pending (irq_at s') @ irq_input s' = irq_pending (irq_at s) @ irq_input s"
  shows "linearized d0 tokens bytes s'"
  using assms unfolding linearized_def gdb_pending_def by (metis represents_cong)

lemma linearized_irq:
  assumes "irq_step_thread s s'" and "lock_inv s" and "linearized d0 tokens bytes s"
  shows "linearized d0 tokens bytes s'"
  using assms
proof (induction rule: irq_step_thread.induct)
  case (irq_leave s b p)
  then obtain rs d where r: "atomic_run d0 rs d" "represents d s"
    "tokens = tokens_of rs @ gdb_pending (gdb_at s) @ gdb_tokens s" "bytes = irqs_of rs @ [b] @ irq_input s"
    by (auto simp: linearized_def)
  have p: "p = gdb_arm (pd_gdb d)" using irq_leave r(2) by (simp add: lock_inv_def represents_def)
  have "atomic_run d0 (rs @ [Irq_byte b]) (with_arm (arm_exception p b) d)"
    using atomic_irq [OF r(1)] p by (simp add: irq_action_with_arm)
  then show ?case using represents_irq [OF r(2)] r(3,4) unfolding linearized_def
    by (intro exI [of _ "rs @ [Irq_byte b]"] exI [of _ "with_arm (arm_exception p b) d"]) simp
qed (auto elim!: linearized_silent)

lemma linearized_gdb:
  assumes "gdb_step_thread s s'" and "lock_inv s" and "linearized d0 tokens bytes s"
  shows "linearized d0 tokens bytes s'"
  using assms
proof (induction rule: gdb_step_thread.induct)
  case (gdb_token s t ts Es data)
  then obtain rs d where r: "atomic_run d0 rs d" "represents d s" "tokens = tokens_of rs @ t # ts"
    "bytes = irqs_of rs @ irq_pending (irq_at s) @ irq_input s"
    by (auto simp: linearized_def gdb_pending_def)
  have "d = with_arm (shared_arm s) (gdb_state s)" using r(2) gdb_token(1) by (simp add: represents_def)
  then have "atomic_run d0 (rs @ [Token t]) (with_arm (shared_arm s) data)"
    using atomic_token [OF r(1)] with_arm_action gdb_token(3,4) by blast
  then show ?case using r(3,4) unfolding linearized_def
    by (intro exI [of _ "rs @ [Token t]"] exI [of _ "with_arm (shared_arm s) data"])
      (simp add: represents_def gdb_pending_def)
next
  case (gdb_packet s pkt ts data Es gdb req)
  let ?p = "shared_arm s"
  obtain rs d where r: "atomic_run d0 rs d" "represents d s" "tokens = tokens_of rs @ Packet pkt # ts"
    "bytes = irqs_of rs @ irq_pending (irq_at s) @ irq_input s"
    using gdb_packet by (auto simp: linearized_def gdb_pending_def)
  have d: "d = with_arm ?p (gdb_state s)" using r(2) gdb_packet(1) by (simp add: represents_def)
  have req: "packet_request (Es 0) (pd_gdb (handle_error d)) pkt = Inr (gdb\<lparr>gdb_arm := ?p\<rparr>, req)"
    using packet_request_arm [OF gdb_packet(4)] by (simp add: d gdb_packet(3) with_arm_handle_error)
  show ?case
  proof (cases req)
    case None
    then have "scanner_action Es d (Packet pkt) = Some (Inr ((handle_error d)\<lparr>pd_gdb := gdb\<lparr>gdb_arm := ?p\<rparr>\<rparr>))"
      using packet_action [of Es, OF req] by simp
    then have "atomic_run d0 (rs @ [Token (Packet pkt)]) ((handle_error d)\<lparr>pd_gdb := gdb\<lparr>gdb_arm := ?p\<rparr>\<rparr>)"
      using atomic_token [OF r(1)] by blast
    then show ?thesis using r(3,4) None unfolding linearized_def
      by (intro exI [of _ "rs @ [Token (Packet pkt)]"]
          exI [of _ "(handle_error d)\<lparr>pd_gdb := gdb\<lparr>gdb_arm := ?p\<rparr>\<rparr>"])
        (simp add: represents_def gdb_pending_def gdb_packet(3) d with_arm_handle_error)
  next
    case (Some r')
    then obtain h arg where "req = Some (h, arg)" by fastforce
    then show ?thesis using r req unfolding linearized_def
      by (intro exI [of _ rs] exI [of _ d])
        (simp add: represents_def gdb_pending_def gdb_packet(3) d with_arm_handle_error)
  qed
next
  case (gdb_leave s Es pkt h arg p gdb)
  then obtain rs d where r: "atomic_run d0 rs d" "represents d s" "tokens = tokens_of rs @ Packet pkt # gdb_tokens s"
    "bytes = irqs_of rs @ irq_pending (irq_at s) @ irq_input s"
    by (auto simp: linearized_def gdb_pending_def)
  have p: "p = shared_arm s" using gdb_leave by (simp add: lock_inv_def)
  have req: "packet_request (Es 0) (pd_gdb (handle_error d)) pkt =
      Inr (pd_gdb (with_arm p (gdb_state s)), Some (h, arg))" and b: "pd_buffer (gdb_state s) = []"
    using r(2) gdb_leave(1) p by (simp_all add: represents_def)
  have "scanner_action Es d (Packet pkt) = Some (Inr ((handle_error d)\<lparr>pd_gdb := gdb\<rparr>))"
    using packet_action [of Es, OF req] gdb_leave(2) by simp
  moreover have "(handle_error d)\<lparr>pd_gdb := gdb\<rparr> = (gdb_state s)\<lparr>pd_gdb := gdb\<rparr>"
    using b buffer_handle_error [of d] by (metis parser_data.equality parser_data.ext_inject parser_data.surjective
        parser_data.update_convs(1) old.unit.exhaust)
  ultimately have "atomic_run d0 (rs @ [Token (Packet pkt)]) ((gdb_state s)\<lparr>pd_gdb := gdb\<rparr>)"
    using atomic_token [OF r(1)] by metis
  then show ?case using r(3,4) unfolding linearized_def
    by (intro exI [of _ "rs @ [Token (Packet pkt)]"] exI [of _ "(gdb_state s)\<lparr>pd_gdb := gdb\<rparr>"])
      (simp add: represents_def gdb_pending_def)
qed (auto elim!: linearized_silent)

lemma linearized_main: "main_step_thread s s' \<Longrightarrow> linearized d0 tokens bytes s \<Longrightarrow> linearized d0 tokens bytes s'"
  by (induction rule: main_step_thread.induct) (auto elim!: linearized_silent)

lemma linearized_step:
  "thread_step s s' \<Longrightarrow> lock_inv s \<Longrightarrow> linearized d0 tokens bytes s \<Longrightarrow> linearized d0 tokens bytes s'"
  by (erule thread_stepE) (blast intro: linearized_gdb linearized_irq linearized_main)+

lemma linearized_run:
  assumes "thread_run (sim_start p heap tokens bytes) s"
  shows "lock_inv s \<and> linearized (gdb_scanner_start p heap) tokens bytes s"
  using assms
proof (induction rule: thread_run.induct)
  case begin_run
  have "represents (gdb_scanner_start p heap) (sim_start p heap tokens bytes)"
    by (simp add: represents_def sim_start_def gdb_scanner_start_def gdb_init_data_def with_arm_def)
  then have "linearized (gdb_scanner_start p heap) tokens bytes (sim_start p heap tokens bytes)"
    unfolding linearized_def
    by (intro exI [of _ "[]"] exI [of _ "gdb_scanner_start p heap"])
      (simp add: atomic_start, simp add: sim_start_def gdb_pending_def)
  then show ?case by (simp add: lock_inv_start)
next
  case (step_run s s')
  then show ?case using linearized_step lock_inv_step by blast
qed

section \<open>Progress\<close>

lemma run_handler_returns: "h \<noteq> Cont \<Longrightarrow> run_handler Es h gdb arg \<noteq> None"
  by (cases h) (simp_all add: run_handler_def)

text \<open>The only computation under the lock that may not end is the command to continue.\<close>

lemma gdb_critical_progress:
  assumes "gdb_critical (gdb_at s)"
    and "\<And>Es pkt arg p. gdb_at s = G_run Es pkt Cont arg p \<Longrightarrow>
           cont Es (pd_gdb (with_arm p (gdb_state s))) arg \<noteq> None"
  shows "\<exists>s'. gdb_step_thread s s'"
proof (cases "gdb_at s")
  case (G_run Es pkt h arg p)
  then have "run_handler Es h (pd_gdb (with_arm p (gdb_state s))) arg \<noteq> None"
    using assms(2) run_handler_returns by (cases "h = Cont") (auto simp: run_handler_def)
  then obtain r where r: "run_handler Es h (pd_gdb (with_arm p (gdb_state s))) arg = Some r" by blast
  show ?thesis
  proof (cases r)
    case (Inl e)
    then show ?thesis using gdb_exit [OF G_run] r by blast
  next
    case (Inr gdb)
    then show ?thesis using gdb_leave [OF G_run, of gdb] gdb_leave_pipe [OF G_run, of gdb] r by blast
  qed
next
  case (G_enter Es pkt h arg)
  then show ?thesis using gdb_enter by blast
next
  case G_unlock
  then show ?thesis using gdb_unlock by blast
qed (use assms(1) in auto)

text \<open>The other listener can only be held up by the lock.\<close>

lemma irq_moves: "(\<And>b. irq_at s \<noteq> I_lock b) \<Longrightarrow> \<exists>s'. irq_step_thread s s'"
proof (cases "irq_at s")
  case (I_enter b)
  then show ?thesis using irq_enter [OF I_enter] irq_freed [of s b] by (cases "arm_freed s") blast+
next
  case (I_run b p)
  then show ?thesis using irq_leave [OF I_run] irq_freed [of s b p] by (cases "arm_freed s") blast+
qed (blast intro: irq_accept irq_close irq_unlock)+

lemma irq_leaves:
  assumes "irq_critical (irq_at s)" "\<not> arm_freed s"
  shows "\<exists>k \<le> 3. \<exists>s'. (irq_step_thread ^^ k) s s' \<and> (\<forall>s''. (irq_step_thread ^^ k) s s'' \<longrightarrow> s'' = s') \<and>
           lock_owner s' = None \<and> gdb_at s' = gdb_at s"
proof -
  have unlock: "irq_at s = I_unlock \<Longrightarrow> irq_step_thread s s' \<longleftrightarrow> s' = s\<lparr>lock_owner := None, irq_at := I_read\<rparr>"
    for s s' by (auto elim: irq_step_threadE intro: irq_unlock)
  have leave: "irq_at s = I_run b p \<Longrightarrow> \<not> arm_freed s \<Longrightarrow>
      irq_step_thread s s' \<longleftrightarrow> s' = s\<lparr>shared_arm := arm_exception p b, irq_at := I_unlock\<rparr>"
    for s s' b p by (auto elim: irq_step_threadE intro: irq_leave)
  have enter: "irq_at s = I_enter b \<Longrightarrow> \<not> arm_freed s \<Longrightarrow> irq_step_thread s s' \<longleftrightarrow> s' = s\<lparr>irq_at := I_run b (shared_arm s)\<rparr>"
    for s s' b by (auto elim: irq_step_threadE intro: irq_enter)
  show ?thesis
  proof (cases "irq_at s")
    case (I_enter b)
    then show ?thesis
      using assms(2) by (intro exI [of _ 3]) (simp add: numeral_3_eq_3 relcompp_apply enter leave unlock)
  next
    case (I_run b p)
    then show ?thesis
      using assms(2) by (intro exI [of _ 2]) (simp add: numeral_2_eq_2 relcompp_apply leave unlock)
  next
    case I_unlock
    then show ?thesis by (intro exI [of _ 1]) (simp add: relcompp_apply unlock)
  qed (use assms in auto)
qed

text \<open>
  A wait for the lock: a run of the other threads, with the number of its steps that begin while the lock is taken. Each
  interrupt byte still to come can take the lock once and holds it for three steps.
\<close>

inductive waiting :: "sim \<Rightarrow> nat \<Rightarrow> sim \<Rightarrow> bool" for s where
  begin_wait: "waiting s 0 s"
| wait_step: "waiting s n t \<Longrightarrow> ended t = None \<Longrightarrow> irq_step_thread t t' \<or> main_step_thread t t' \<Longrightarrow>
    waiting s (if lock_owner t = None then n else Suc n) t'"

fun held_steps :: "irq_pc \<Rightarrow> nat" where
  "held_steps (I_lock b) = 3"
| "held_steps (I_enter b) = 3"
| "held_steps (I_run b p) = 2"
| "held_steps I_unlock = 1"
| "held_steps pc = 0"

lemma waiting_bound:
  assumes "waiting s n s'" "lock_inv s" "gdb_at s = G_lock Es pkt h arg" "\<not> arm_freed s" "main_at s = M_join"
  shows "n + held_steps (irq_at s') + 3 * length (irq_input s') \<le> held_steps (irq_at s) + 3 * length (irq_input s) \<and>
    gdb_at s' = gdb_at s \<and> \<not> arm_freed s' \<and> main_at s' = M_join \<and> lock_inv s'"
  using assms
proof (induction rule: waiting.induct)
  case (wait_step n t t')
  then have t: "n + held_steps (irq_at t) + 3 * length (irq_input t) \<le> held_steps (irq_at s) + 3 * length (irq_input s)"
    "gdb_at t = G_lock Es pkt h arg" "\<not> arm_freed t" "main_at t = M_join" "lock_inv t" by auto
  then have irq: "irq_step_thread t t'" using wait_step(3) by (auto elim: main_step_threadE)
  moreover have "lock_owner t \<noteq> None \<longleftrightarrow> irq_critical (irq_at t)"
    using t(2,5) by (cases "lock_owner t"; cases "the (lock_owner t)") (auto simp: lock_inv_def)
  moreover note lock_inv_irq [OF irq t(5)]
  ultimately show ?case using t wait_step(6) by (auto elim!: irq_step_threadE)
qed simp

lemma main_joins_last:
  assumes "thread_run (sim_start p heap tokens bytes) s"
  shows "main_at s = M_return \<longrightarrow> gdb_at s = G_done"
  using assms
proof (induction rule: thread_run.induct)
  case begin_run
  show ?case by (simp add: sim_start_def)
next
  case (step_run s s')
  then show ?case by (elim thread_stepE gdb_step_threadE irq_step_threadE main_step_threadE) auto
qed

text \<open>A run in which the gdb thread comes to the lock while the other listener holds it.\<close>

lemma lock_contended:
  assumes "pkt = ascii ''$?#3f''" "s0 = sim_start p heap [Packet pkt] [b]"
  shows "\<exists>s Es arg. thread_run s0 s \<and> ended s = None \<and> gdb_at s = G_lock Es pkt Reason arg \<and> irq_at s = I_enter b \<and>
    irq_input s = []"
proof -
  let ?Es = "\<lambda>_ :: nat. x86_env 0" and ?arg = "[0, 51, 102] :: u8 list"
  let ?d = "handle_error (gdb_state s0)"
  let ?g = "gdb_send_ack (pd_gdb ?d)"
  let ?s1 = "s0\<lparr>gdb_at := G_scan\<rparr>"
  let ?s2 = "s0\<lparr>gdb_state := ?d\<lparr>pd_gdb := ?g\<rparr>, gdb_tokens := [], gdb_at := G_lock ?Es pkt Reason ?arg\<rparr>"
  let ?s3 = "?s2\<lparr>irq_at := I_read\<rparr>" and ?s4 = "?s2\<lparr>irq_input := [], irq_at := I_lock b\<rparr>"
  let ?s5 = "?s4\<lparr>lock_owner := Some Irq_listener, irq_at := I_enter b\<rparr>"
  have "scan_hex None [51, 102] = Some (0x3f, [])" "handler 63 = Some Reason" by code_simp+
  then have req: "packet_request (x86_env 0) g pkt = Inr (gdb_send_ack g, Some (Reason, ?arg))" for g
    by (simp add: assms(1) packet_request_def ascii_def Let_def)
  have acc: "accepted (pd_gdb (gdb_state s0)) g" for g
    by (simp add: accepted_def assms(2) sim_start_def gdb_scanner_start_def gdb_init_data_def)
  have r1: "thread_run s0 ?s1" using run_gdb [OF begin_run _ gdb_accept [of s0]] by (simp add: assms(2) sim_start_def)
  have r2: "thread_run s0 ?s2"
    using run_gdb [OF r1 _ gdb_packet [of ?s1 pkt "[]" ?d ?Es ?g "Some (Reason, ?arg)"]] req acc
    by (simp add: assms(2) sim_start_def)
  have r3: "thread_run s0 ?s3" using run_irq [OF r2 _ irq_accept [of ?s2]] by (simp add: assms(2) sim_start_def)
  have r4: "thread_run s0 ?s4" using run_irq [OF r3 _ irq_read [of ?s3 b "[]"]] by (simp add: assms(2) sim_start_def)
  have "thread_run s0 ?s5" using run_irq [OF r4 _ irq_lock [of ?s4 b]] by (simp add: assms(2) sim_start_def)
  then show ?thesis by (intro exI [of _ ?s5] exI [of _ ?Es] exI [of _ ?arg]) (simp add: assms(2) sim_start_def)
qed

section \<open>A program that loops\<close>

text \<open>
  A processor at address 0 of a big-endian memory that holds a branch to itself (\<^verbatim>\<open>b .\<close>) there. A step
  only counts a cycle, so that the command to continue never returns.
\<close>

definition looping :: "u32 \<Rightarrow> arm_core" where
  "looping c = \<lparr>cycle_count = c, arm_reg = (\<lambda>_. 0)(16 := 0x13),
     arm_mem = memory_create ((\<lambda>_. 0)(0 := 0xEA, 1 := 0xFF, 2 := 0xFF, 3 := 0xFE)) 0x20000 True\<rparr>"

lemma looping_fetch: "arm_read_word (looping c) (arm_read_register (looping c) 15 - 4) v = (0, 0xEAFFFFFE)"
  by code_simp

lemma looping_word: "memory_read_word (arm_mem (looping c)) 0 v = (0, 0xEAFFFFFE)"
  by code_simp

lemma looping_registers: "read_register (arm_reg (looping c)) 15 = 0" "arm_read_cpsr (looping c) = 0x13"
  by code_simp+

lemma looping_step: "arm_step E (looping c) = Inr (0, looping (c + 1))"
proof -
  let ?q = "(looping (c + 1))\<lparr>arm_reg := (arm_reg (looping (c + 1)))(15 := 4)\<rparr>"
  have "arm_fetch (looping c) old = (0, 0xEAFFFFFE, ?q)" for old
    by (subst arm_fetch_unfold)
      (simp_all add: looping_registers looping_word Let_def write_register_def, simp add: looping_def)
  moreover have "arm_read_register ?q 15 = 8" by code_simp
  then have "arm_branch ?q 0xEAFFFFFE = (0, looping (c + 1))"
    by (simp add: arm_branch_def sign_extending_def arm_write_register_def write_register_def looping_def Let_def
        fun_eq_iff)
  moreover have "field (0xEAFFFFFE :: u32) 7 25 = BRANCH" "condition_passed (field 0xEAFFFFFE 0xF 28) n z cc v" for n z cc v
    by code_simp+
  ultimately show ?thesis
    by (simp add: arm_step_def arm_execute_instruction_def arm_dispatch_def Let_def looping_registers)
qed

lemma cont_loop_diverges: "gdb_arm gdb = looping c \<Longrightarrow> cont_loop Es v gdb = None"
proof -
  have "gdb_arm gdb \<noteq> looping c" if "cont_loop Es v gdb = Some y" for y c
  proof (rule cont_loop.raw_induct [of "\<lambda>Es v gdb y. \<forall>c. gdb_arm gdb \<noteq> looping c",
        OF _ that, THEN spec], goal_cases)
    case (1 loop Es v gdb y)
    show ?case
    proof (rule allI, rule notI)
      fix c
      assume g: "gdb_arm gdb = looping c"
      have "loop (\<lambda>n. Es (Suc n)) 0xEAFFFFFE (gdb\<lparr>gdb_arm := looping (c + 1), target_exception := 0\<rparr>) = Some y"
        using 1(2) by (simp add: g looping_fetch looping_step Let_def)
      then show False using 1(1) by fastforce
    qed
  qed
  then show "gdb_arm gdb = looping c \<Longrightarrow> cont_loop Es v gdb = None" by (cases "cont_loop Es v gdb") auto
qed

section \<open>Properties\<close>

text \<open>
  C6: the threads work on the processor one at a time. In every state the three threads can reach, the
  two listeners are not both between taking and releasing the lock, and the one that is sees
  the current state of the processor until it leaves its result.
\<close>

theorem mutual_exclusion:
  assumes "thread_run (sim_start p heap tokens bytes) s"
  shows "\<not> (gdb_critical (gdb_at s) \<and> irq_critical (irq_at s)) \<and>
         (\<forall>Es pkt h arg q. gdb_at s = G_run Es pkt h arg q \<longrightarrow> q = shared_arm s) \<and>
         (\<forall>b q. irq_at s = I_run b q \<longrightarrow> q = shared_arm s)"
  using linearized_run [OF assms] by (auto simp: lock_inv_def)

theorem mutual_exclusion_witness:
  "\<exists>s. thread_run (sim_start (looping 0) [] [] [7]) s \<and> irq_at s = I_lock 7 \<and>
     \<not> (gdb_critical (gdb_at s) \<and> irq_critical (irq_at s))"
proof -
  let ?s = "sim_start (looping 0) [] [] [7]"
  let ?t = "?s\<lparr>irq_at := I_read\<rparr>" and ?u = "?s\<lparr>irq_input := [], irq_at := I_lock 7\<rparr>"
  have "thread_step ?s ?t" by (rule by_irq [OF _ irq_accept]) (simp_all add: sim_start_def)
  moreover have "thread_step ?t ?u"
    using by_irq [OF _ irq_read [of ?t 7 "[]"]] by (simp add: sim_start_def)
  ultimately have r: "thread_run ?s ?u" by (blast intro: begin_run step_run)
  show ?thesis using r mutual_exclusion [OF r] by (intro exI [of _ ?u]) simp
qed

text \<open>
  C5: the threads run whole requests. Whatever the interleaving, what they have done is what some sequence
  of whole requests does, one after the other: the tokens and the interrupt bytes it consists of are those read so
  far, each kind in its order, except for the one each thread may still be working on. Between
  two packets the state is that of the sequence.
\<close>

theorem threads_linearizable:
  assumes "thread_run (sim_start p heap tokens bytes) s"
  shows "\<exists>rs d. atomic_run (gdb_scanner_start p heap) rs d \<and> gdb_arm (pd_gdb d) = shared_arm s \<and>
           tokens = tokens_of rs @ gdb_pending (gdb_at s) @ gdb_tokens s \<and>
           bytes = irqs_of rs @ irq_pending (irq_at s) @ irq_input s \<and>
           (open_request (gdb_at s) = None \<longrightarrow> with_arm (shared_arm s) (gdb_state s) = d)"
  using linearized_run [OF assms] unfolding linearized_def represents_def by fastforce

theorem threads_linearizable_witness:
  "\<exists>s rs d. thread_run (sim_start (looping 0) [] [Ack] []) s \<and> gdb_at s = G_scan \<and>
     atomic_run (gdb_scanner_start (looping 0) []) rs d \<and> with_arm (shared_arm s) (gdb_state s) = d"
proof -
  let ?s = "sim_start (looping 0) [] [Ack] []"
  have "thread_step ?s (?s\<lparr>gdb_at := G_scan\<rparr>)" by (rule by_gdb [OF _ gdb_accept]) (simp_all add: sim_start_def)
  then have r: "thread_run ?s (?s\<lparr>gdb_at := G_scan\<rparr>)" by (blast intro: begin_run step_run)
  show ?thesis using r threads_linearizable [OF r] by fastforce
qed

text \<open>
  C23: the buffer in which the scanner collects stray bytes. In every reachable state it holds fewer than the
  1024 bytes of its array, and so it does after the next byte: that byte and the zero that ends
  the message always fit.
\<close>

theorem error_buffer_in_bounds:
  assumes "thread_run (sim_start p heap tokens bytes) s"
  shows "length (pd_buffer (gdb_state s)) < MAX_ERROR_SIZE \<and>
         length (pd_buffer (add_character_to_error (gdb_state s) c)) < MAX_ERROR_SIZE"
proof -
  obtain rs d where "atomic_run (gdb_scanner_start p heap) rs d" and d: "represents d s"
    using linearized_run [OF assms] by (auto simp: linearized_def)
  then have "length (pd_buffer d) < MAX_ERROR_SIZE"
    using buffer_atomic_run by (fastforce simp: gdb_scanner_start_def)
  then have "length (pd_buffer (gdb_state s)) < MAX_ERROR_SIZE"
    using d by (auto simp: represents_def split: option.splits)
  then show ?thesis by (simp add: add_character_to_error_def Let_def)
qed

theorem error_buffer_in_bounds_witness:
  "length (pd_buffer (add_character_to_error (gdb_state (sim_start (looping 0) [] [] [])) 7)) < 1024"
  using error_buffer_in_bounds [OF begin_run] by blast

text \<open>
  C24: progress. When the gdb thread waits for the lock and the other listener holds it, that listener frees it within three steps,
  which are the only ones it can take. While the gdb thread waits, at most three steps pass with the lock taken for each
  interrupt byte still to come and one that may have come, however the other threads run, and whenever the lock is free the gdb
  thread can take it. And as long as the process runs, some thread can take a step, unless an interrupt
  waits for a command to continue that never returns.
\<close>

theorem threads_progress:
  assumes "thread_run (sim_start p heap tokens bytes) s" and "ended s = None"
  shows "(\<forall>Es pkt h arg. gdb_at s = G_lock Es pkt h arg \<longrightarrow>
            (\<exists>k \<le> 3. \<exists>s'. (irq_step_thread ^^ k) s s' \<and> (\<forall>s''. (irq_step_thread ^^ k) s s'' \<longrightarrow> s'' = s') \<and>
               lock_owner s' = None \<and> gdb_at s' = G_lock Es pkt h arg) \<and>
            (\<forall>n s'. waiting s n s' \<longrightarrow>
               n \<le> 3 * (length (irq_input s) + 1) \<and>
               (lock_owner s' = None \<longrightarrow>
                  (\<exists>s''. gdb_step_thread s' s'' \<and> lock_owner s'' = Some Gdb_listener)))) \<and>
         ((\<exists>s'. thread_step s s') \<or>
          (\<exists>Es pkt arg q b. gdb_at s = G_run Es pkt Cont arg q \<and>
             cont Es (pd_gdb (with_arm q (gdb_state s))) arg = None \<and> irq_at s = I_lock b))"
proof -
  have inv: "lock_inv s" using linearized_run [OF assms(1)] by simp
  note freed = freed_when_done [OF assms(1)]
  have "\<exists>k \<le> 3. \<exists>s'. (irq_step_thread ^^ k) s s' \<and> (\<forall>s''. (irq_step_thread ^^ k) s s'' \<longrightarrow> s'' = s') \<and>
      lock_owner s' = None \<and> gdb_at s' = gdb_at s" if "gdb_at s = G_lock Es pkt h arg" for Es pkt h arg
  proof (cases "irq_critical (irq_at s)")
    case False
    then have "lock_owner s \<noteq> Some Gdb_listener" "lock_owner s \<noteq> Some Irq_listener"
      using inv that by (simp_all add: lock_inv_def)
    then have "lock_owner s = None" by (metis not_None_eq thread.exhaust)
    then show ?thesis by (intro exI [of _ 0]) simp
  next
    case True
    moreover have "\<not> arm_freed s" using freed that by auto
    ultimately show ?thesis by (rule irq_leaves)
  qed
  moreover have "n \<le> 3 * (length (irq_input s) + 1) \<and>
      (lock_owner s' = None \<longrightarrow> (\<exists>s''. gdb_step_thread s' s'' \<and> lock_owner s'' = Some Gdb_listener))"
    if at: "gdb_at s = G_lock Es pkt h arg" and w: "waiting s n s'" for Es pkt h arg n s'
  proof -
    have "main_at s = M_join" using main_joins_last [OF assms(1)] at by (cases "main_at s") auto
    moreover have "\<not> arm_freed s" using freed at by auto
    ultimately have b: "n + held_steps (irq_at s') + 3 * length (irq_input s') \<le> held_steps (irq_at s) + 3 * length (irq_input s)"
      "gdb_at s' = G_lock Es pkt h arg"
      using waiting_bound [OF w inv at] at by auto
    have "held_steps (irq_at s) \<le> 3" by (cases "irq_at s") simp_all
    then have "n \<le> 3 * (length (irq_input s) + 1)" using b(1) by simp
    moreover note b(2)
    then have "lock_owner s' = None \<Longrightarrow> gdb_step_thread s' (s'\<lparr>lock_owner := Some Gdb_listener, gdb_at := G_enter Es pkt h arg\<rparr>)"
      by (rule gdb_lock)
    ultimately show ?thesis by fastforce
  qed
  moreover have "(\<exists>s'. thread_step s s') \<or>
      (\<exists>Es pkt arg q b. gdb_at s = G_run Es pkt Cont arg q \<and>
         cont Es (pd_gdb (with_arm q (gdb_state s))) arg = None \<and> irq_at s = I_lock b)"
  proof (cases "irq_at s")
    case (I_lock b)
    show ?thesis
    proof (cases "lock_owner s")
      case None
      then show ?thesis using by_irq [OF assms(2) irq_lock [OF I_lock]] by blast
    next
      case (Some t)
      then have "gdb_critical (gdb_at s)" using inv I_lock by (cases t) (auto simp: lock_inv_def)
      then show ?thesis using gdb_critical_progress [of s] by_gdb [OF assms(2)] I_lock by metis
    qed
  qed (use irq_moves [of s] by_irq [OF assms(2)] in auto)
  ultimately show ?thesis by simp
qed

theorem threads_progress_witness:
  "\<exists>s. thread_run (sim_start (looping 0) [] [Packet (ascii ''$?#3f'')] [7]) s \<and> lock_owner s = Some Irq_listener \<and>
     (\<exists>s'. thread_step s s') \<and> (\<forall>n s'. waiting s n s' \<longrightarrow> n \<le> 3)"
proof -
  obtain s Es arg where s: "thread_run (sim_start (looping 0) [] [Packet (ascii ''$?#3f'')] [7]) s" "ended s = None"
    "gdb_at s = G_lock Es (ascii ''$?#3f'') Reason arg" "irq_at s = I_enter 7" "irq_input s = []"
    using lock_contended [OF refl refl] by metis
  have "lock_owner s = Some Irq_listener" using linearized_run [OF s(1)] s(4) by (simp add: lock_inv_def)
  then show ?thesis using s threads_progress [OF s(1,2)] by (intro exI [of _ s]) auto
qed

text \<open>
  C25: interrupts during the command to continue. The gdb thread holds the lock for the whole command. If the
  simulated program never reaches a breakpoint, the command never leaves its handler and no interrupt is raised any more: the other
  listener never comes to work on the processor, and a byte that waits for the lock waits for ever.
\<close>

theorem interrupts_wait_for_continue:
  assumes "thread_run (sim_start p heap tokens bytes) s"
    and "gdb_at s = G_run Es pkt Cont arg q" and "cont Es (pd_gdb (with_arm q (gdb_state s))) arg = None"
    and "thread_run s s'"
  shows "gdb_at s' = gdb_at s \<and> lock_owner s' = Some Gdb_listener \<and> \<not> irq_critical (irq_at s') \<and>
         (\<forall>b. irq_at s = I_lock b \<longrightarrow> irq_at s' = I_lock b \<and> irq_input s' = irq_input s)"
proof -
  have "lock_inv s" using linearized_run [OF assms(1)] by simp
  then have base: "lock_owner s = Some Gdb_listener" using assms(2) by (simp add: lock_inv_def)
  have stuck: "\<not> gdb_step_thread t t'" if "gdb_at t = gdb_at s" "gdb_state t = gdb_state s" for t t'
    using that assms(2,3) by (auto elim!: gdb_step_threadE simp: run_handler_def)
  from assms(4) have "gdb_at s' = gdb_at s \<and> gdb_state s' = gdb_state s \<and> lock_owner s' = Some Gdb_listener \<and> lock_inv s' \<and>
      (\<forall>b. irq_at s = I_lock b \<longrightarrow> irq_at s' = I_lock b \<and> irq_input s' = irq_input s)"
  proof (induction rule: thread_run.induct)
    case begin_run
    then show ?case using base \<open>lock_inv s\<close> by simp
  next
    case (step_run t t')
    have "lock_inv t'" using step_run lock_inv_step by blast
    moreover have "\<not> irq_critical (irq_at t)" using step_run by (auto simp: lock_inv_def)
    ultimately show ?case using step_run stuck [of t t'] assms(2)
      by (auto elim!: thread_stepE irq_step_threadE main_step_threadE)
  qed
  then show ?thesis by (auto simp: lock_inv_def)
qed

theorem interrupts_wait_for_continue_witness:
  "\<exists>s Es pkt arg. thread_run (sim_start (looping 0) [] [Packet (ascii ''$c#63'')] [7]) s \<and>
     gdb_at s = G_run Es pkt Cont arg (looping 0) \<and> irq_at s = I_lock 7 \<and>
     (\<forall>s'. thread_run s s' \<longrightarrow> irq_at s' = I_lock 7)"
proof -
  let ?Es = "\<lambda>_ :: nat. x86_env 0" and ?pkt = "ascii ''$c#63''" and ?arg = "[0, 54, 51] :: u8 list"
  let ?s = "sim_start (looping 0) [] [Packet ?pkt] [7]"
  let ?d = "handle_error (gdb_state ?s)"
  let ?g = "gdb_send_ack (pd_gdb ?d)"
  let ?s1 = "?s\<lparr>gdb_at := G_scan\<rparr>"
  let ?s2 = "?s\<lparr>gdb_state := ?d\<lparr>pd_gdb := ?g\<rparr>, gdb_tokens := [], gdb_at := G_lock ?Es ?pkt Cont ?arg\<rparr>"
  let ?s3 = "?s2\<lparr>lock_owner := Some Gdb_listener, gdb_at := G_enter ?Es ?pkt Cont ?arg\<rparr>"
  let ?s4 = "?s3\<lparr>gdb_at := G_run ?Es ?pkt Cont ?arg (looping 0)\<rparr>"
  let ?s5 = "?s4\<lparr>irq_at := I_read\<rparr>" and ?s6 = "?s4\<lparr>irq_input := [], irq_at := I_lock 7\<rparr>"
  have "scan_hex None [54, 51] = Some (0x63, [])" "handler 99 = Some Cont" by code_simp+
  then have req: "packet_request (x86_env 0) g ?pkt = Inr (gdb_send_ack g, Some (Cont, ?arg))" for g
    by (simp add: packet_request_def ascii_def Let_def)
  have acc: "accepted (pd_gdb (gdb_state ?s)) g" for g
    by (simp add: accepted_def sim_start_def gdb_scanner_start_def gdb_init_data_def)
  have r1: "thread_run ?s ?s1"
    by (rule run_gdb [OF begin_run _ gdb_accept]) (simp_all add: sim_start_def)
  have r2: "thread_run ?s ?s2"
    using run_gdb [OF r1 _ gdb_packet [of ?s1 ?pkt "[]" ?d ?Es ?g "Some (Cont, ?arg)"]] req acc
    by (simp add: sim_start_def)
  have r3: "thread_run ?s ?s3"
    using run_gdb [OF r2 _ gdb_lock [of ?s2 ?Es ?pkt Cont ?arg]] by (simp add: sim_start_def)
  have r4: "thread_run ?s ?s4"
    using run_gdb [OF r3 _ gdb_enter [of ?s3 ?Es ?pkt Cont ?arg]] by (simp add: sim_start_def)
  have r5: "thread_run ?s ?s5" using run_irq [OF r4 _ irq_accept [of ?s4]] by (simp add: sim_start_def)
  have r6: "thread_run ?s ?s6" using run_irq [OF r5 _ irq_read [of ?s5 7 "[]"]] by (simp add: sim_start_def)
  have at: "gdb_at ?s6 = G_run ?Es ?pkt Cont ?arg (looping 0)" by simp
  have never: "cont ?Es (pd_gdb (with_arm (looping 0) (gdb_state ?s6))) ?arg = None"
    by (simp add: cont_def cont_loop_diverges)
  have "\<forall>s'. thread_run ?s6 s' \<longrightarrow> irq_at s' = I_lock 7" using interrupts_wait_for_continue [OF r6 at never] by simp
  then show ?thesis using r6 at
    by (intro exI [of _ ?s6] exI [of _ ?Es] exI [of _ ?pkt] exI [of _ ?arg]) (simp add: sim_start_def)
qed

text \<open>
  When the gdb connection ends, \<^verbatim>\<open>main\<close> frees the processor without asking whether the other listener
  is at work on it, which then uses freed storage.
\<close>

lemma freed_in_use:
  "\<exists>s s'. thread_run (sim_start p heap [End_of_input] [b]) s \<and> ended s = None \<and> arm_freed s \<and> irq_at s = I_run b p \<and>
     thread_step s s' \<and> ended s' = Some Undefined"
proof -
  let ?s = "sim_start p heap [End_of_input] [b]"
  let ?d = "handle_error (gdb_state ?s)"
  let ?s1 = "?s\<lparr>gdb_at := G_scan\<rparr>" and ?s2 = "?s\<lparr>gdb_state := ?d, gdb_tokens := [], gdb_at := G_done\<rparr>"
  let ?s3 = "?s2\<lparr>irq_at := I_read\<rparr>" and ?s4 = "?s2\<lparr>irq_input := [], irq_at := I_lock b\<rparr>"
  let ?s5 = "?s4\<lparr>lock_owner := Some Irq_listener, irq_at := I_enter b\<rparr>"
  let ?s6 = "?s5\<lparr>irq_at := I_run b p\<rparr>" and ?s7 = "?s5\<lparr>irq_at := I_run b p, arm_freed := True, main_at := M_return\<rparr>"
  have r1: "thread_run ?s ?s1" by (rule run_gdb [OF begin_run _ gdb_accept]) (simp_all add: sim_start_def)
  have r2: "thread_run ?s ?s2"
    using run_gdb [OF r1 _ gdb_token [of ?s1 End_of_input "[]" "\<lambda>_. x86_env 0" ?d]]
    by (simp add: sim_start_def scanner_action_def accepted_def gdb_scanner_start_def gdb_init_data_def)
  have r3: "thread_run ?s ?s3" using run_irq [OF r2 _ irq_accept [of ?s2]] by (simp add: sim_start_def)
  have r4: "thread_run ?s ?s4" using run_irq [OF r3 _ irq_read [of ?s3 b "[]"]] by (simp add: sim_start_def)
  have r5: "thread_run ?s ?s5" using run_irq [OF r4 _ irq_lock [of ?s4 b]] by (simp add: sim_start_def)
  have r6: "thread_run ?s ?s6" using run_irq [OF r5 _ irq_enter [of ?s5 b]] by (simp add: sim_start_def)
  have r7: "thread_run ?s ?s7" using run_main [OF r6 _ main_join [of ?s6]] by (simp add: sim_start_def)
  have "thread_step ?s7 (?s7\<lparr>ended := Some Undefined\<rparr>)"
    by (rule by_irq [OF _ irq_freed]) (simp_all add: sim_start_def)
  then show ?thesis using r7
    by (intro exI [of _ ?s7] exI [of _ "?s7\<lparr>ended := Some Undefined\<rparr>"]) (simp add: sim_start_def)
qed

end
