(* ===== verification/Rio.thy ===== *)
theory Rio
  imports Prelude
begin

text \<open>
  The robust I/O routines of \<^verbatim>\<open>csapp.c\<close>. The operating system is a parameter: the list of its
  answers to the calls of \<^verbatim>\<open>read\<close> or \<^verbatim>\<open>write\<close> the routine makes, one after the other. A
  routine that still waits for an answer when the list is used up gives \<open>None\<close>. What is relied on of
  the system (POSIX: a call transfers at most the bytes it was asked for) is the hypothesis
  \<open>polite\<close> of the theorems.
\<close>

section \<open>Definitions\<close>

text \<open>An answer to \<^verbatim>\<open>write\<close>: its result, and whether \<^verbatim>\<open>errno\<close> is \<^verbatim>\<open>EINTR\<close> after it.\<close>

type_synonym write_answer = "int \<times> bool"

text \<open>The loop's state: what is left of the buffer, and the bytes the system has taken so far.\<close>

fun rio_writen_loop :: "write_answer list \<Rightarrow> nat \<Rightarrow> u8 list \<Rightarrow> u8 list \<Rightarrow> (int \<times> u8 list) option" where
  "rio_writen_loop answers n [] sent = Some (int n, sent)"
| "rio_writen_loop [] n (b # bs) sent = None"
| "rio_writen_loop ((nwritten, eintr) # answers) n (b # bs) sent =
     (if nwritten \<le> 0 then
        if eintr then rio_writen_loop answers n (b # bs) sent else Some (- 1, sent)
      else rio_writen_loop answers n (drop (nat nwritten) (b # bs)) (sent @ take (nat nwritten) (b # bs)))"

definition rio_writen :: "write_answer list \<Rightarrow> u8 list \<Rightarrow> (int \<times> u8 list) option" where
  "rio_writen answers usrbuf = rio_writen_loop answers (length usrbuf) usrbuf []"

definition unix_error :: "halt + 'a" where
  "unix_error = Inl (Exit 0)"

definition Rio_writen :: "write_answer list \<Rightarrow> u8 list \<Rightarrow> (halt + u8 list) option" where
  "Rio_writen answers usrbuf =
     (case rio_writen answers usrbuf of
        None \<Rightarrow> None
      | Some (r, sent) \<Rightarrow> Some (if r \<noteq> int (length usrbuf) then unix_error else Inr sent))"

text \<open>An answer to \<^verbatim>\<open>read\<close>: bytes (none at the end of the input), or a failure and whether it is \<^verbatim>\<open>EINTR\<close>.\<close>

datatype read_answer = Got "u8 list" | Read_failed bool

fun rio_readn_loop :: "read_answer list \<Rightarrow> nat \<Rightarrow> nat \<Rightarrow> u8 list \<Rightarrow> (int \<times> u8 list) option" where
  "rio_readn_loop answers n 0 buf = Some (int n, buf)"
| "rio_readn_loop [] n (Suc nleft) buf = None"
| "rio_readn_loop (Read_failed eintr # answers) n (Suc nleft) buf =
     (if eintr then rio_readn_loop answers n (Suc nleft) buf else Some (- 1, buf))"
| "rio_readn_loop (Got bytes # answers) n (Suc nleft) buf =
     (if bytes = [] then Some (int n - int (Suc nleft), buf)
      else rio_readn_loop answers n (Suc nleft - length bytes) (buf @ bytes))"

definition rio_readn :: "read_answer list \<Rightarrow> nat \<Rightarrow> (int \<times> u8 list) option" where
  "rio_readn answers n = rio_readn_loop answers n n []"

definition Rio_readn :: "read_answer list \<Rightarrow> nat \<Rightarrow> (halt + int \<times> u8 list) option" where
  "Rio_readn answers n =
     (case rio_readn answers n of
        None \<Rightarrow> None
      | Some (r, buf) \<Rightarrow> Some (if r < 0 then unix_error else Inr (r, buf)))"

text \<open>
  The buffered reader. \<open>rio_unread\<close> are the bytes from \<^verbatim>\<open>rio_bufptr\<close> on, \<^verbatim>\<open>rio_cnt\<close> is their
  number; the answers not used yet are threaded through.
\<close>

record rio_t =
  rio_unread :: "u8 list"
  rio_answers :: "read_answer list"

definition rio_readinitb :: "read_answer list \<Rightarrow> rio_t" where
  "rio_readinitb answers = \<lparr>rio_unread = [], rio_answers = answers\<rparr>"

definition rio_take :: "rio_t \<Rightarrow> nat \<Rightarrow> int \<times> u8 list \<times> rio_t" where
  "rio_take rp n =
     (let cnt = min n (length (rio_unread rp))
      in (int cnt, take cnt (rio_unread rp), rp\<lparr>rio_unread := drop cnt (rio_unread rp)\<rparr>))"

fun rio_fill :: "read_answer list \<Rightarrow> (int \<times> rio_t) option" where
  "rio_fill [] = None"
| "rio_fill (Read_failed eintr # answers) =
     (if eintr then rio_fill answers else Some (- 1, \<lparr>rio_unread = [], rio_answers = answers\<rparr>))"
| "rio_fill (Got bytes # answers) = Some (int (length bytes), \<lparr>rio_unread = bytes, rio_answers = answers\<rparr>)"

definition rio_read :: "rio_t \<Rightarrow> nat \<Rightarrow> (int \<times> u8 list \<times> rio_t) option" where
  "rio_read rp n =
     (if rio_unread rp = [] then
        case rio_fill (rio_answers rp) of
          None \<Rightarrow> None
        | Some (cnt, rp) \<Rightarrow> Some (if cnt < 0 then (- 1, [], rp) else if cnt = 0 then (0, [], rp) else rio_take rp n)
      else Some (rio_take rp n))"

text \<open>The loop of \<^verbatim>\<open>rio_readlineb\<close>; \<open>k\<close> is the number of turns left, \<^verbatim>\<open>maxlen - n\<close>.\<close>

fun rio_readlineb_loop :: "rio_t \<Rightarrow> nat \<Rightarrow> int \<Rightarrow> u8 list \<Rightarrow> (int \<times> u8 list \<times> rio_t) option" where
  "rio_readlineb_loop rp 0 n buf = Some (n, buf, rp)"
| "rio_readlineb_loop rp (Suc k) n buf =
     (case rio_read rp 1 of
        None \<Rightarrow> None
      | Some (rc, c, rp) \<Rightarrow>
          if rc = 1 then
            if c = [10] then Some (n, buf @ c, rp) else rio_readlineb_loop rp k (n + 1) (buf @ c)
          else if rc = 0 then if n = 1 then Some (0, buf, rp) else Some (n, buf, rp)
          else Some (- 1, buf, rp))"

definition rio_readlineb :: "rio_t \<Rightarrow> nat \<Rightarrow> (int \<times> u8 list \<times> rio_t) option" where
  "rio_readlineb rp maxlen = rio_readlineb_loop rp (maxlen - 1) 1 []"

text \<open>
  The loop of \<^verbatim>\<open>rio_readnb\<close>. \<^verbatim>\<open>rio_read\<close> gives -1 only when \<^verbatim>\<open>errno\<close> is not \<^verbatim>\<open>EINTR\<close>, so
  that the branch of \<^verbatim>\<open>rio_readnb\<close> that tries again is never taken.
\<close>

function rio_readnb_loop :: "rio_t \<Rightarrow> nat \<Rightarrow> nat \<Rightarrow> u8 list \<Rightarrow> (int \<times> u8 list \<times> rio_t) option" where
  "rio_readnb_loop rp n 0 buf = Some (int n, buf, rp)"
| "rio_readnb_loop rp n (Suc nleft) buf =
     (case rio_read rp (Suc nleft) of
        None \<Rightarrow> None
      | Some (nread, bytes, rp) \<Rightarrow>
          if nread < 0 then Some (- 1, buf, rp)
          else if nread = 0 then Some (int n - int (Suc nleft), buf, rp)
          else rio_readnb_loop rp n (Suc nleft - nat nread) (buf @ bytes))"
  by pat_completeness auto
termination by (relation "measure (\<lambda>(rp, n, nleft, buf). nleft)") auto

definition rio_readnb :: "rio_t \<Rightarrow> nat \<Rightarrow> (int \<times> u8 list \<times> rio_t) option" where
  "rio_readnb rp n = rio_readnb_loop rp n n []"

text \<open>The wrappers: a negative result ends the process.\<close>

definition Rio_readinitb :: "read_answer list \<Rightarrow> rio_t" where
  "Rio_readinitb answers = rio_readinitb answers"

definition Rio_readnb :: "rio_t \<Rightarrow> nat \<Rightarrow> (halt + int \<times> u8 list \<times> rio_t) option" where
  "Rio_readnb rp n =
     (case rio_readnb rp n of
        None \<Rightarrow> None
      | Some (rc, buf, rp) \<Rightarrow> Some (if rc < 0 then unix_error else Inr (rc, buf, rp)))"

definition Rio_readlineb :: "rio_t \<Rightarrow> nat \<Rightarrow> (halt + int \<times> u8 list \<times> rio_t) option" where
  "Rio_readlineb rp maxlen =
     (case rio_readlineb rp maxlen of
        None \<Rightarrow> None
      | Some (rc, buf, rp) \<Rightarrow> Some (if rc < 0 then unix_error else Inr (rc, buf, rp)))"

section \<open>Writing\<close>

text \<open>The system never reports more than it was asked to write, at any point of the loop.\<close>

fun polite :: "write_answer list \<Rightarrow> nat \<Rightarrow> bool" where
  "polite [] nleft \<longleftrightarrow> True"
| "polite ((nwritten, eintr) # answers) nleft \<longleftrightarrow>
     nwritten \<le> int nleft \<and> polite answers (if nwritten \<le> 0 then nleft else nleft - nat nwritten)"

definition progress :: "write_answer list \<Rightarrow> nat" where
  "progress answers = sum_list (map (\<lambda>(n, e). nat n) answers)"

lemma writen_loop_bytes:
  "rio_writen_loop answers n buf sent = Some (r, out) \<Longrightarrow>
   (r = int n \<and> out = sent @ buf) \<or> (r = - 1 \<and> (\<exists>k. k < length buf \<and> out = sent @ take k buf))"
proof (induction answers n buf sent rule: rio_writen_loop.induct)
  case (3 nwritten eintr answers n b bs sent)
  show ?case
  proof (cases "nwritten \<le> 0")
    case True
    with 3 show ?thesis by (auto split: if_splits intro: exI [of _ 0])
  next
    case False
    let ?k = "nat nwritten"
    have "(r = int n \<and> out = (sent @ take ?k (b # bs)) @ drop ?k (b # bs)) \<or>
        (r = - 1 \<and> (\<exists>j. j < length (drop ?k (b # bs)) \<and>
           out = (sent @ take ?k (b # bs)) @ take j (drop ?k (b # bs))))"
      using 3(2) [OF False] 3(3) False by simp
    then show ?thesis
    proof
      assume "r = int n \<and> out = (sent @ take ?k (b # bs)) @ drop ?k (b # bs)"
      then show ?thesis by (simp only: append_assoc append_take_drop_id) simp
    next
      assume "r = - 1 \<and> (\<exists>j. j < length (drop ?k (b # bs)) \<and>
           out = (sent @ take ?k (b # bs)) @ take j (drop ?k (b # bs)))"
      then obtain j where j: "r = - 1" "j < length (b # bs) - ?k"
        "out = sent @ (take ?k (b # bs) @ take j (drop ?k (b # bs)))"
        by (metis append_assoc length_drop)
      have "?k + j < length (b # bs)" using j(2) by simp
      moreover have "out = sent @ take (?k + j) (b # bs)" unfolding j(3) by (simp only: take_add)
      ultimately show ?thesis using j(1) by blast
    qed
  qed
qed auto

lemma writen_loop_terminates:
  "(\<And>x. x \<in> set answers \<Longrightarrow> fst x > 0 \<or> snd x) \<Longrightarrow> length buf \<le> progress answers \<Longrightarrow>
   rio_writen_loop answers n buf sent = Some (int n, sent @ buf)"
proof (induction answers n buf sent rule: rio_writen_loop.induct)
  case (3 nwritten eintr answers n b bs sent)
  show ?case
  proof (cases "nwritten \<le> 0")
    case True
    with 3(3) [of "(nwritten, eintr)"] 3(1) [OF True] 3(3,4) show ?thesis
      by (simp add: progress_def)
  next
    case False
    let ?k = "nat nwritten"
    have "length (drop ?k (b # bs)) \<le> progress answers" using 3(4) by (simp add: progress_def)
    then have "rio_writen_loop answers n (drop ?k (b # bs)) (sent @ take ?k (b # bs)) =
        Some (int n, (sent @ take ?k (b # bs)) @ drop ?k (b # bs))"
      using 3(2) [OF False] 3(3) by simp
    then show ?thesis using False by (simp only: append_assoc append_take_drop_id) simp
  qed
qed (auto simp: progress_def)

section \<open>Buffered reading\<close>

text \<open>
  The bytes still to come: those of the buffer and those of the answers up to the end of the input or a
  failure; interruptions do not count.
\<close>

fun answers_stream :: "read_answer list \<Rightarrow> u8 list" where
  "answers_stream [] = []"
| "answers_stream (Read_failed eintr # answers) = (if eintr then answers_stream answers else [])"
| "answers_stream (Got bytes # answers) = (if bytes = [] then [] else bytes @ answers_stream answers)"

definition rio_stream :: "rio_t \<Rightarrow> u8 list" where
  "rio_stream rp = rio_unread rp @ answers_stream (rio_answers rp)"

lemma rio_take_stream:
  "rio_take rp n = (cnt, bytes, rp') \<Longrightarrow>
   cnt = int (length bytes) \<and> rio_stream rp = bytes @ rio_stream rp' \<and> length bytes \<le> n \<and>
   (0 < n \<and> rio_unread rp \<noteq> [] \<longrightarrow> bytes \<noteq> [])"
  by (auto simp: rio_take_def rio_stream_def Let_def min_def split: if_splits)

lemma rio_fill_stream:
  "rio_fill answers = Some (cnt, rp) \<Longrightarrow>
   (cnt > 0 \<longrightarrow> rio_unread rp \<noteq> [] \<and> rio_stream rp = answers_stream answers) \<and>
   (cnt \<le> 0 \<longrightarrow> answers_stream answers = [])"
  by (induction answers rule: rio_fill.induct) (auto simp: rio_stream_def split: if_splits)

text \<open>How the stream ends: with the end of the input, with a failure, or not yet.\<close>

datatype ending = At_eof | At_failure | Still_open

fun answers_end :: "read_answer list \<Rightarrow> ending" where
  "answers_end [] = Still_open"
| "answers_end (Read_failed eintr # answers) = (if eintr then answers_end answers else At_failure)"
| "answers_end (Got bytes # answers) = (if bytes = [] then At_eof else answers_end answers)"

text \<open>The answer that \<^verbatim>\<open>rio_read\<close> gives when the stream has no byte.\<close>

definition end_result :: "ending \<Rightarrow> int option" where
  "end_result e = (case e of At_eof \<Rightarrow> Some 0 | At_failure \<Rightarrow> Some (- 1) | Still_open \<Rightarrow> None)"

lemma rio_fill_Some:
  "answers_stream answers \<noteq> [] \<Longrightarrow>
   \<exists>cnt rp. rio_fill answers = Some (cnt, rp) \<and> cnt > 0 \<and> answers_end (rio_answers rp) = answers_end answers"
  by (induction answers rule: rio_fill.induct) (auto split: if_splits)

lemma rio_fill_end: "answers_stream answers = [] \<Longrightarrow> map_option fst (rio_fill answers) = end_result (answers_end answers)"
  by (induction answers rule: rio_fill.induct) (auto simp: end_result_def split: if_splits)

text \<open>A call of \<^verbatim>\<open>rio_read\<close> takes some bytes from the front of the stream, or the stream is empty.\<close>

lemma rio_read_stream:
  assumes "rio_read rp n = Some (cnt, bytes, rp')" and "0 < n"
  shows "if cnt \<le> 0 then rio_stream rp = []
         else cnt = int (length bytes) \<and> rio_stream rp = bytes @ rio_stream rp' \<and> length bytes \<le> n \<and> bytes \<noteq> []"
proof (cases "rio_unread rp = []")
  case False
  then show ?thesis using assms rio_take_stream [of rp n cnt bytes rp'] by (auto simp: rio_read_def)
next
  case True
  then obtain c rq where f: "rio_fill (rio_answers rp) = Some (c, rq)"
    and r: "(cnt, bytes, rp') = (if c < 0 then (- 1, [], rq) else if c = 0 then (0, [], rq) else rio_take rq n)"
    using assms(1) by (auto simp: rio_read_def split: option.splits)
  have "rio_stream rp = answers_stream (rio_answers rp)" using True by (simp add: rio_stream_def)
  then show ?thesis using rio_fill_stream [OF f] r assms(2) rio_take_stream [of rq n cnt bytes rp']
    by (auto split: if_splits)
qed

lemma rio_read_Some:
  assumes "rio_stream rp \<noteq> []" "0 < n"
  shows "\<exists>bytes rp'. rio_read rp n = Some (int (length bytes), bytes, rp') \<and> rio_stream rp = bytes @ rio_stream rp' \<and>
    bytes \<noteq> [] \<and> length bytes \<le> n \<and> answers_end (rio_answers rp') = answers_end (rio_answers rp)"
proof (cases "rio_unread rp = []")
  case True
  then obtain cnt rq where f: "rio_fill (rio_answers rp) = Some (cnt, rq)" "cnt > 0"
    "answers_end (rio_answers rq) = answers_end (rio_answers rp)"
    using rio_fill_Some [of "rio_answers rp"] assms(1) by (auto simp: rio_stream_def)
  obtain c bytes rp' where t: "rio_take rq n = (c, bytes, rp')" by (metis prod_cases3)
  then have "rio_answers rp' = rio_answers rq" by (auto simp: rio_take_def Let_def)
  then show ?thesis using True f rio_take_stream [OF t] rio_fill_stream [OF f(1)] assms(2) t
    by (auto simp: rio_read_def rio_stream_def)
next
  case False
  obtain c bytes rp' where t: "rio_take rp n = (c, bytes, rp')" by (metis prod_cases3)
  then have "rio_answers rp' = rio_answers rp" by (auto simp: rio_take_def Let_def)
  then show ?thesis using False rio_take_stream [OF t] assms(2) t by (auto simp: rio_read_def)
qed

lemma rio_read_end:
  assumes "rio_stream rp = []"
  shows "(case end_result (answers_end (rio_answers rp)) of
            None \<Rightarrow> rio_read rp n = None
          | Some r \<Rightarrow> \<exists>rp'. rio_read rp n = Some (r, [], rp'))"
proof -
  have "rio_unread rp = []" "answers_stream (rio_answers rp) = []" using assms by (simp_all add: rio_stream_def)
  with rio_fill_end [of "rio_answers rp"] show ?thesis
    by (cases "rio_fill (rio_answers rp)"; cases "answers_end (rio_answers rp)") (auto simp: rio_read_def end_result_def)
qed

text \<open>The outcome of a request for \<open>nleft\<close> more bytes, of the stream and its end.\<close>

lemma rio_readnb_loop_enough:
  "nleft \<le> length (rio_stream rp) \<Longrightarrow>
   \<exists>rp'. rio_readnb_loop rp n nleft buf = Some (int n, buf @ take nleft (rio_stream rp), rp') \<and>
     rio_stream rp' = drop nleft (rio_stream rp) \<and> answers_end (rio_answers rp') = answers_end (rio_answers rp)"
proof (induction rp n nleft buf rule: rio_readnb_loop.induct)
  case (2 rp n nleft buf)
  then have "rio_stream rp \<noteq> []" by auto
  then obtain bytes rq where r: "rio_read rp (Suc nleft) = Some (int (length bytes), bytes, rq)"
    "rio_stream rp = bytes @ rio_stream rq" "bytes \<noteq> []" "length bytes \<le> Suc nleft"
    "answers_end (rio_answers rq) = answers_end (rio_answers rp)"
    using rio_read_Some [of rp "Suc nleft"] by auto
  from 2(1) [OF r(1) refl refl] show ?case using 2(2) r by auto
qed simp

lemma rio_readnb_loop_short:
  "length (rio_stream rp) < nleft \<Longrightarrow> nleft \<le> n \<Longrightarrow> length buf = n - nleft \<Longrightarrow>
   (case answers_end (rio_answers rp) of
      At_eof \<Rightarrow> \<exists>rp'. rio_readnb_loop rp n nleft buf = Some (int (length (buf @ rio_stream rp)), buf @ rio_stream rp, rp')
    | At_failure \<Rightarrow> \<exists>rp'. rio_readnb_loop rp n nleft buf = Some (- 1, buf @ rio_stream rp, rp')
    | Still_open \<Rightarrow> rio_readnb_loop rp n nleft buf = None)"
proof (induction rp n nleft buf rule: rio_readnb_loop.induct)
  case (2 rp n nleft buf)
  show ?case
  proof (cases "rio_stream rp = []")
    case True
    with rio_read_end [OF True, of "Suc nleft"] 2(3,4) show ?thesis
      by (cases "answers_end (rio_answers rp)") (auto simp: end_result_def of_nat_diff)
  next
    case False
    then obtain bytes rq where r: "rio_read rp (Suc nleft) = Some (int (length bytes), bytes, rq)"
      "rio_stream rp = bytes @ rio_stream rq" "bytes \<noteq> []" "length bytes \<le> Suc nleft"
      "answers_end (rio_answers rq) = answers_end (rio_answers rp)"
      using rio_read_Some [of rp "Suc nleft"] by auto
    from 2(1) [OF r(1) refl refl] show ?thesis using 2(2-4) r by (cases "answers_end (rio_answers rp)") auto
  qed
qed simp

section \<open>Properties\<close>

text \<open>
  C37: \<^verbatim>\<open>Rio_writen\<close>. If every answer of the system takes some bytes or is an interruption, and together
  they take as many bytes as the buffer has, the whole buffer is written, in order and without repetition, and
  the call returns. However it ends, what was written is the buffer or, after an error that is not an
  interruption, a proper prefix of it; then the process ends.
\<close>

theorem Rio_writen_writes_all:
  assumes "polite answers (length buf)"
  shows "((\<forall>x \<in> set answers. fst x > 0 \<or> snd x) \<and> length buf \<le> progress answers \<longrightarrow>
            Rio_writen answers buf = Some (Inr buf)) \<and>
         (\<forall>sent. Rio_writen answers buf = Some (Inr sent) \<longrightarrow> sent = buf) \<and>
         (\<forall>h. Rio_writen answers buf = Some (Inl h) \<longrightarrow>
            h = Exit 0 \<and> (\<exists>k. k < length buf \<and> rio_writen answers buf = Some (- 1, take k buf)))"
proof -
  have "rio_writen answers buf = Some (int (length buf), buf)"
    if "\<forall>x \<in> set answers. fst x > 0 \<or> snd x" "length buf \<le> progress answers"
    using writen_loop_terminates [of answers buf "length buf" "[]"] that by (simp add: rio_writen_def)
  moreover have "(r = int (length buf) \<and> out = buf) \<or> (r = - 1 \<and> (\<exists>k. k < length buf \<and> out = take k buf))"
    if "rio_writen answers buf = Some (r, out)" for r out
    using writen_loop_bytes [of answers "length buf" buf "[]" r out] that by (simp add: rio_writen_def)
  ultimately show ?thesis
    by (fastforce simp: Rio_writen_def unix_error_def split: option.splits if_splits)
qed

theorem Rio_writen_writes_all_witness:
  "polite [(2, False), (-1, True), (1, False)] (length [43 :: u8, 36, 35]) \<and>
   Rio_writen [(2, False), (-1, True), (1, False)] [43, 36, 35] = Some (Inr [43, 36, 35])"
proof -
  have p: "polite [(2, False), (-1, True), (1, False)] (length [43 :: u8, 36, 35])" by simp
  show ?thesis using p Rio_writen_writes_all [OF p] by (simp add: progress_def)
qed

text \<open>
  At the end of the input \<^verbatim>\<open>rio_readlineb\<close> returns one more than the number of bytes it read.
\<close>

lemma rio_readlineb_eof_count:
  "c \<noteq> 10 \<Longrightarrow> rio_readlineb (rio_readinitb [Got [c], Got []]) (Suc (Suc (Suc k))) =
     Some (2, [c], \<lparr>rio_unread = [], rio_answers = []\<rparr>)"
  by (simp add: rio_readlineb_def rio_readinitb_def rio_read_def rio_take_def Let_def)

text \<open>
  C36: \<^verbatim>\<open>rio_readnb\<close>. The buffer is transparent: however the system cuts the input into answers, and
  whatever an earlier call left in the buffer, the call gives the next \<open>n\<close> bytes of the stream and
  leaves the rest of it for the next call. When the stream has fewer, it ends as the stream does: at the end of the input the
  call gives all bytes that are left and returns their number, at a failure it returns -1 (the bytes before it are in the caller's
  buffer, but nothing says how many), and with neither it waits for more.
\<close>

theorem rio_readnb_transparent:
  "if n \<le> length (rio_stream rp) then
     \<exists>rp'. rio_readnb rp n = Some (int n, take n (rio_stream rp), rp') \<and> rio_stream rp' = drop n (rio_stream rp) \<and>
       answers_end (rio_answers rp') = answers_end (rio_answers rp)
   else case answers_end (rio_answers rp) of
      At_eof \<Rightarrow> \<exists>rp'. rio_readnb rp n = Some (int (length (rio_stream rp)), rio_stream rp, rp')
    | At_failure \<Rightarrow> \<exists>rp'. rio_readnb rp n = Some (- 1, rio_stream rp, rp')
    | Still_open \<Rightarrow> rio_readnb rp n = None"
  using rio_readnb_loop_enough [of n rp n "[]"] rio_readnb_loop_short [of rp n n "[]"]
  by (cases "n \<le> length (rio_stream rp)"; cases "answers_end (rio_answers rp)") (simp_all add: rio_readnb_def)

end
