(* ===== verification/Csapp.thy ===== *)
theory Csapp
  imports Threads Rio
begin

text \<open>
  The wrappers of \<^verbatim>\<open>csapp.c\<close> and the programs that use them: \<^verbatim>\<open>create_server\<close> of
  \<^verbatim>\<open>arm_simulator.c\<close>, \<^verbatim>\<open>main\<close> of \<^verbatim>\<open>send_irq.c\<close>, and the helpers for clients and servers. A wrapper takes
  what the call it makes has returned; a pointer is an integer, the null pointer 0. A program that
  makes several calls is a value: it returns, ends the process, or makes a call and goes on with
  the system's answer. \<open>run_prog\<close> plays a list of answers to it and records the calls.
\<close>

section \<open>Error functions and wrappers\<close>

definition posix_error :: "int \<Rightarrow> halt + 'a" where
  "posix_error code = Inl (Exit 0)"

definition dns_error :: "halt + 'a" where
  "dns_error = Inl (Exit 0)"

definition app_error :: "halt + 'a" where
  "app_error = Inl (Exit 0)"

text \<open>Process control. The result of \<^verbatim>\<open>sleep\<close> is unsigned: it is never below 0.\<close>

datatype process_fun = Fork | Execve | Wait | Waitpid | Kill | Pause | Sleep | Alarm | Setpgid | Getpgrp

fun process_wrapper :: "process_fun \<Rightarrow> int \<Rightarrow> halt + int" where
  "process_wrapper Fork pid = (if pid < 0 then unix_error else Inr pid)"
| "process_wrapper Execve rc = (if rc < 0 then unix_error else Inr 0)"
| "process_wrapper Wait pid = (if pid < 0 then unix_error else Inr pid)"
| "process_wrapper Waitpid retpid = (if retpid < 0 then unix_error else Inr retpid)"
| "process_wrapper Kill rc = (if rc < 0 then unix_error else Inr 0)"
| "process_wrapper Pause rc = Inr 0"
| "process_wrapper Sleep rc = (let rc = uint (word_of_int rc :: u32) in if rc < 0 then unix_error else Inr rc)"
| "process_wrapper Alarm rc = Inr rc"
| "process_wrapper Setpgid rc = (if rc < 0 then unix_error else Inr 0)"
| "process_wrapper Getpgrp pid = Inr pid"

text \<open>Signals. \<^verbatim>\<open>Signal\<close> returns the old handler, which \<^verbatim>\<open>sigaction\<close> stores.\<close>

datatype signal_fun = Signal int | Sigprocmask | Sigemptyset | Sigfillset | Sigaddset | Sigdelset | Sigismember

fun signal_wrapper :: "signal_fun \<Rightarrow> int \<Rightarrow> halt + int" where
  "signal_wrapper (Signal old) rc = (if rc < 0 then unix_error else Inr old)"
| "signal_wrapper Sigprocmask rc = (if rc < 0 then unix_error else Inr 0)"
| "signal_wrapper Sigemptyset rc = (if rc < 0 then unix_error else Inr 0)"
| "signal_wrapper Sigfillset rc = (if rc < 0 then unix_error else Inr 0)"
| "signal_wrapper Sigaddset rc = (if rc < 0 then unix_error else Inr 0)"
| "signal_wrapper Sigdelset rc = (if rc < 0 then unix_error else Inr 0)"
| "signal_wrapper Sigismember rc = (if rc < 0 then unix_error else Inr rc)"

datatype io_fun = Open | Read | Write | Lseek | Close | Select | Dup2 | Stat | Fstat

fun io_wrapper :: "io_fun \<Rightarrow> int \<Rightarrow> halt + int" where
  "io_wrapper Open rc = (if rc < 0 then unix_error else Inr rc)"
| "io_wrapper Read rc = (if rc < 0 then unix_error else Inr rc)"
| "io_wrapper Write rc = (if rc < 0 then unix_error else Inr rc)"
| "io_wrapper Lseek rc = (if rc < 0 then unix_error else Inr rc)"
| "io_wrapper Close rc = (if rc < 0 then unix_error else Inr 0)"
| "io_wrapper Select rc = (if rc < 0 then unix_error else Inr rc)"
| "io_wrapper Dup2 rc = (if rc < 0 then unix_error else Inr rc)"
| "io_wrapper Stat rc = (if rc < 0 then unix_error else Inr 0)"
| "io_wrapper Fstat rc = (if rc < 0 then unix_error else Inr 0)"

datatype storage_fun = Mmap | Munmap | Malloc | Realloc | Calloc | Free

fun storage_wrapper :: "storage_fun \<Rightarrow> int \<Rightarrow> halt + int" where
  "storage_wrapper Mmap ptr = (if ptr = - 1 then unix_error else Inr ptr)"
| "storage_wrapper Munmap rc = (if rc < 0 then unix_error else Inr 0)"
| "storage_wrapper Malloc p = (if p = 0 then unix_error else Inr p)"
| "storage_wrapper Realloc p = (if p = 0 then unix_error else Inr p)"
| "storage_wrapper Calloc p = (if p = 0 then unix_error else Inr p)"
| "storage_wrapper Free rc = Inr 0"

text \<open>
  Standard I/O. \<^verbatim>\<open>Fgets\<close> and \<^verbatim>\<open>Fread\<close> also ask \<^verbatim>\<open>ferror\<close>; \<^verbatim>\<open>EOF\<close> is -1. \<^verbatim>\<open>Fread\<close> and
  \<^verbatim>\<open>Fwrite\<close> have the number of members as an argument.
\<close>

datatype stdio_fun = Fclose | Fdopen | Fgets bool | Fopen | Fputs | Fread nat bool | Fwrite nat

fun stdio_wrapper :: "stdio_fun \<Rightarrow> int \<Rightarrow> halt + int" where
  "stdio_wrapper Fclose rc = (if rc \<noteq> 0 then unix_error else Inr 0)"
| "stdio_wrapper Fdopen fp = (if fp = 0 then unix_error else Inr fp)"
| "stdio_wrapper (Fgets ferror) rptr = (if rptr = 0 \<and> ferror then app_error else Inr rptr)"
| "stdio_wrapper Fopen fp = (if fp = 0 then unix_error else Inr fp)"
| "stdio_wrapper Fputs rc = (if rc = - 1 then unix_error else Inr 0)"
| "stdio_wrapper (Fread nmemb ferror) n = (if n < int nmemb \<and> ferror then unix_error else Inr n)"
| "stdio_wrapper (Fwrite nmemb) n = (if n < int nmemb then unix_error else Inr 0)"

datatype socket_fun = Socket | Setsockopt | Bind | Listen | Accept | Connect

fun socket_wrapper :: "socket_fun \<Rightarrow> int \<Rightarrow> halt + int" where
  "socket_wrapper Socket rc = (if rc < 0 then unix_error else Inr rc)"
| "socket_wrapper Setsockopt rc = (if rc < 0 then unix_error else Inr 0)"
| "socket_wrapper Bind rc = (if rc < 0 then unix_error else Inr 0)"
| "socket_wrapper Listen rc = (if rc < 0 then unix_error else Inr 0)"
| "socket_wrapper Accept rc = (if rc < 0 then unix_error else Inr rc)"
| "socket_wrapper Connect rc = (if rc < 0 then unix_error else Inr 0)"

datatype dns_fun = Gethostbyname | Gethostbyaddr

fun dns_wrapper :: "dns_fun \<Rightarrow> int \<Rightarrow> halt + int" where
  "dns_wrapper Gethostbyname p = (if p = 0 then dns_error else Inr p)"
| "dns_wrapper Gethostbyaddr p = (if p = 0 then dns_error else Inr p)"

text \<open>Threads and semaphores. \<^verbatim>\<open>Pthread_exit\<close> does not return and is left out.\<close>

datatype thread_fun =
  Pthread_create | Pthread_cancel | Pthread_join | Pthread_detach | Pthread_self | Pthread_once
| Sem_init | Sem_P | Sem_V

fun thread_wrapper :: "thread_fun \<Rightarrow> int \<Rightarrow> halt + int" where
  "thread_wrapper Pthread_create rc = (if rc \<noteq> 0 then posix_error rc else Inr 0)"
| "thread_wrapper Pthread_cancel rc = (if rc \<noteq> 0 then posix_error rc else Inr 0)"
| "thread_wrapper Pthread_join rc = (if rc \<noteq> 0 then posix_error rc else Inr 0)"
| "thread_wrapper Pthread_detach rc = (if rc \<noteq> 0 then posix_error rc else Inr 0)"
| "thread_wrapper Pthread_self rc = Inr rc"
| "thread_wrapper Pthread_once rc = Inr 0"
| "thread_wrapper Sem_init rc = (if rc < 0 then unix_error else Inr 0)"
| "thread_wrapper Sem_P rc = (if rc < 0 then unix_error else Inr 0)"
| "thread_wrapper Sem_V rc = (if rc < 0 then unix_error else Inr 0)"

section \<open>Programs that make several calls\<close>

text \<open>
  The calls with the arguments that matter. An address is a port in network byte order, with the bytes of the
  host's address for \<^verbatim>\<open>connect\<close>.
\<close>

datatype syscall =
  Sys_socket | Sys_setsockopt int | Sys_bind int u16 | Sys_getsockname int | Sys_listen int int
| Sys_accept int | Sys_connect int "u8 list" u16 | Sys_gethostbyname string | Sys_write int "u8 list"
| Sys_shutdown int | Sys_close int

record answer =
  ans_rc :: int             \<comment> \<open>the result; 0 for a null pointer\<close>
  ans_bytes :: "u8 list"    \<comment> \<open>the host's address\<close>
  ans_port :: u16           \<comment> \<open>the port that \<^verbatim>\<open>getsockname\<close> stores\<close>

datatype 'a prog = Return 'a | Halt halt | Call syscall "answer \<Rightarrow> 'a prog"

primrec and_then :: "'a prog \<Rightarrow> ('a \<Rightarrow> 'b prog) \<Rightarrow> 'b prog" where
  "and_then (Return x) f = f x"
| "and_then (Halt h) f = Halt h"
| "and_then (Call c k) f = Call c (\<lambda>a. and_then (k a) f)"

definition checked :: "syscall \<Rightarrow> (answer \<Rightarrow> halt + 'a) \<Rightarrow> 'a prog" where
  "checked c w = Call c (\<lambda>a. case w a of Inl h \<Rightarrow> Halt h | Inr x \<Rightarrow> Return x)"

fun run_prog :: "'a prog \<Rightarrow> answer list \<Rightarrow> (halt + 'a) option \<times> syscall list" where
  "run_prog (Return x) as = (Some (Inr x), [])"
| "run_prog (Halt h) as = (Some (Inl h), [])"
| "run_prog (Call c k) [] = (None, [c])"
| "run_prog (Call c k) (a # as) = (let (r, cs) = run_prog (k a) as in (r, c # cs))"

text \<open>\<^verbatim>\<open>htons\<close> and \<^verbatim>\<open>ntohs\<close> on a little-endian host.\<close>

definition htons :: "u16 \<Rightarrow> u16" where
  "htons x = push_bit 8 x OR drop_bit 8 x"

definition create_server :: "u16 \<Rightarrow> (int \<times> u16) prog" where
  "create_server port =
     and_then (checked Sys_socket (\<lambda>a. socket_wrapper Socket (ans_rc a))) (\<lambda>socket.
     and_then (checked (Sys_setsockopt socket) (\<lambda>a. socket_wrapper Setsockopt (ans_rc a))) (\<lambda>_.
     and_then (checked (Sys_bind socket (htons port)) (\<lambda>a. socket_wrapper Bind (ans_rc a))) (\<lambda>_.
     Call (Sys_getsockname socket) (\<lambda>a.
       let sin_port = (if ans_rc a < 0 then htons port else ans_port a);
           result_port = htons sin_port
       in and_then (checked (Sys_listen socket 1) (\<lambda>a. socket_wrapper Listen (ans_rc a))) (\<lambda>_.
          Return (socket, result_port))))))"

text \<open>\<^verbatim>\<open>main\<close> of \<^verbatim>\<open>send_irq.c\<close>; the arguments are those behind the program's name.\<close>

definition send_irq_main :: "string list \<Rightarrow> int prog" where
  "send_irq_main args =
     (case args of
        host # port # rest \<Rightarrow>
          (case send_irq_byte (case rest of [] \<Rightarrow> None | name # _ \<Rightarrow> Some name) of
             Inl h \<Rightarrow> Halt h
           | Inr irq \<Rightarrow>
               and_then (checked Sys_socket (\<lambda>a. socket_wrapper Socket (ans_rc a))) (\<lambda>sock.
               and_then (checked (Sys_setsockopt sock) (\<lambda>a. socket_wrapper Setsockopt (ans_rc a))) (\<lambda>_.
               and_then (checked (Sys_gethostbyname host)
                   (\<lambda>a. case dns_wrapper Gethostbyname (ans_rc a) of Inl h \<Rightarrow> Inl h | Inr _ \<Rightarrow> Inr (ans_bytes a))) (\<lambda>addr.
               and_then (checked (Sys_connect sock addr (htons (word_of_int (atoi (ascii port)))))
                   (\<lambda>a. socket_wrapper Connect (ans_rc a))) (\<lambda>_.
               and_then (checked (Sys_write sock [irq]) (\<lambda>a. io_wrapper Write (ans_rc a))) (\<lambda>_.
               Call (Sys_shutdown sock) (\<lambda>_. Call (Sys_close sock) (\<lambda>_. Return 0))))))))
      | _ \<Rightarrow> Halt (Exit 1))"

definition open_clientfd :: "string \<Rightarrow> int \<Rightarrow> int prog" where
  "open_clientfd hostname port =
     Call Sys_socket (\<lambda>a. let clientfd = ans_rc a in
       if clientfd < 0 then Return (- 1)
       else Call (Sys_gethostbyname hostname) (\<lambda>a.
         if ans_rc a = 0 then Return (- 2)
         else Call (Sys_connect clientfd (ans_bytes a) (htons (word_of_int port))) (\<lambda>a.
           if ans_rc a < 0 then Return (- 1) else Return clientfd)))"

definition open_listenfd :: "int \<Rightarrow> int prog" where
  "open_listenfd port =
     Call Sys_socket (\<lambda>a. let listenfd = ans_rc a in
       if listenfd < 0 then Return (- 1)
       else Call (Sys_setsockopt listenfd) (\<lambda>a.
         if ans_rc a < 0 then Return (- 1)
         else Call (Sys_bind listenfd (htons (word_of_int port))) (\<lambda>a.
           if ans_rc a < 0 then Return (- 1)
           else Call (Sys_listen listenfd 1024) (\<lambda>a.
             if ans_rc a < 0 then Return (- 1) else Return listenfd))))"

definition Open_clientfd :: "string \<Rightarrow> int \<Rightarrow> int prog" where
  "Open_clientfd hostname port =
     and_then (open_clientfd hostname port) (\<lambda>rc.
       if rc < 0 then
         case (if rc = - 1 then unix_error else dns_error :: halt + int) of Inl h \<Rightarrow> Halt h | Inr x \<Rightarrow> Return x
       else Return rc)"

definition Open_listenfd :: "int \<Rightarrow> int prog" where
  "Open_listenfd port =
     and_then (open_listenfd port) (\<lambda>rc.
       if rc < 0 then case unix_error :: halt + int of Inl h \<Rightarrow> Halt h | Inr x \<Rightarrow> Return x else Return rc)"

section \<open>Running programs\<close>

lemmas error_defs = unix_error_def posix_error_def dns_error_def app_error_def

lemma run_checked:
  "run_prog (and_then (checked c w) f) (a # as) =
     (case w a of
        Inl h \<Rightarrow> (Some (Inl h), [c])
      | Inr x \<Rightarrow> (fst (run_prog (f x) as), c # snd (run_prog (f x) as)))"
  by (simp add: checked_def case_prod_beta split: sum.split)

lemma run_call: "run_prog (Call c k) (a # as) = (fst (run_prog (k a) as), c # snd (run_prog (k a) as))"
  by (simp add: case_prod_beta)

lemma htons_htons [simp]: "htons (htons x) = x"
  by (rule bit_word_eqI) (auto simp: htons_def bit_simps)

text \<open>What counts as a failure of the wrapped call, and that nothing else ends the process.\<close>

lemma process_wrapper_ends:
  "process_wrapper f rc = Inl h \<longleftrightarrow> h = Exit 0 \<and> rc < 0 \<and> f \<notin> {Pause, Sleep, Alarm, Getpgrp}"
  by (cases f) (auto simp: error_defs Let_def not_less split: if_splits)

lemma signal_wrapper_ends: "signal_wrapper f rc = Inl h \<longleftrightarrow> h = Exit 0 \<and> rc < 0"
  by (cases f) (auto simp: error_defs Let_def split: if_splits)

lemma io_wrapper_ends: "io_wrapper f rc = Inl h \<longleftrightarrow> h = Exit 0 \<and> rc < 0"
  by (cases f) (auto simp: error_defs Let_def split: if_splits)

lemma socket_wrapper_ends: "socket_wrapper f rc = Inl h \<longleftrightarrow> h = Exit 0 \<and> rc < 0"
  by (cases f) (auto simp: error_defs Let_def split: if_splits)

lemma dns_wrapper_ends: "dns_wrapper f rc = Inl h \<longleftrightarrow> h = Exit 0 \<and> rc = 0"
  by (cases f) (auto simp: error_defs Let_def split: if_splits)

lemma storage_wrapper_ends: "storage_wrapper f rc = Inl h \<longleftrightarrow> h = Exit 0 \<and>
     (f = Mmap \<and> rc = - 1 \<or> f = Munmap \<and> rc < 0 \<or> f \<in> {Malloc, Realloc, Calloc} \<and> rc = 0)"
  by (cases f) (auto simp: error_defs Let_def split: if_splits)

lemma thread_wrapper_ends: "thread_wrapper f rc = Inl h \<longleftrightarrow> h = Exit 0 \<and>
     (f \<in> {Pthread_create, Pthread_cancel, Pthread_join, Pthread_detach} \<and> rc \<noteq> 0 \<or>
      f \<in> {Sem_init, Sem_P, Sem_V} \<and> rc < 0)"
  by (cases f) (auto simp: error_defs Let_def split: if_splits)

lemma Open_listenfd_returns:
  "run_prog (Open_listenfd port) as = (Some r, cs) \<Longrightarrow> r = Inl (Exit 0) \<or> (\<exists>fd \<ge> 0. r = Inr fd)"
  by (cases as; cases "tl as"; cases "tl (tl as)"; cases "tl (tl (tl as))")
    (auto simp: Open_listenfd_def open_listenfd_def Let_def error_defs split: if_splits)

section \<open>Properties\<close>

text \<open>
  The creation of a server. With answers of the system to its five calls, \<^verbatim>\<open>create_server\<close> makes these calls in
  this order and returns the socket and the port it is bound to; the first call that fails, except
  \<^verbatim>\<open>getsockname\<close>, ends the process with status 0, and no further call is made.
\<close>

lemma create_server_outcome:
  "run_prog (create_server port) (a_socket # a_opt # a_bind # a_name # a_listen # rest) =
     (let fd = ans_rc a_socket;
          calls = [Sys_socket, Sys_setsockopt fd, Sys_bind fd (htons port), Sys_getsockname fd, Sys_listen fd 1];
          checks = [(fd, 1), (ans_rc a_opt, 2), (ans_rc a_bind, 3), (ans_rc a_listen, 5)]
      in case find (\<lambda>(rc, n). rc < 0) checks of
           None \<Rightarrow> (Some (Inr (fd, if ans_rc a_name < 0 then port else htons (ans_port a_name))), calls)
         | Some (rc, n) \<Rightarrow> (Some (Inl (Exit 0)), take n calls))"
  by (simp add: create_server_def run_checked run_call error_defs Let_def numeral_eq_Suc)

text \<open>
  C35: an interrupt from the sender to the processor. If the name given to \<^verbatim>\<open>send_irq\<close> is one of the eight in the table of exceptions
  and its calls succeed, it connects to the given host and port, writes the one byte that is the
  number of the exception, and returns 0. When that byte arrives, the listener of the simulator can raise the
  exception: the processor is then at its vector and in its mode, if it has one (\<open>imprecise_abort\<close> has none and keeps the mode), the
  lock is free and the listener waits for the next byte.
\<close>

theorem send_irq_delivers:
  assumes "arm_get_exception_name irq = Inr (Some name)"
    and "\<forall>a \<in> {a_socket, a_opt, a_connect, a_write}. 0 \<le> ans_rc a" and "ans_rc a_host \<noteq> 0"
  shows "run_prog (send_irq_main [host, port, name]) [a_socket, a_opt, a_host, a_connect, a_write, a_shut, a_close] =
           (let fd = ans_rc a_socket
            in (Some (Inr 0),
                [Sys_socket, Sys_setsockopt fd, Sys_gethostbyname host,
                 Sys_connect fd (ans_bytes a_host) (htons (word_of_int (atoi (ascii port)))),
                 Sys_write fd [irq], Sys_shutdown fd, Sys_close fd])) \<and>
         (\<exists>s. thread_run (sim_start p heap tokens [irq]) s \<and> irq_at s = I_read \<and> lock_owner s = None \<and>
            irq_input s = [] \<and> read_register (arm_reg (shared_arm s)) 15 = 4 * (ucast irq - 1) \<and>
            get_mode (arm_reg (shared_arm s)) =
              (case entered_mode irq of None \<Rightarrow> get_mode (arm_reg p) | Some mode \<Rightarrow> mode))"
proof -
  have "send_irq_byte (Some name) = Inr irq"
    using find_irq_number [OF assms(1)] by (simp add: send_irq_byte_def)
  then have sent: "run_prog (send_irq_main [host, port, name])
      [a_socket, a_opt, a_host, a_connect, a_write, a_shut, a_close] =
           (let fd = ans_rc a_socket
            in (Some (Inr 0),
                [Sys_socket, Sys_setsockopt fd, Sys_gethostbyname host,
                 Sys_connect fd (ans_bytes a_host) (htons (word_of_int (atoi (ascii port)))),
                 Sys_write fd [irq], Sys_shutdown fd, Sys_close fd]))"
    using assms(2,3) by (simp add: send_irq_main_def run_checked run_call Let_def)
  let ?s = "sim_start p heap tokens [irq]" and ?q = "arm_exception p irq"
  have "thread_run ?s (?s\<lparr>shared_arm := ?q, irq_input := [], irq_at := I_read\<rparr>)"
    by (rule irq_served)
  then show ?thesis using sent exception_target [of p irq]
    by (intro conjI exI [of _ "?s\<lparr>shared_arm := ?q, irq_input := [], irq_at := I_read\<rparr>"])
      (simp_all add: sim_start_def)
qed

theorem send_irq_delivers_witness:
  "let a = \<lparr>ans_rc = 3, ans_bytes = [127, 0, 0, 1], ans_port = 0\<rparr> in
   fst (run_prog (send_irq_main [''localhost'', ''4000'', ''interrupt'']) [a, a, a, a, a, a, a]) = Some (Inr 0) \<and>
   (\<exists>s. thread_run (sim_start (looping 0) [] [] [7]) s \<and> get_mode (arm_reg (shared_arm s)) = IRQ)"
proof -
  let ?a = "\<lparr>ans_rc = 3, ans_bytes = [127, 0, 0, 1], ans_port = 0\<rparr>"
  have n: "arm_get_exception_name 7 = Inr (Some ''interrupt'')" "entered_mode 7 = Some IRQ"
    by (simp_all add: arm_get_exception_name_def table_entry_def arm_exception_names_def entered_mode_def)
  show ?thesis
    using send_irq_delivers [OF n(1), of ?a ?a ?a ?a ?a "''localhost''" "''4000''" ?a ?a "looping 0" "[]" "[]"]
    by (auto simp: Let_def n(2))
qed

end
