(* ===== verification/Gdb_Wire.thy ===== *)
theory Gdb_Wire
  imports Threads
begin

text \<open>
  What the server writes to its connection. \<open>handler_reply\<close> bounds what each handler may answer. From it two
  invariants of the threads follow, both interpretations of the locale \<open>reply_language\<close>: everything written is a
  well-formed message of the protocol, and as long as no request asks for more than 509 bytes of memory, every
  packet fits in the array \<^verbatim>\<open>packet\<close> of the protocol data.
\<close>

section \<open>Messages\<close>

definition wire_char :: "u8 \<Rightarrow> bool" where
  "wire_char c \<longleftrightarrow> c \<noteq> 0 \<and> plain_char c"

definition payload_of :: "u8 list \<Rightarrow> u8 list" where
  "payload_of m = take (length m - 4) (drop 1 m)"

definition framed :: "(u8 list \<Rightarrow> bool) \<Rightarrow> u8 list \<Rightarrow> bool" where
  "framed good m \<longleftrightarrow> m = frame (payload_of m) (sum_list (payload_of m)) \<and> good (payload_of m)"

definition message :: "(u8 list \<Rightarrow> bool) \<Rightarrow> u8 list \<Rightarrow> bool" where
  "message good m \<longleftrightarrow> m = [] \<or> m = [43] \<or> m = [45] \<or> framed good m"

lemma payload_of_frame [simp]: "payload_of (frame payload check) = payload"
  by (simp add: payload_of_def frame_def)

lemma framed_frame [simp]: "framed good (frame payload (sum_list payload)) = good payload"
  by (simp add: framed_def)

lemma framed_length: "framed good m \<Longrightarrow> length m = length (payload_of m) + 4"
proof -
  assume "framed good m"
  then have "m = frame (payload_of m) (sum_list (payload_of m))" by (simp add: framed_def)
  then have "length m = length (frame (payload_of m) (sum_list (payload_of m)))" by (rule arg_cong)
  then show ?thesis by (simp add: frame_def)
qed

lemma wire_char_hex2: "list_all wire_char (hex2 b)"
proof -
  obtain h l where hl: "hex2 b = [h, l]" by (simp add: hex2_def)
  then show ?thesis using hex2_chars [OF hl] hex_char_plain [of h] hex_char_plain [of l]
    by (simp add: wire_char_def plain_char_def)
qed

lemma wire_char_no_0: "list_all wire_char s \<Longrightarrow> 0 \<notin> set s"
  by (auto simp: list_all_iff wire_char_def)

lemma wire_char_write_uint32: "list_all wire_char (write_uint32 v)"
  by (simp add: write_uint32_def byte_order_eq wire_char_hex2)

lemma wire_char_read_memory: "list_all wire_char (read_memory_loop mem a v n)"
  by (induction n arbitrary: a v) (simp_all add: case_prod_beta wire_char_hex2)

section \<open>Replies\<close>

text \<open>The replies a handler may give to a request: readable characters, and how many.\<close>

definition reply_of :: "cenv \<Rightarrow> gdb_handler \<Rightarrow> u8 list \<Rightarrow> u8 list \<Rightarrow> bool" where
  "reply_of E h arg payload \<longleftrightarrow>
     list_all wire_char payload \<and>
     (if h = Read_memory then length payload = 2 * unat (snd (scan_hex_pair arg (uninit_val E) (uninit_val E)))
      else length payload \<le> 336)"

text \<open>
  The result of a handler: a reply, with the processor and the exception it leaves, or an end of the process that is no
  undefined behaviour.
\<close>

definition answers :: "cenv \<Rightarrow> gdb_handler \<Rightarrow> u8 list \<Rightarrow> gdb \<Rightarrow> halt + gdb \<Rightarrow> bool" where
  "answers E h arg g r \<longleftrightarrow>
     (\<exists>p e payload. reply_of E h arg payload \<and> r = gdb_send_data (g\<lparr>gdb_arm := p, target_exception := e\<rparr>) payload) \<or>
     r = Inl (Exit 0) \<or> r = Inl Abort"

lemma answersI:
  "reply_of E h arg payload \<Longrightarrow> answers E h arg g (gdb_send_data (g\<lparr>gdb_arm := p, target_exception := e\<rparr>) payload)"
  "reply_of E h arg payload \<Longrightarrow> answers E h arg g (gdb_send_data (g\<lparr>gdb_arm := p\<rparr>) payload)"
  "reply_of E h arg payload \<Longrightarrow> answers E h arg g (gdb_send_data g payload)"
proof -
  assume r: "reply_of E h arg payload"
  then show first: "answers E h arg g (gdb_send_data (g\<lparr>gdb_arm := p, target_exception := e\<rparr>) payload)" for p e
    by (auto simp: answers_def)
  from first [where p = p and e = "target_exception g"] show "answers E h arg g (gdb_send_data (g\<lparr>gdb_arm := p\<rparr>) payload)" by simp
  from first [where p = "gdb_arm g" and e = "target_exception g"] show "answers E h arg g (gdb_send_data g payload)" by simp
qed

lemma answers_ends [simp]: "answers E h arg g (Inl Abort)" "answers E h arg g (Inl (Exit 0))"
  by (simp_all add: answers_def)

lemma reply_literals:
  "h \<noteq> Read_memory \<Longrightarrow> s \<in> {'''', ''S04'', ''S05'', ''S10'', ''OK'', ''E01'', ''E02'', ''T0;tnotrun:0'', ''PacketSize=400'',
     ''Text=0;Data=0;Bss=0''} \<Longrightarrow> reply_of E h arg (ascii s)"
  by (elim insertE emptyE) (simp_all add: reply_of_def ascii_def wire_char_def plain_char_def)

lemma cont_loop_output:
  assumes "cont_loop Es ins g = Some (Inr g')"
  shows "\<exists>p e. g' = g\<lparr>gdb_arm := p, target_exception := e\<rparr>"
proof -
  have "\<forall>g'. y = Inr g' \<longrightarrow> (\<exists>p e. g' = g\<lparr>gdb_arm := p, target_exception := e\<rparr>)" if "cont_loop Es ins g = Some y" for y
  proof (rule cont_loop.raw_induct
      [of "\<lambda>Es ins g y. \<forall>g'. y = Inr g' \<longrightarrow> (\<exists>p e. g' = g\<lparr>gdb_arm := p, target_exception := e\<rparr>)", OF _ that], goal_cases)
    case (1 loop Es ins g y)
    note ind = 1
    have stop: "\<exists>p e. g = g\<lparr>gdb_arm := p, target_exception := e\<rparr>"
      by (intro exI [of _ "gdb_arm g"] exI [of _ "target_exception g"]) simp
    show ?case
    proof (cases "arm_step (Es 0) (gdb_arm g)")
      case (Inl h)
      with ind(2) stop show ?thesis by (auto simp: Let_def split: if_splits)
    next
      case (Inr x)
      with ind(2) stop show ?thesis by (auto simp: Let_def split: if_splits dest!: ind(1))
    qed
  qed
  with assms show ?thesis by blast
qed

lemma step_ends: "arm_step E p = Inl e \<Longrightarrow> e = Exit 0"
proof -
  obtain r ins q where f: "arm_fetch p (uninit_ins E) = (r, ins, q)" by (metis prod_cases3)
  assume "arm_step E p = Inl e"
  then show "e = Exit 0"
    by (auto simp: arm_step_def arm_execute_unfold [OF f] arm_dispatch_halt split: if_splits sum.splits)
qed

lemma cont_loop_ends:
  assumes "cont_loop Es ins g = Some (Inl e)"
  shows "e = Exit 0"
proof -
  have "\<forall>e. y = Inl e \<longrightarrow> e = Exit 0" if "cont_loop Es ins g = Some y" for y
  proof (rule cont_loop.raw_induct [of "\<lambda>Es ins g y. \<forall>e. y = Inl e \<longrightarrow> e = Exit 0", OF _ that], goal_cases)
    case (1 loop Es ins g y)
    then show ?case
      by (cases "arm_step (Es 0) (gdb_arm g)") (auto simp: Let_def split: if_splits dest: step_ends dest!: 1(1))
  qed
  with assms show ?thesis by blast
qed

lemma stop_reason_answers:
  assumes "h \<noteq> Read_memory"
  shows "answers E h arg g (gdb_send_stop_reason (g\<lparr>gdb_arm := p, target_exception := e\<rparr>))"
    "answers E h arg g (gdb_send_stop_reason g)"
  using assms by (simp_all add: gdb_send_stop_reason_def answersI reply_literals)

lemma registers_answers: "answers E Read_general_registers arg g (read_general_registers g arg)"
proof -
  let ?x = "ascii ''xxxxxxxx''"
  have x: "list_all wire_char ?x" "length ?x = 8" by (simp_all add: ascii_def wire_char_def plain_char_def)
  let ?r = "\<lambda>f v w. concat (map (\<lambda>i. write_uint32 (f i)) [0..<15]) @ write_uint32 v @
      concat (replicate (8 * 3) ?x) @ ?x @ write_uint32 w"
  have "length (concat (map (\<lambda>i. write_uint32 (f i)) [0..<15])) = 120" for f :: "nat \<Rightarrow> u32"
    by (simp add: length_concat comp_def sum_list_triv)
  moreover have "length (concat (replicate (8 * 3) ?x)) = 192" by (simp add: length_concat x(2) sum_list_replicate)
  moreover have "list_all wire_char (concat (map (\<lambda>i. write_uint32 (f i)) [0..<15]))" for f :: "nat \<Rightarrow> u32"
    using wire_char_write_uint32 by (auto simp: list_all_iff)
  moreover have "list_all wire_char (concat (replicate (8 * 3) ?x))" using x(1) by (auto simp: list_all_iff)
  ultimately have "reply_of E Read_general_registers arg (?r f v w)" for f :: "nat \<Rightarrow> u32" and v w
    using x by (simp add: reply_of_def wire_char_write_uint32 del: upt_rec_numeral)
  then show ?thesis
    unfolding read_general_registers_def gdb_send_data_def [symmetric] Let_def by (rule answersI(3))
qed

lemma handler_answers:
  assumes "run_handler Es h g arg = Some r" "h \<noteq> Kill_request"
  shows "answers (Es 0) h arg g r"
proof (cases h)
  case Cont
  then show ?thesis using assms
    by (auto simp: run_handler_def cont_def stop_reason_answers split: option.splits sum.splits
        dest!: cont_loop_output cont_loop_ends)
next
  case Read_general_registers
  then show ?thesis using assms by (auto simp: run_handler_def registers_answers)
next
  case Read_memory
  have "reply_of (Es 0) Read_memory arg (read_memory_loop mem a v
      (unat (snd (scan_hex_pair arg (uninit_val (Es 0)) (uninit_val (Es 0))))))" for mem a v
    by (simp add: reply_of_def wire_char_read_memory length_read_memory_loop)
  with Read_memory show ?thesis using assms
    by (auto simp: run_handler_def read_memory_def gdb_send_data_def [symmetric] case_prod_beta intro!: answersI)
next
  case Read_register
  have "reply_of (Es 0) Read_register arg (write_uint32 v)" for v by (simp add: reply_of_def wire_char_write_uint32)
  with Read_register show ?thesis using assms
    by (auto simp: run_handler_def gdb_read_register_def gdb_send_data_def [symmetric] Let_def
        intro!: answersI split: if_splits)
next
  case Query
  have "reply_of (Es 0) Query arg []" using reply_literals [of Query "[]"] by (simp add: ascii_def)
  with Query show ?thesis using assms
    by (auto simp: run_handler_def query_def reply_literals intro!: answersI)
next
  case Step
  then show ?thesis using assms
    by (auto simp: run_handler_def gdb_step_def stop_reason_answers split: sum.splits dest!: step_ends)
next
  case Write_memory_binary
  have "answers (Es 0) h arg g (gdb_send_data (g\<lparr>gdb_arm := p\<rparr>) (ascii s))" if "s = ''OK'' \<or> s = ''E02''" for p s
    using that Write_memory_binary by (intro answersI reply_literals) auto
  with Write_memory_binary show ?thesis using assms
    by (auto simp: run_handler_def write_memory_binary_def case_prod_beta Let_def split: option.splits if_splits)
qed (use assms in \<open>auto simp: run_handler_def reason_def set_thread_def write_general_registers_def gdb_write_register_def Let_def
    reply_literals stop_reason_answers intro!: answersI split: if_splits option.splits\<close>)

text \<open>With one byte more than 509 the answer no longer fits.\<close>

lemma large_request_overruns:
  assumes "scan_hex_pair data (uninit_val E) (uninit_val E) = (address, sz)" "509 < unat sz"
  shows "read_memory E gdb data = Inl Undefined"
proof -
  have "0 \<notin> set (read_memory_loop mem address v n)" for mem v n using wire_char_read_memory wire_char_no_0 by blast
  then show ?thesis using assms
    by (simp add: read_memory_def gdb_send_data_def [symmetric] gdb_send_data_eq length_read_memory_loop)
qed

section \<open>The invariant of the connection\<close>

text \<open>Everything written is a message, and so is the packet kept for a retransmission.\<close>

definition wire_ok :: "(u8 list \<Rightarrow> bool) \<Rightarrow> gdb \<Rightarrow> bool" where
  "wire_ok good g \<longleftrightarrow>
     list_all (message good) (gdb_out g) \<and> gdb_len g \<le> length (gdb_packet g) \<and>
     (let m = take (gdb_len g) (gdb_packet g) in m = [] \<or> framed good m)"

text \<open>The requests a token may bring, for the handlers that reply to it.\<close>

fun allowed_token :: "(gdb_handler \<Rightarrow> u8 list \<Rightarrow> bool) \<Rightarrow> token \<Rightarrow> bool" where
  "allowed_token allowed (Packet pkt) \<longleftrightarrow>
     (let pkt = pkt[max 1 (length pkt - 3) := 0]
      in case handler (pkt ! 1) of None \<Rightarrow> True | Some h \<Rightarrow> allowed h (drop 2 pkt))"
| "allowed_token allowed t \<longleftrightarrow> True"

definition wire_inv :: "(u8 list \<Rightarrow> bool) \<Rightarrow> (gdb_handler \<Rightarrow> u8 list \<Rightarrow> bool) \<Rightarrow> sim \<Rightarrow> bool" where
  "wire_inv good allowed s \<longleftrightarrow>
     wire_ok good (pd_gdb (gdb_state s)) \<and> list_all (allowed_token allowed) (gdb_tokens s) \<and>
     (case open_request (gdb_at s) of None \<Rightarrow> True | Some (Es, pkt, h, arg) \<Rightarrow> allowed h arg)"

lemma wire_ok_updates [simp]:
  "wire_ok good (g\<lparr>gdb_arm := p\<rparr>) = wire_ok good g" "wire_ok good (g\<lparr>target_exception := e\<rparr>) = wire_ok good g"
  "wire_ok good (g\<lparr>gdb_shut := b\<rparr>) = wire_ok good g"
  by (simp_all add: wire_ok_def)

lemma wire_ok_output [simp]:
  "wire_ok good g \<Longrightarrow> wire_ok good (gdb_send_ack g)"
  "wire_ok good g \<Longrightarrow> wire_ok good (gdb_require_retransmission g)"
  "wire_ok good g \<Longrightarrow> wire_ok good (gdb_transmit_packet g)"
  by (auto simp: wire_ok_def gdb_send_ack_def gdb_require_retransmission_def gdb_transmit_packet_def rio_out_def
      message_def ascii_def Let_def)

lemma wire_ok_sent:
  "wire_ok good g \<Longrightarrow> good payload \<Longrightarrow> wire_ok good (sent_packet g (frame payload (sum_list payload)))"
  by (simp add: wire_ok_def message_def Let_def)

lemma wire_ok_handle_error: "wire_ok good (pd_gdb d) \<Longrightarrow> wire_ok good (pd_gdb (handle_error d))"
  by (simp add: handle_error_def)

lemma wire_ok_action:
  "\<not> is_packet_token t \<Longrightarrow> scanner_action Es d t = Some (Inr d') \<Longrightarrow> wire_ok good (pd_gdb d) \<Longrightarrow> wire_ok good (pd_gdb d')"
  by (cases t) (auto simp: scanner_action_def add_character_to_error_def wire_ok_handle_error Let_def)

lemma wire_inv_other:
  "irq_step_thread s s' \<or> main_step_thread s s' \<Longrightarrow> wire_inv good allowed s \<Longrightarrow> wire_inv good allowed s'"
  by (elim disjE irq_step_threadE main_step_threadE) (simp_all add: wire_inv_def)

text \<open>
  A language of replies: the payloads the server may send, if it is only asked for what is allowed. The
  empty payload is the reply to an unknown request.
\<close>

locale reply_language =
  fixes good :: "u8 list \<Rightarrow> bool"
    and allowed :: "gdb_handler \<Rightarrow> u8 list \<Rightarrow> bool"
  assumes empty_good: "good []"
    and reply_good: "allowed h arg \<Longrightarrow> reply_of E h arg payload \<Longrightarrow> good payload"
begin

lemma ok_handler:
  assumes "run_handler Es h g arg = Some (Inr g')" "allowed h arg" "wire_ok good g"
  shows "wire_ok good g'"
proof (cases "h = Kill_request")
  case True
  then show ?thesis using assms by (auto simp: run_handler_def kill_request_def)
next
  case False
  from handler_answers [OF assms(1) this] obtain p e payload where a: "reply_of (Es 0) h arg payload"
    "gdb_send_data (g\<lparr>gdb_arm := p, target_exception := e\<rparr>) payload = Inr g'"
    by (auto simp: answers_def)
  have "0 \<notin> set payload" using a(1) wire_char_no_0 by (simp add: reply_of_def)
  then have "g' = sent_packet (g\<lparr>gdb_arm := p, target_exception := e\<rparr>) (frame payload (sum_list payload))"
    using a(2) by (simp add: gdb_send_data_eq split: if_splits)
  moreover have "good payload" by (rule reply_good [OF assms(2) a(1)])
  ultimately show ?thesis using wire_ok_sent [where good = good and payload = payload] assms(3) by simp
qed

lemma ok_request:
  assumes "packet_request E g pkt = Inr (g', req)" "allowed_token allowed (Packet pkt)" "wire_ok good g"
  shows "wire_ok good g'" "req = Some (h, arg) \<Longrightarrow> allowed h arg"
proof -
  have "wire_ok good (literal_reply (gdb_send_ack g) [])"
    using wire_ok_sent [OF wire_ok_output(1) [OF assms(3)] empty_good] by (simp add: literal_reply_def ascii_def)
  then show "wire_ok good g'" "req = Some (h, arg) \<Longrightarrow> allowed h arg"
    using assms by (auto simp: packet_request_def send_literal Let_def split: if_splits option.splits)
qed

lemma inv_gdb: "gdb_step_thread s s' \<Longrightarrow> wire_inv good allowed s \<Longrightarrow> wire_inv good allowed s'"
proof (induction rule: gdb_step_thread.induct)
  case (gdb_token s t ts Es data)
  then show ?case by (auto simp: wire_inv_def dest: wire_ok_action)
next
  case (gdb_packet s pkt ts data Es gdb req)
  then have "wire_ok good (pd_gdb data)" "allowed_token allowed (Packet pkt)"
    by (auto simp: wire_inv_def wire_ok_handle_error)
  from ok_request [OF gdb_packet(4) this(2,1)] gdb_packet show ?case
    by (auto simp: wire_inv_def split: option.splits)
next
  case (gdb_leave s Es pkt h arg p gdb)
  then have "wire_ok good gdb" by (intro ok_handler [OF gdb_leave(2)]) (simp_all add: wire_inv_def)
  with gdb_leave show ?case by (simp add: wire_inv_def)
qed (simp_all add: wire_inv_def)

lemma inv_step: "thread_step s s' \<Longrightarrow> wire_inv good allowed s \<Longrightarrow> wire_inv good allowed s'"
  by (erule thread_stepE) (blast intro: inv_gdb wire_inv_other)+

lemma inv_reached:
  assumes "thread_run (sim_start p heap tokens bytes) s" "list_all (allowed_token allowed) tokens"
  shows "wire_inv good allowed s"
proof -
  have "wire_inv good allowed (sim_start p heap tokens bytes)"
    using assms(2) by (simp add: wire_inv_def sim_start_def wire_ok_def gdb_scanner_start_def gdb_init_data_def)
  with assms(1) show ?thesis by (induction rule: thread_run.induct) (auto intro: inv_step)
qed

lemma inv_run:
  assumes "thread_run (sim_start p heap tokens bytes) s" "list_all (allowed_token allowed) tokens"
  shows "wire_ok good (pd_gdb (gdb_state s))"
  using inv_reached [OF assms] by (simp add: wire_inv_def)

end

interpretation readable: reply_language "list_all wire_char" "\<lambda>_ _. True"
  by unfold_locales (simp_all add: reply_of_def)

text \<open>A request for memory that names its size, of at most 509 bytes.\<close>

definition modest_request :: "gdb_handler \<Rightarrow> u8 list \<Rightarrow> bool" where
  "modest_request h arg \<longleftrightarrow> (h = Read_memory \<longrightarrow> unat (snd (scan_hex_pair arg 0xFFFFFFFF 0xFFFFFFFF)) \<le> 509)"

lemma modest_size: "modest_request Read_memory arg \<Longrightarrow> unat (snd (scan_hex_pair arg a b)) \<le> 509"
  by (auto simp: modest_request_def scan_hex_pair_def split: option.splits if_splits)

interpretation short: reply_language "\<lambda>payload. length payload + 5 \<le> MAX_PACKET_SIZE" modest_request
proof (unfold_locales, goal_cases)
  case (2 h arg E payload)
  then show ?case using modest_size [of arg "uninit_val E" "uninit_val E"]
    by (cases "h = Read_memory") (auto simp: reply_of_def)
qed simp

text \<open>
  Such requests never make the server write past its packet array: what is left of undefined behaviour is the use of the
  processor after \<^verbatim>\<open>main\<close> has freed it.
\<close>

lemma answers_defined:
  assumes "answers E h arg g r" "modest_request h arg"
  shows "r \<noteq> Inl Undefined"
proof (rule notI)
  assume "r = Inl Undefined"
  then obtain payload g2 where p: "reply_of E h arg payload" "gdb_send_data g2 payload = Inl Undefined"
    using assms(1) by (auto simp: answers_def)
  then have "0 \<notin> set payload" "length payload + 5 \<le> MAX_PACKET_SIZE"
    using wire_char_no_0 short.reply_good [OF assms(2)] by (auto simp: reply_of_def)
  then show False using p(2) by (simp add: gdb_send_data_eq split: if_splits)
qed

lemma modest_handler_defined: "run_handler Es h g arg = Some (Inl e) \<Longrightarrow> modest_request h arg \<Longrightarrow> e \<noteq> Undefined"
  using handler_answers [of Es h g arg "Inl e"] answers_defined [of "Es 0" h arg g "Inl e"]
  by (cases "h = Kill_request") (auto simp: run_handler_def kill_request_def)

lemma undefined_only_freed:
  assumes "thread_run (sim_start p heap tokens bytes) s" "list_all (allowed_token modest_request) tokens"
  shows "ended s = Some Undefined \<longrightarrow> arm_freed s"
  using assms
proof (induction rule: thread_run.induct)
  case begin_run
  show ?case by (simp add: sim_start_def)
next
  case (step_run s s')
  then have "wire_inv (\<lambda>payload. length payload + 5 \<le> MAX_PACKET_SIZE) modest_request s"
    by (intro short.inv_reached)
  then have "modest_request h arg" if "gdb_at s = G_run Es pkt h arg q" for Es pkt h arg q
    using that by (simp add: wire_inv_def)
  with step_run(2) show ?case
    by (elim thread_stepE gdb_step_threadE irq_step_threadE main_step_threadE)
      (auto dest: modest_handler_defined)
qed

section \<open>What the other side reads\<close>

definition message_tokens :: "u8 list \<Rightarrow> token list" where
  "message_tokens m = (if m = [] then [] else if m = [43] then [Ack] else if m = [45] then [Retransmit] else [Packet m])"

lemma framed_is_packet: "framed (list_all wire_char) m \<Longrightarrow> is_packet m"
proof -
  assume f: "framed (list_all wire_char) m"
  obtain h l where hl: "hex2 (sum_list (payload_of m)) = [h, l]" by (simp add: hex2_def)
  have "m = 36 # payload_of m @ [35, h, l]" using f by (simp add: framed_def frame_def hl)
  moreover have "\<forall>c \<in> set (payload_of m). plain_char c" using f by (auto simp: framed_def list_all_iff wire_char_def)
  ultimately show ?thesis using hex2_chars [OF hl] unfolding is_packet_iff by blast
qed

lemma message_tokens_scan:
  assumes "message (list_all wire_char) m"
  shows "list_all definite (message_tokens m)" "concat (map text_of (message_tokens m)) = m"
  using assms framed_is_packet [of m] by (auto simp: message_def message_tokens_def)

lemma scan_messages:
  "list_all (message (list_all wire_char)) ms \<Longrightarrow> scan (concat ms @ rest) = concat (map message_tokens ms) @ scan rest"
  by (induction ms) (use message_tokens_scan scan_append_definite in \<open>fastforce simp: \<close>)+

text \<open>A run in which the server answers a request it does not know.\<close>

lemma unknown_request_run:
  assumes "pkt = ascii ''$!#21''" "s0 = sim_start p heap (Packet pkt # ts) bytes"
  shows "\<exists>s. thread_run s0 s \<and> gdb_out (pd_gdb (gdb_state s)) = [ascii ''+'', ascii ''$#00'']"
proof -
  let ?s1 = "s0\<lparr>gdb_at := G_scan\<rparr>"
  let ?d = "handle_error (gdb_state ?s1)"
  have r1: "thread_run s0 ?s1" using run_gdb [OF begin_run _ gdb_accept [of s0]] by (simp add: assms(2) sim_start_def)
  have d: "pd_gdb ?d = gdb_init_data p heap"
    by (simp add: assms(2) sim_start_def gdb_scanner_start_def handle_error_def)
  let ?g = "literal_reply (gdb_send_ack (gdb_init_data p heap)) []"
  have "scan_hex None (ascii ''21'') = Some (33, [])" by code_simp
  then have q: "packet_request (x86_env 0) (gdb_init_data p heap) pkt = Inr (?g, None)"
    by (simp add: assms(1) packet_request_def ascii_def handler_def send_literal(2))
  have out: "gdb_out ?g = [ascii ''+'', ascii ''$#00'']"
    by (simp add: gdb_send_ack_def rio_out_def gdb_init_data_def frame_def) code_simp
  have "gdb_step_thread ?s1 (?s1\<lparr>gdb_state := ?d\<lparr>pd_gdb := ?g\<rparr>, gdb_tokens := ts,
      gdb_at := (case None of None \<Rightarrow> G_scan | Some (h, arg) \<Rightarrow> G_lock (\<lambda>_. x86_env 0) pkt h arg)\<rparr>)"
    by (rule gdb_packet [where Es = "\<lambda>_. x86_env 0"]) (use d q in \<open>simp_all add: assms(2) sim_start_def accepted_def gdb_scanner_start_def gdb_init_data_def\<close>)
  from run_gdb [OF r1 _ this] show ?thesis by (auto simp: out assms(2) sim_start_def simp del: literal_reply_simps)
qed

section \<open>Properties\<close>



text \<open>
  C20: the type of what the server sends. In every reachable state each write to the connection is empty (a retransmission
  before the first packet), an acknowledgement, a retransmission request, or a packet: a dollar sign, a payload without zero
  bytes, dollar and hash signs, a hash sign and the two digits of the payload's checksum. A reader with the
  rules of the scanner cuts the stream into exactly these messages. No memory request asks for more than 509
  bytes, so that no answer overruns the packet array.
\<close>

theorem messages_well_typed:
  assumes "thread_run (sim_start p heap tokens bytes) s" "list_all (allowed_token modest_request) tokens"
    and "g = pd_gdb (gdb_state s)"
  shows "(ended s = Some Undefined \<longrightarrow> arm_freed s) \<and>
         list_all (message (list_all wire_char)) (gdb_out g) \<and>
         scan (concat (gdb_out g)) = concat (map message_tokens (gdb_out g)) @ [End_of_input]"
proof -
  have "list_all (allowed_token (\<lambda>_ _. True)) tokens"
  proof -
    have "allowed_token (\<lambda>_ _. True) t" for t by (cases t) (simp_all add: Let_def split: option.split)
    then show ?thesis by (simp add: list_all_iff)
  qed
  from readable.inv_run [OF assms(1) this] have "list_all (message (list_all wire_char)) (gdb_out g)"
    by (simp add: wire_ok_def assms(3))
  with scan_messages [OF this, of "[]"] undefined_only_freed [OF assms(1,2)] show ?thesis by simp
qed

theorem messages_well_typed_witness:
  "\<exists>s. thread_run (sim_start (main_processor (\<lambda>_. 0) (\<lambda>_. 5) 0) [] [Packet (ascii ''$!#21'')] []) s \<and>
     scan (concat (gdb_out (pd_gdb (gdb_state s)))) = [Ack, Packet (ascii ''$#00''), End_of_input]"
proof -
  obtain s where s: "thread_run (sim_start (main_processor (\<lambda>_. 0) (\<lambda>_. 5) 0) [] [Packet (ascii ''$!#21'')] []) s"
    "gdb_out (pd_gdb (gdb_state s)) = [ascii ''+'', ascii ''$#00'']"
    using unknown_request_run [OF refl refl] by blast
  have "concat (map message_tokens [ascii ''+'', ascii ''$#00'']) = [Ack, Packet (ascii ''$#00'')]" by code_simp
  moreover have "list_all (allowed_token modest_request) [Packet (ascii ''$!#21'')]" by code_simp
  ultimately show ?thesis using s messages_well_typed [OF s(1) _ refl] by auto
qed

text \<open>
  C21: the packet buffer. If every memory request among the packets received names a size of at most 509 bytes, then
  in every reachable state the packet the server keeps, with the zero byte that ends it, fits in the 1024
  bytes of its array, and so did every packet it sent: no handler has come to write past it.
\<close>

theorem replies_fit_packet:
  assumes "thread_run (sim_start p heap tokens bytes) s" "list_all (allowed_token modest_request) tokens"
    and "g = pd_gdb (gdb_state s)"
  shows "gdb_len g < MAX_PACKET_SIZE \<and> (\<forall>m. m \<in> set (gdb_out g) \<longrightarrow> length m < MAX_PACKET_SIZE) \<and>
         (ended s = Some Undefined \<longrightarrow> arm_freed s)"
proof -
  let ?good = "\<lambda>payload :: u8 list. length payload + 5 \<le> MAX_PACKET_SIZE"
  have ok: "wire_ok ?good g" using short.inv_run [OF assms(1,2)] by (simp add: assms(3))
  have "framed ?good m \<Longrightarrow> length m < MAX_PACKET_SIZE" for m
    using framed_length [of ?good m] by (auto simp: framed_def)
  with ok undefined_only_freed [OF assms(1,2)] show ?thesis
    by (fastforce simp: wire_ok_def message_def list_all_iff Let_def)
qed

theorem replies_fit_packet_witness:
  "\<exists>s. thread_run (sim_start (main_processor (\<lambda>_. 0) (\<lambda>_. 5) 0) []
       [Packet (ascii ''$!#21''), Packet (ascii ''$m0,1fd#54'')] []) s \<and>
     gdb_out (pd_gdb (gdb_state s)) = [ascii ''+'', ascii ''$#00''] \<and> gdb_len (pd_gdb (gdb_state s)) < 1024"
proof -
  let ?ts = "[Packet (ascii ''$!#21''), Packet (ascii ''$m0,1fd#54'')]"
  obtain s where s: "thread_run (sim_start (main_processor (\<lambda>_. 0) (\<lambda>_. 5) 0) [] ?ts []) s"
    "gdb_out (pd_gdb (gdb_state s)) = [ascii ''+'', ascii ''$#00'']"
    using unknown_request_run [OF refl refl] by blast
  have "list_all (allowed_token modest_request) ?ts" by code_simp
  with s replies_fit_packet [OF s(1) _ refl] show ?thesis by blast
qed

end
