(* ===== verification/Arm_Flags.thy ===== *)
theory Arm_Flags
  imports Arm_Data_Processing
begin

text \<open>
  The flags of the architecture for all sixteen data processing opcodes (ARM manual A4.1), in terms of the integers,
  and where the status word that \<open>dp_status\<close> computes is the right one. The predicate \<open>agreed_flags\<close> is
  exact for the logical instructions, additions, subtractions and comparisons; for the instructions with a
  borrow and the reversed subtractions it is a sufficient condition.
\<close>

section \<open>The architecture's flags\<close>

text \<open>C and V of an instruction that sets them; \<open>c\<close> and \<open>v\<close> are the old ones.\<close>

definition arch_CV :: "u32 \<Rightarrow> u32 \<Rightarrow> u32 \<Rightarrow> bool \<Rightarrow> bool \<Rightarrow> bool \<Rightarrow> bool \<times> bool" where
  "arch_CV opc n m shifter_carry c v =
     (let sum = (\<lambda>x. (4294967296 \<le> uint n + uint m + x, \<not> signed_range (sint n + sint m + x)));
          diff = (\<lambda>a b x. (uint b + x \<le> uint a, \<not> signed_range (sint a - sint b - x)));
          borrow = (if c then 0 else 1)
      in if opc = op_ADD \<or> opc = op_CMN then sum 0
         else if opc = op_ADC then sum (of_bool c)
         else if opc = op_SUB \<or> opc = op_CMP then diff n m 0
         else if opc = op_SBC then diff n m borrow
         else if opc = op_RSB then diff m n 0
         else if opc = op_RSC then diff m n borrow
         else (shifter_carry, v))"

definition set_flags :: "u32 \<Rightarrow> bool \<Rightarrow> bool \<Rightarrow> bool \<Rightarrow> bool \<Rightarrow> u32" where
  "set_flags cpsr n z c v =
     take_bit 28 cpsr OR push_bit 31 (of_bool n) OR push_bit 30 (of_bool z) OR push_bit 29 (of_bool c) OR
     push_bit 28 (of_bool v)"

definition arch_status :: "u32 \<Rightarrow> u32 \<Rightarrow> u32 \<Rightarrow> u32 \<Rightarrow> bool \<Rightarrow> u32" where
  "arch_status cpsr opc n m shifter_carry =
     (let res = arch_result opc n m (bit cpsr 29);
          (c, v) = arch_CV opc n m shifter_carry (bit cpsr 29) (bit cpsr 28)
      in set_flags cpsr (bit res 31) (res = 0) c v)"

text \<open>
  Where the simulator agrees: \<open>c\<close> is the old carry flag, \<open>sc\<close> the carry its shifter reports and \<open>co\<close> the one
  the architecture's shifter reports.
\<close>

definition agreed_flags :: "u32 \<Rightarrow> u32 \<Rightarrow> u32 \<Rightarrow> bool \<Rightarrow> bool \<Rightarrow> bool \<Rightarrow> bool" where
  "agreed_flags opc n m c sc co \<longleftrightarrow>
     (let right = fst (arch_CV opc n m co c False);
          kept = (c \<or> bit (m - 1) 31 = bit m 31)
      in if opc = op_ADD \<or> opc = op_CMN \<or> opc = op_ADC \<and> \<not> c then sc \<longrightarrow> right
         else if opc = op_ADC then m \<noteq> 0x7FFFFFFF \<and> (if m = 0xFFFFFFFF then sc else sc \<longrightarrow> right)
         else if opc = op_SUB \<or> opc = op_CMP then if n = 0 then m = 0 \<and> sc else sc \<longrightarrow> right
         else if opc = op_SBC then n \<noteq> 0 \<and> kept \<and> (sc \<longrightarrow> right)
         else if opc = op_RSB then n \<noteq> 0 \<and> kept \<and> bit n 31 = bit m 31 \<and> (sc \<longrightarrow> right)
         else if opc = op_RSC then n \<noteq> 0 \<and> bit n 31 = bit m 31 \<and> (sc \<longrightarrow> right)
         else sc = co)"

section \<open>Carry and overflow with a borrow\<close>

lemma uint_add_carry_32: "uint (n + m + 1) = (if uint n + uint m + 1 < 4294967296 then uint n + uint m + 1
    else uint n + uint m + 1 - 4294967296)" for n m :: u32
  using uint32_bounds [of n] uint32_bounds [of m] by (auto simp: uint_add_32)

lemma uint_sub_borrow_32: "uint (n - m - 1) = (if uint m + 1 \<le> uint n then uint n - uint m - 1
    else uint n - uint m - 1 + 4294967296)" for n m :: u32
  using uint32_bounds [of n] uint32_bounds [of m]
  by (auto simp: uint_sub_32; insert uint_ge_0 [of n] uint_ge_0 [of m]; linarith)

lemma sbc_carry:
  "(bit n 31 \<and> \<not> bit m 31 \<or> \<not> bit (n - m - 1) 31 \<and> bit n 31 = bit m 31) \<longleftrightarrow> uint m + 1 \<le> uint n"
  for n m :: u32
  unfolding bit31_iff uint_sub_borrow_32 using uint32_bounds [of n] uint32_bounds [of m]
  by (auto split: if_split; insert uint_ge_0 [of n] uint_ge_0 [of m]; linarith)

lemma sbc_overflow:
  "(bit n 31 \<noteq> bit m 31 \<and> bit n 31 \<noteq> bit (n - m - 1) 31) \<longleftrightarrow> \<not> signed_range (sint n - sint m - 1)"
  for n m :: u32
  unfolding sint_by_bit31 signed_range_def bit31_iff uint_sub_borrow_32
  using uint32_bounds [of n] uint32_bounds [of m]
  by (auto split: if_split; insert uint_ge_0 [of n] uint_ge_0 [of m]; linarith)

lemma adc_carry:
  fixes n m :: u32
  assumes "m \<noteq> 0xFFFFFFFF"
  shows "(bit n 31 \<and> bit (m + 1) 31 \<or> \<not> bit (n + m + 1) 31 \<and> bit n 31 \<noteq> bit (m + 1) 31) \<longleftrightarrow>
         4294967296 \<le> uint n + uint m + 1"
proof -
  have "uint m \<noteq> 0xFFFFFFFF" using assms by (metis word_of_int_uint word_of_int_numeral)
  then have "uint (m + 1) = uint m + 1" using uint32_bounds [of m] by (simp add: uint_add_32)
  then show ?thesis using add_carry [of n "m + 1"] by (simp add: add.assoc)
qed

lemma adc_overflow:
  fixes n m :: u32
  assumes "m \<noteq> 0x7FFFFFFF"
  shows "(bit n 31 = bit (m + 1) 31 \<and> bit (m + 1) 31 \<noteq> bit (n + m + 1) 31) \<longleftrightarrow>
         \<not> signed_range (sint n + sint m + 1)"
proof -
  have "uint m \<noteq> 0x7FFFFFFF" using assms by (metis word_of_int_uint word_of_int_numeral)
  then have "sint (m + 1) = sint m + 1"
    using uint32_bounds [of m] by (auto simp: sint_by_bit31 bit31_iff uint_add_32)
  then show ?thesis using add_overflow [of n "m + 1"] by (simp add: add.assoc)
qed


section \<open>The bits of the status word\<close>

lemma bit_set_flags:
  "bit (set_flags cpsr n z c v) k \<longleftrightarrow>
     (if k = 31 then n else if k = 30 then z else if k = 29 then c else if k = 28 then v
      else k < 28 \<and> bit cpsr k)"
  by (auto simp: set_flags_def bit_simps)

lemma status_eq_iff:
  "dp_status cpsr opc n m res sc = set_flags cpsr (bit res 31) (res = 0) c v \<longleftrightarrow>
     bit (dp_status cpsr opc n m res sc) CPSR_C = c \<and> bit (dp_status cpsr opc n m res sc) CPSR_V = v"
  (is "?s = ?f \<longleftrightarrow> _")
proof
  assume "?s = ?f"
  then show "bit ?s CPSR_C = c \<and> bit ?s CPSR_V = v" by (simp add: bit_set_flags)
next
  assume cv: "bit ?s CPSR_C = c \<and> bit ?s CPSR_V = v"
  have "k < 28 \<or> k = 28 \<or> k = 29 \<or> k = 30 \<or> k = 31" if "k < 32" for k :: nat using that by linarith
  then show "?s = ?f"
    using cv dp_status_NZ [of cpsr opc n m res sc]
    by (fastforce simp: bit_set_flags bit_dp_status_low intro!: bit_word_eqI)
qed

lemma arch_result_borrow:
  "arch_result op_ADC n m c = (if c then n + m + 1 else n + m)"
  "arch_result op_SBC n m c = (if c then n - m else n - m - 1)"
  "arch_result op_RSB n m c = m - n"
  "arch_result op_RSC n m c = (if c then m - n else m - n - 1)"
  by (simp_all add: arch_result_def wi_hom_syms)

lemma dp_status_ADC_bits:
  "bit (dp_status cpsr op_ADC n m res sc) CPSR_C \<longleftrightarrow>
     sc \<or> bit n 31 \<and> bit (if bit cpsr 29 then m + 1 else m) 31 \<or>
     \<not> bit res 31 \<and> bit n 31 \<noteq> bit (if bit cpsr 29 then m + 1 else m) 31"
  "bit (dp_status cpsr op_ADC n m res sc) CPSR_V \<longleftrightarrow>
     bit n 31 = bit (if bit cpsr 29 then m + 1 else m) 31 \<and> bit (if bit cpsr 29 then m + 1 else m) 31 \<noteq> bit res 31"
  by (simp_all add: dp_status_def Let_def bit_eq_conv)

lemma dp_status_reversed_bits:
  assumes "opc = op_SBC \<or> opc = op_RSB \<or> opc = op_RSC" "n \<noteq> 0"
    and "bit (if opc \<noteq> op_RSC \<and> \<not> bit cpsr 29 then m - 1 else m) 31 = bit m 31"
  shows "bit (dp_status cpsr opc n m res sc) CPSR_C \<longleftrightarrow>
           sc \<or> bit n 31 \<and> \<not> bit m 31 \<or> \<not> bit res 31 \<and> bit n 31 = bit m 31"
    "bit (dp_status cpsr opc n m res sc) CPSR_V \<longleftrightarrow> bit n 31 \<noteq> bit m 31 \<and> bit n 31 \<noteq> bit res 31"
  using assms
  by (elim disjE; cases "bit cpsr 29"; simp add: dp_status_def Let_def bit_eq_conv bit_not_31; blast)+


lemma arch_status_iff:
  assumes "arch_CV opc n m co (bit cpsr 29) (bit cpsr 28) = (c, v)" "res = arch_result opc n m (bit cpsr 29)"
  shows "dp_status cpsr opc n m res sc = arch_status cpsr opc n m co \<longleftrightarrow>
     bit (dp_status cpsr opc n m res sc) CPSR_C = c \<and> bit (dp_status cpsr opc n m res sc) CPSR_V = v"
  using assms by (simp add: arch_status_def status_eq_iff Let_def)

lemma add_agreed:
  assumes "opc = op_ADD \<or> opc = op_CMN \<or> opc = op_ADC \<and> \<not> bit cpsr 29" "res = arch_result opc n m (bit cpsr 29)"
  shows "dp_status cpsr opc n m res sc = arch_status cpsr opc n m co \<longleftrightarrow> agreed_flags opc n m (bit cpsr 29) sc co"
proof -
  have "arch_CV opc n m co (bit cpsr 29) (bit cpsr 28) =
      (4294967296 \<le> uint n + uint m, \<not> signed_range (sint n + sint m))"
    using assms(1) by (auto simp: arch_CV_def Let_def)
  moreover have "res = n + m" using assms by (auto simp: arch_result_simps arch_result_borrow)
  moreover have "bit (dp_status cpsr opc n m (n + m) sc) CPSR_C \<longleftrightarrow> sc \<or> 4294967296 \<le> uint n + uint m"
    "bit (dp_status cpsr opc n m (n + m) sc) CPSR_V \<longleftrightarrow> \<not> signed_range (sint n + sint m)"
    using assms(1) dp_status_add [of opc cpsr n m sc]
    unfolding add_carry [symmetric] add_overflow [symmetric] by (auto simp: dp_status_ADC_bits)
  ultimately show ?thesis
    using assms by (subst arch_status_iff) (auto simp: agreed_flags_def arch_CV_def Let_def)
qed

lemma adc_agreed:
  assumes "opc = op_ADC" "bit cpsr 29" "res = arch_result opc n m (bit cpsr 29)"
  shows "dp_status cpsr opc n m res sc = arch_status cpsr opc n m co \<longleftrightarrow> agreed_flags opc n m (bit cpsr 29) sc co"
proof -
  have cv: "arch_CV opc n m co (bit cpsr 29) (bit cpsr 28) =
      (4294967296 \<le> uint n + uint m + 1, \<not> signed_range (sint n + sint m + 1))"
    using assms(1,2) by (simp add: arch_CV_def Let_def)
  have res: "res = n + m + 1" using assms by (simp add: arch_result_borrow)
  have bits: "bit (dp_status cpsr opc n m res sc) CPSR_C \<longleftrightarrow>
      sc \<or> bit n 31 \<and> bit (m + 1) 31 \<or> \<not> bit (n + m + 1) 31 \<and> bit n 31 \<noteq> bit (m + 1) 31"
    "bit (dp_status cpsr opc n m res sc) CPSR_V \<longleftrightarrow>
      bit n 31 = bit (m + 1) 31 \<and> bit (m + 1) 31 \<noteq> bit (n + m + 1) 31"
    using assms(1,2) by (simp_all add: dp_status_ADC_bits res)
  have agreed: "agreed_flags opc n m (bit cpsr 29) sc co \<longleftrightarrow>
      m \<noteq> 0x7FFFFFFF \<and> (if m = 0xFFFFFFFF then sc else sc \<longrightarrow> 4294967296 \<le> uint n + uint m + 1)"
    using assms(1,2) by (simp add: agreed_flags_def arch_CV_def Let_def)
  consider "m = 0x7FFFFFFF" | "m = 0xFFFFFFFF" | "m \<noteq> 0x7FFFFFFF" "m \<noteq> 0xFFFFFFFF" by blast
  then show ?thesis
  proof cases
    case 1
    have "bit (n + m + 1) 31 \<longleftrightarrow> \<not> bit n 31"
      using uint32_bounds [of n] uint_add_32 [of "0x80000000" n] by (auto simp: 1 bit31_iff)
    moreover have "\<not> signed_range (sint n + sint m + 1) \<longleftrightarrow> \<not> bit n 31"
      using uint32_bounds [of n] by (auto simp: 1 sint_by_bit31 bit31_iff signed_range_def)
    moreover have "bit (m + 1) 31" by (simp add: 1 bit31_iff)
    ultimately show ?thesis unfolding arch_status_iff [OF cv assms(3)] bits agreed using 1 by blast
  next
    case 2
    have "m = - 1" by (simp add: 2)
    then have m: "m + 1 = 0" "n + m + 1 = n" "\<not> bit (0 :: u32) 31" by simp_all
    have "4294967296 \<le> uint n + uint m + 1" using uint_ge_0 [of n] by (simp add: 2)
    moreover have "\<not> signed_range (sint n + sint m + 1) \<longleftrightarrow> bit n 31 = False \<and> False \<noteq> bit n 31"
    proof -
      have "m \<noteq> 0x7FFFFFFF" by (simp add: 2)
      from adc_overflow [OF this, of n] m(3) show ?thesis unfolding m by simp
    qed
    ultimately show ?thesis unfolding arch_status_iff [OF cv assms(3)] bits agreed m using 2 by auto
  next
    case 3
    then show ?thesis
      unfolding arch_status_iff [OF cv assms(3)] bits adc_overflow [OF 3(1)] agreed
      using adc_carry [OF 3(2), of n] by auto
  qed
qed

lemma sub_agreed:
  assumes "opc = op_SUB \<or> opc = op_CMP" "res = arch_result opc n m (bit cpsr 29)"
  shows "dp_status cpsr opc n m res sc = arch_status cpsr opc n m co \<longleftrightarrow> agreed_flags opc n m (bit cpsr 29) sc co"
proof (cases "n = 0")
  case False
  have cv: "arch_CV opc n m co (bit cpsr 29) (bit cpsr 28) = (uint m \<le> uint n, \<not> signed_range (sint n - sint m))"
    using assms(1) by (elim disjE) (simp_all add: arch_CV_def Let_def)
  have res: "res = n - m" using assms by (auto simp: arch_result_simps)
  have "agreed_flags opc n m (bit cpsr 29) sc co \<longleftrightarrow> (sc \<longrightarrow> uint m \<le> uint n)"
    using assms(1) False by (elim disjE) (simp_all add: agreed_flags_def arch_CV_def Let_def)
  then show ?thesis
    unfolding arch_status_iff [OF cv assms(2)] unfolding res dp_status_sub [OF assms(1) False] by blast
next
  case True
  let ?s = "dp_status cpsr opc n m res sc"
  have cv: "arch_CV opc n m co (bit cpsr 29) (bit cpsr 28) = (uint m \<le> 0, \<not> signed_range (- sint m))"
    using assms(1) True by (auto simp: arch_CV_def Let_def)
  have res: "res = - m" using assms True by (auto simp: arch_result_simps)
  have bits: "bit ?s CPSR_C \<longleftrightarrow> sc \<or> bit m 31 \<and> \<not> bit (- m) 31" "bit ?s CPSR_V \<longleftrightarrow> \<not> bit m 31 \<and> bit (- m) 31"
    using assms(1) True by (auto simp: dp_status_def Let_def bit_eq_conv res)
  have neg: "bit (- m) 31 \<longleftrightarrow> m \<noteq> 0 \<and> uint m \<le> 2147483648"
    using uint32_bounds [of m] uint_sub_32 [of 0 m] by (auto simp: bit31_iff uint_0_iff)
  have agreed: "agreed_flags opc n m (bit cpsr 29) sc co \<longleftrightarrow> m = 0 \<and> sc"
    using assms(1) True by (elim disjE) (simp_all add: agreed_flags_def Let_def)
  have m0: "m = 0 \<longleftrightarrow> uint m = 0" by (simp add: uint_0_iff)
  show ?thesis
    using uint32_bounds [of m]
    unfolding arch_status_iff [OF cv assms(2)] bits neg agreed
    unfolding m0 sint_by_bit31 bit31_iff signed_range_def
    by (auto; insert uint_ge_0 [of m]; linarith)
qed

lemma logical_agreed:
  assumes "logical_op opc" "res = arch_result opc n m (bit cpsr 29)"
  shows "dp_status cpsr opc n m res sc = arch_status cpsr opc n m co \<longleftrightarrow> agreed_flags opc n m (bit cpsr 29) sc co"
proof -
  have "arch_CV opc n m co (bit cpsr 29) (bit cpsr 28) = (co, bit cpsr 28)"
    using assms(1) unfolding logical_op_def by (elim insertE emptyE) (simp_all add: arch_CV_def Let_def)
  moreover have "agreed_flags opc n m (bit cpsr 29) sc co \<longleftrightarrow> sc = co"
    using assms(1) unfolding logical_op_def by (elim insertE emptyE) (simp_all add: agreed_flags_def Let_def)
  ultimately show ?thesis by (simp add: arch_status_iff [OF _ assms(2)] dp_status_logical [OF assms(1)])
qed

lemma reversed_agreed:
  assumes "opc = op_SBC \<or> opc = op_RSB \<or> opc = op_RSC" "res = arch_result opc n m (bit cpsr 29)"
    and "agreed_flags opc n m (bit cpsr 29) sc co"
  shows "dp_status cpsr opc n m res sc = arch_status cpsr opc n m co"
proof -
  have n: "n \<noteq> 0" using assms(1,3) by (auto simp: agreed_flags_def Let_def)
  have kept: "bit (if opc \<noteq> op_RSC \<and> \<not> bit cpsr 29 then m - 1 else m) 31 = bit m 31"
    using assms(1,3) by (auto simp: agreed_flags_def Let_def)
  note bits = dp_status_reversed_bits [OF assms(1) n kept]
  show ?thesis
    using assms(1)
  proof (elim disjE)
    assume opc: "opc = op_SBC"
    then show ?thesis using assms(2,3) unfolding arch_status_iff [OF prod.collapse [symmetric] assms(2)] bits
      using sub_carry [of n m] sub_overflow [of n m] sbc_carry [of n m] sbc_overflow [of n m]
      by (auto simp: arch_CV_def Let_def arch_result_borrow agreed_flags_def)
  next
    assume opc: "opc = op_RSB"
    then show ?thesis using assms(2,3) unfolding arch_status_iff [OF prod.collapse [symmetric] assms(2)] bits
      using sub_carry [of m n] sub_overflow [of m n]
      by (auto simp: arch_CV_def Let_def arch_result_borrow agreed_flags_def)
  next
    assume opc: "opc = op_RSC"
    then show ?thesis using assms(2,3) unfolding arch_status_iff [OF prod.collapse [symmetric] assms(2)] bits
      using sub_carry [of m n] sub_overflow [of m n] sbc_carry [of m n] sbc_overflow [of m n]
      by (auto simp: arch_CV_def Let_def arch_result_borrow agreed_flags_def)
  qed
qed


lemma status_exact:
  assumes "opc \<in> {0, 1, 2, 3, 4, 5, 6, 7, 8, 9, 10, 11, 12, 13, 14, 15}" "opc \<notin> {op_SBC, op_RSB, op_RSC}"
  shows "dp_status cpsr opc n m (arch_result opc n m (bit cpsr 29)) sc = arch_status cpsr opc n m co \<longleftrightarrow>
         agreed_flags opc n m (bit cpsr 29) sc co"
proof -
  consider "logical_op opc" | "opc = op_ADD \<or> opc = op_CMN \<or> opc = op_ADC \<and> \<not> bit cpsr 29"
    | "opc = op_ADC" "bit cpsr 29" | "opc = op_SUB \<or> opc = op_CMP"
    using assms unfolding logical_op_def by blast
  then show ?thesis
  proof cases
    case 1 then show ?thesis by (rule logical_agreed [OF _ refl])
  next
    case 2 then show ?thesis by (rule add_agreed [OF _ refl])
  next
    case 3 then show ?thesis by (rule adc_agreed [OF _ _ refl])
  next
    case 4 then show ?thesis by (rule sub_agreed [OF _ refl])
  qed
qed

lemma status_agreed:
  assumes "opc \<in> {0, 1, 2, 3, 4, 5, 6, 7, 8, 9, 10, 11, 12, 13, 14, 15}" "agreed_flags opc n m (bit cpsr 29) sc co"
    and "res = arch_result opc n m (bit cpsr 29)"
  shows "dp_status cpsr opc n m res sc = arch_status cpsr opc n m co"
proof (cases "opc \<in> {op_SBC, op_RSB, op_RSC}")
  case True
  then show ?thesis using assms(2,3) by (intro reversed_agreed) auto
next
  case False
  from status_exact [OF assms(1) this] assms(2) show ?thesis unfolding assms(3) by (rule iffD2)
qed

section \<open>Properties\<close>

text \<open>
  C8: the flags of a data processing instruction. For all sixteen opcodes, the status word is the one the architecture
  defines whenever the condition \<open>agreed_flags\<close> holds of its operands and carries; and for all but \<open>SBC\<close>, \<open>RSB\<close> and
  \<open>RSC\<close> it is the right one only then.
\<close>

theorem flags_match_architecture:
  assumes "arm_data_processing E p ins = (result, p')" "dp_operand E p ins = (m, sc)"
    and "opc = get_bits ins 24 21" "bit ins 20" "ucast (get_bits ins 15 12) \<noteq> (15 :: u8)"
    and "n = arm_read_register p (ucast (get_bits ins 19 16))"
  shows "(agreed_flags opc n m (bit (arm_read_cpsr p) 29) sc co \<longrightarrow>
            arm_read_cpsr p' = arch_status (arm_read_cpsr p) opc n m co) \<and>
         (opc \<notin> {op_SBC, op_RSB, op_RSC} \<and> arm_read_cpsr p' = arch_status (arm_read_cpsr p) opc n m co \<longrightarrow>
            agreed_flags opc n m (bit (arm_read_cpsr p) 29) sc co)"
proof -
  let ?c = "arm_read_cpsr p"
  have opc: "opc \<in> {0, 1, 2, 3, 4, 5, 6, 7, 8, 9, 10, 11, 12, 13, 14, 15}"
    using opcode_cases [of ins] by (simp only: assms(3))
  have p': "arm_read_cpsr p' = dp_status ?c opc n m (arch_result opc n m (bit ?c 29)) sc"
    using assms(1,4,5) unfolding arm_data_processing_unfold [OF assms(2,4)] assms(3,6)
    by (auto simp: Let_def)
  show ?thesis
    unfolding p' using status_agreed [OF opc _ refl, of n m ?c sc co] status_exact [OF opc, of ?c n m sc co] by blast
qed

theorem flags_match_architecture_witness:
  "let p = \<lparr>cycle_count = 0, arm_reg = (\<lambda>_. 0)(1 := 0xFFFFFFFE, 2 := 3, 16 := 0x20000013),
            arm_mem = memory_create (\<lambda>_. 0) 16 True\<rparr>
   in \<exists>p'. arm_data_processing (x86_env 0) p 0xE0B13002 = (0, p') \<and>
        arm_read_cpsr p' = arch_status 0x20000013 op_ADC 0xFFFFFFFE 3 True \<and> bit (arm_read_cpsr p') CPSR_C"
proof -
  let ?p = "\<lparr>cycle_count = 0, arm_reg = (\<lambda>_. 0)(1 := 0xFFFFFFFE, 2 := 3, 16 := 0x20000013),
            arm_mem = memory_create (\<lambda>_. 0) 16 True\<rparr>"
  have v: "dp_operand (x86_env 0) ?p 0xE0B13002 = (3, True)" "op_ADC = get_bits 0xE0B13002 24 21"
    "bit (0xE0B13002 :: u32) 20" "ucast (get_bits 0xE0B13002 15 12) \<noteq> (15 :: u8)"
    "0xFFFFFFFE = arm_read_register ?p (ucast (get_bits 0xE0B13002 19 16))"
    and w: "arm_read_cpsr ?p = 0x20000013" "agreed_flags op_ADC 0xFFFFFFFE 3 (bit (0x20000013 :: u32) 29) True True"
      "bit (arch_status 0x20000013 op_ADC 0xFFFFFFFE 3 True) CPSR_C"
    by code_simp+
  obtain p' where d: "arm_data_processing (x86_env 0) ?p 0xE0B13002 = (0, p')"
    by (simp add: arm_data_processing_def Let_def case_prod_beta)
  from flags_match_architecture [OF d v, of True] w have "arm_read_cpsr p' = arch_status 0x20000013 op_ADC 0xFFFFFFFE 3 True"
    by simp
  with d w show ?thesis by simp
qed

end
