(* ===== verification/Arm_Reference.thy ===== *)
theory Arm_Reference
  imports Arm_Instruction Arm_Flags
begin

text \<open>
  A reference semantics of the architecture (ARM manual, parts A2 to A5), independent of the simulator. The state has
  the banked registers, the status words and the memory as a partial map of bytes; instructions are decoded
  into a datatype of their own. The predicate \<open>agreed\<close> says of a state whether the simulator executes the next
  instruction as the architecture asks; \<open>Arm_Refinement\<close> shows that it does in these states.
\<close>

section \<open>State of the architecture\<close>

record arch =
  a_reg :: "bank \<times> u8 \<Rightarrow> u32"
  a_cpsr :: u32
  a_spsr :: "bank \<Rightarrow> u32"
  a_mem :: "u32 \<Rightarrow> u8 option"
  a_big :: bool

definition a_mode :: "arch \<Rightarrow> u8" where
  "a_mode s = ucast (a_cpsr s AND 0x1F)"

abbreviation (input) a_pc :: "arch \<Rightarrow> u32" where "a_pc s \<equiv> a_reg s (Bank_User, 15)"

text \<open>A register as an instruction reads it, and the state in which the next instruction is due.\<close>

definition arch_get :: "arch \<Rightarrow> u8 \<Rightarrow> u32" where
  "arch_get s reg = (if reg = 15 then a_pc s + 8 else a_reg s (arch_reg (a_mode s) reg))"

definition arch_set :: "arch \<Rightarrow> u8 \<Rightarrow> u32 \<Rightarrow> arch" where
  "arch_set s reg v = s\<lparr>a_reg := (a_reg s)(arch_reg (a_mode s) reg := v)\<rparr>"

definition advance :: "arch \<Rightarrow> arch" where
  "advance s = arch_set s 15 (a_pc s + 4)"

definition join_bytes :: "bool \<Rightarrow> u8 list \<Rightarrow> u32" where
  "join_bytes big bytes = word_rcat (if big then bytes else rev bytes)"

definition arch_word :: "arch \<Rightarrow> u32 \<Rightarrow> u32 option" where
  "arch_word s a =
     (case (a_mem s a, a_mem s (a + 1), a_mem s (a + 2), a_mem s (a + 3)) of
        (Some b0, Some b1, Some b2, Some b3) \<Rightarrow> Some (join_bytes (a_big s) [b0, b1, b2, b3])
      | _ \<Rightarrow> None)"

definition byte_no :: "u32 \<Rightarrow> nat \<Rightarrow> u8" where
  "byte_no v k = ucast (drop_bit (8 * k) v)"

definition arch_store :: "arch \<Rightarrow> u32 \<Rightarrow> u32 \<Rightarrow> arch" where
  "arch_store s a v =
     s\<lparr>a_mem := (a_mem s)(a \<mapsto> byte_no v (if a_big s then 3 else 0),
                         a + 1 \<mapsto> byte_no v (if a_big s then 2 else 1),
                         a + 2 \<mapsto> byte_no v (if a_big s then 1 else 2),
                         a + 3 \<mapsto> byte_no v (if a_big s then 0 else 3))\<rparr>"

section \<open>Instructions\<close>

datatype operand =
  Rotated u32 nat                 \<comment> \<open>an 8-bit constant, rotated right by twice the number\<close>
| Shifted shift_kind u8 nat       \<comment> \<open>a register shifted by a 5-bit constant\<close>
| Shifted_by shift_kind u8 u8     \<comment> \<open>a register shifted by the low byte of another one\<close>

datatype width = Byte | Half | Word
datatype indexing = Offset | Pre_indexed | Post_indexed
datatype displacement = Const u32 | Index operand

datatype arch_instr =
  Compute u32 bool u8 u8 operand          \<comment> \<open>opcode, S bit, first operand, destination\<close>
| Branch_by bool int                      \<comment> \<open>link, words from the address plus 8\<close>
| Transfer bool width indexing bool u8 u8 displacement  \<comment> \<open>load, up, base, register\<close>
| Block bool bool bool bool u8 "nat list" \<comment> \<open>load, before, up, write-back, base, registers\<close>
| Move_status bool u8                     \<comment> \<open>from the SPSR, destination\<close>

definition kind_of_shift :: "u32 \<Rightarrow> shift_kind" where
  "kind_of_shift c = [Shift_LSL, Shift_LSR, Shift_ASR, Shift_ROR] ! unat c"

definition decode_operand :: "u32 \<Rightarrow> operand" where
  "decode_operand ins =
     (let k = kind_of_shift (get_bits ins 6 5); rm = ucast (get_bits ins 3 0)
      in if bit ins 25 then Rotated (get_bits ins 7 0) (unat (get_bits ins 11 8))
         else if bit ins 4 then Shifted_by k rm (ucast (get_bits ins 11 8))
         else Shifted k rm (unat (get_bits ins 11 7)))"

text \<open>The bits P and W; a post-indexed transfer with W is one in user mode, which the reference leaves out.\<close>

definition decode_indexing :: "u32 \<Rightarrow> indexing option" where
  "decode_indexing ins =
     (if bit ins 24 then Some (if bit ins 21 then Pre_indexed else Offset)
      else if bit ins 21 then None else Some Post_indexed)"

text \<open>
  The decoder. Instructions the reference does not describe (multiplications, swaps, signed transfers, moves to the
  status words, exchanges of the instruction set, block transfers of user registers, software interrupts and
  coprocessors) give \<open>None\<close>.
\<close>

definition decode_transfer :: "u32 \<Rightarrow> width \<Rightarrow> displacement \<Rightarrow> arch_instr option" where
  "decode_transfer ins w d =
     map_option (\<lambda>ix. Transfer (bit ins 20) w ix (bit ins 23) (ucast (get_bits ins 19 16))
       (ucast (get_bits ins 15 12)) d) (decode_indexing ins)"

definition decode :: "u32 \<Rightarrow> arch_instr option" where
  "decode ins =
     (let kind = get_bits ins 27 25; opc = get_bits ins 24 21;
          rn = ucast (get_bits ins 19 16); rd = ucast (get_bits ins 15 12); rm = ucast (get_bits ins 3 0);
          w = (if bit ins 22 then Byte else Word)
      in if kind = 0 \<and> bit ins 4 \<and> bit ins 7 then
           if get_bits ins 6 5 = 1 then
             decode_transfer ins Half
               (if bit ins 22 then Const (push_bit 4 (get_bits ins 11 8) OR get_bits ins 3 0)
                else Index (Shifted Shift_LSL rm 0))
           else None
         else if kind = 0 \<or> kind = 1 then
           if only_compares opc \<and> \<not> bit ins 20 then
             if kind = 0 \<and> \<not> bit ins 21 \<and> get_bits ins 7 4 = 0 then Some (Move_status (bit ins 22) rd) else None
           else Some (Compute opc (bit ins 20) rn rd (decode_operand ins))
         else if kind = 2 then decode_transfer ins w (Const (get_bits ins 11 0))
         else if kind = 3 then
           if bit ins 4 then None
           else decode_transfer ins w (Index (Shifted (kind_of_shift (get_bits ins 6 5)) rm (unat (get_bits ins 11 7))))
         else if kind = 4 \<and> \<not> bit ins 22
         then Some (Block (bit ins 20) (bit ins 24) (bit ins 23) (bit ins 21) rn (filter (bit ins) [0..<16]))
         else if kind = 5 then Some (Branch_by (bit ins 24) (sint (ucast ins :: 24 word)))
         else None)"

text \<open>The value of a second operand and the carry of the shifter (A5.1).\<close>

fun operand_value :: "arch \<Rightarrow> operand \<Rightarrow> u32 \<times> bool" where
  "operand_value s (Rotated imm r) =
     (let v = word_rotr (2 * r) imm in (v, if r = 0 then bit (a_cpsr s) 29 else bit v 31))"
| "operand_value s (Shifted k rm n) =
     (let x = arch_get s rm; c = bit (a_cpsr s) 29
      in if n \<noteq> 0 then arch_shift k x n
         else case k of
                Shift_LSL \<Rightarrow> (x, c)
              | Shift_LSR \<Rightarrow> (0, bit x 31)
              | Shift_ASR \<Rightarrow> (signed_drop_bit 31 x, bit x 31)
              | Shift_ROR \<Rightarrow> (drop_bit 1 x OR push_bit 31 (of_bool c), bit x 0))"
| "operand_value s (Shifted_by k rm rs) =
     (let x = arch_get s rm; n = unat (arch_get s rs) mod 256
      in if n = 0 then (x, bit (a_cpsr s) 29)
         else if n < 32 then arch_shift k x n
         else case k of
                Shift_LSL \<Rightarrow> (0, n = 32 \<and> bit x 0)
              | Shift_LSR \<Rightarrow> (0, n = 32 \<and> bit x 31)
              | Shift_ASR \<Rightarrow> (signed_drop_bit 31 x, bit x 31)
              | Shift_ROR \<Rightarrow> if n mod 32 = 0 then (x, bit x 31) else arch_shift Shift_ROR x (n mod 32))"

text \<open>A loaded word in a register; in the program counter its lowest bit selects the instruction set (A4.1).\<close>

definition arch_load :: "arch \<Rightarrow> u8 \<Rightarrow> u32 \<Rightarrow> arch" where
  "arch_load s reg v =
     (if reg = 15 then (arch_set s 15 (v AND NOT 1))\<lparr>a_cpsr := (a_cpsr s AND NOT 0x20) OR (if bit v 0 then 0x20 else 0)\<rparr>
      else arch_set s reg v)"

definition word_at :: "arch \<Rightarrow> u32 \<Rightarrow> u32" where
  "word_at s a = (case arch_word s a of None \<Rightarrow> 0 | Some v \<Rightarrow> v)"

fun load_at :: "arch \<Rightarrow> width \<Rightarrow> u32 \<Rightarrow> u32" where
  "load_at s Byte a = (case a_mem s a of None \<Rightarrow> 0 | Some b \<Rightarrow> ucast b)"
| "load_at s Half a =
     (case (a_mem s a, a_mem s (a + 1)) of (Some b0, Some b1) \<Rightarrow> join_bytes (a_big s) [b0, b1] | _ \<Rightarrow> 0)"
| "load_at s Word a = word_at s a"

fun store_at :: "arch \<Rightarrow> width \<Rightarrow> u32 \<Rightarrow> u32 \<Rightarrow> arch" where
  "store_at s Byte a v = s\<lparr>a_mem := (a_mem s)(a \<mapsto> byte_no v 0)\<rparr>"
| "store_at s Half a v =
     s\<lparr>a_mem := (a_mem s)(a \<mapsto> byte_no v (if a_big s then 1 else 0), a + 1 \<mapsto> byte_no v (if a_big s then 0 else 1))\<rparr>"
| "store_at s Word a v = arch_store s a v"

text \<open>The address of a transfer and the base it leaves (A5.2, A5.3).\<close>

fun displacement_value :: "arch \<Rightarrow> displacement \<Rightarrow> u32" where
  "displacement_value s (Const x) = x"
| "displacement_value s (Index opd) = fst (operand_value s opd)"

definition moved_base :: "arch \<Rightarrow> bool \<Rightarrow> u8 \<Rightarrow> displacement \<Rightarrow> u32" where
  "moved_base s up rn d =
     (if up then arch_get s rn + displacement_value s d else arch_get s rn - displacement_value s d)"

definition address_of :: "arch \<Rightarrow> indexing \<Rightarrow> bool \<Rightarrow> u8 \<Rightarrow> displacement \<Rightarrow> u32" where
  "address_of s ix up rn d = (if ix = Post_indexed then arch_get s rn else moved_base s up rn d)"

text \<open>Block transfers (A5.4): the lowest address, the new base, and the transfer in ascending order.\<close>

definition lowest :: "bool \<Rightarrow> bool \<Rightarrow> u32 \<Rightarrow> nat \<Rightarrow> u32" where
  "lowest before up base n =
     (if up then if before then base + 4 else base
      else if before then base - 4 * of_nat n else base - 4 * of_nat n + 4)"

primrec arch_loads :: "arch \<Rightarrow> u32 \<Rightarrow> nat list \<Rightarrow> arch \<Rightarrow> arch" where
  "arch_loads s a [] t = t"
| "arch_loads s a (r # rs) t = arch_loads s (a + 4) rs (arch_load t (of_nat r) (word_at s a))"

primrec arch_stores :: "arch \<Rightarrow> u32 \<Rightarrow> nat list \<Rightarrow> arch \<Rightarrow> arch" where
  "arch_stores s a [] t = t"
| "arch_stores s a (r # rs) t = arch_stores s (a + 4) rs (arch_store t a (arch_get s (of_nat r)))"

text \<open>The SPSR of the current mode.\<close>

definition mode_spsr :: "arch \<Rightarrow> u32" where
  "mode_spsr s = a_spsr s (bank_of_mode (a_mode s))"

text \<open>
  An instruction that sets the flags and has the program counter as its destination returns from an
  exception: it restores the status word.
\<close>

fun arch_exec :: "arch_instr \<Rightarrow> arch \<Rightarrow> arch" where
  "arch_exec (Compute opc set_cc rn rd opd) s =
     (let n = arch_get s rn; (m, co) = operand_value s opd;
          res = arch_result opc n m (bit (a_cpsr s) 29);
          t = advance s;
          t = (if only_compares opc then t else arch_set t rd res)
      in if set_cc then t\<lparr>a_cpsr := if rd = 15 then mode_spsr s else arch_status (a_cpsr s) opc n m co\<rparr> else t)"
| "arch_exec (Branch_by link words) s =
     (let t = (if link then arch_set s 14 (a_pc s + 4) else s)
      in arch_set t 15 (a_pc s + 8 + word_of_int (4 * words)))"
| "arch_exec (Transfer load w ix up rn rd d) s =
     (let address = address_of s ix up rn d; t = advance s;
          t = (if load then arch_load t rd (load_at s w address) else store_at t w address (arch_get s rd))
      in if ix = Offset then t else arch_set t rn (moved_base s up rn d))"
| "arch_exec (Block load before up wback rn rs) s =
     (let base = arch_get s rn; n = length rs; a = lowest before up base n; t = advance s;
          t = (if load then arch_loads s a rs t else arch_stores s a rs t)
      in if wback then arch_set t rn (if up then base + 4 * of_nat n else base - 4 * of_nat n) else t)"
| "arch_exec (Move_status from_spsr rd) s =
     arch_set (advance s) rd (if from_spsr then mode_spsr s else a_cpsr s)"

text \<open>The condition field: its upper three bits select a test, the lowest one inverts it (A3.2).\<close>

definition arch_holds :: "u32 \<Rightarrow> u32 \<Rightarrow> bool" where
  "arch_holds cpsr cond =
     (let n = bit cpsr 31; z = bit cpsr 30; c = bit cpsr 29; v = bit cpsr 28;
          test = [z, c, n, v, c \<and> \<not> z, n = v, \<not> z \<and> n = v, True] ! unat (drop_bit 1 cond)
      in test \<noteq> bit cond 0)"

definition arch_step :: "arch \<Rightarrow> arch option" where
  "arch_step s =
     (case arch_word s (a_pc s) of
        None \<Rightarrow> None
      | Some ins \<Rightarrow>
          if get_bits ins 31 28 = 15 then None
          else if \<not> arch_holds (a_cpsr s) (get_bits ins 31 28) then Some (advance s)
          else map_option (\<lambda>i. arch_exec i s) (decode ins))"

section \<open>Where the simulator agrees\<close>

text \<open>
  The simulator does not shift arithmetically, by 32 positions or by the low byte of a longer number as the
  architecture does, and has its own carry for constants: the old C flag.
\<close>

fun sim_carry :: "arch \<Rightarrow> operand \<Rightarrow> bool" where
  "sim_carry s (Rotated imm r) = bit (a_cpsr s) 29"
| "sim_carry s opd = snd (operand_value s opd)"

fun agreed_operand :: "arch \<Rightarrow> operand \<Rightarrow> bool" where
  "agreed_operand s (Rotated imm r) \<longleftrightarrow> True"
| "agreed_operand s (Shifted k rm n) \<longleftrightarrow> k \<noteq> Shift_ASR \<and> (n = 0 \<longrightarrow> k \<noteq> Shift_LSR)"
| "agreed_operand s (Shifted_by k rm rs) \<longleftrightarrow>
     k \<noteq> Shift_ASR \<and> unat (arch_get s rs) < 32 \<and> (arch_get s rs = 0 \<longrightarrow> k \<noteq> Shift_ROR)"

definition has_spsr :: "arch \<Rightarrow> bool" where
  "has_spsr s \<longleftrightarrow> legal_mode (a_mode s) \<and> bank_of_mode (a_mode s) \<noteq> Bank_User"

text \<open>A load into the program counter that does not leave the ARM instruction set.\<close>

definition stays_in_arm :: "arch \<Rightarrow> u8 \<Rightarrow> u32 \<Rightarrow> bool" where
  "stays_in_arm s reg v \<longleftrightarrow> (reg = 15 \<longrightarrow> \<not> bit v 0 \<and> \<not> bit (a_cpsr s) 5)"

text \<open>
  Offsets of words and bytes whose bits 7 and 4 are set are taken for those of halves. The offset of a post-indexed
  load is read after the load.
\<close>

fun agreed_displacement :: "arch \<Rightarrow> bool \<Rightarrow> width \<Rightarrow> indexing \<Rightarrow> u8 \<Rightarrow> displacement \<Rightarrow> bool" where
  "agreed_displacement s load w ix rd (Const x) \<longleftrightarrow> (w \<noteq> Half \<longrightarrow> \<not> (bit x 7 \<and> bit x 4))"
| "agreed_displacement s load w ix rd (Index (Shifted k rm n)) \<longleftrightarrow>
     agreed_operand s (Shifted k rm n) \<and> (load \<and> ix = Post_indexed \<longrightarrow> rm \<noteq> rd)"
| "agreed_displacement s load w ix rd (Index opd) \<longleftrightarrow> False"

fun present :: "arch \<Rightarrow> width \<Rightarrow> u32 \<Rightarrow> bool" where
  "present s Byte a \<longleftrightarrow> a_mem s a \<noteq> None"
| "present s Half a \<longleftrightarrow> unat a mod 2 = 0 \<and> a_mem s a \<noteq> None \<and> a_mem s (a + 1) \<noteq> None"
| "present s Word a \<longleftrightarrow> unat a mod 4 = 0 \<and> arch_word s a \<noteq> None"

definition agreed_block :: "arch \<Rightarrow> bool \<Rightarrow> u32 \<Rightarrow> u8 \<Rightarrow> nat list \<Rightarrow> bool" where
  "agreed_block s load a rn rs \<longleftrightarrow>
     rn \<noteq> 15 \<and> rs \<noteq> [] \<and> unat rn \<notin> set rs \<and> unat a mod 4 = 0 \<and> unat a + 4 * length rs \<le> 4294967296 \<and>
     list_all (\<lambda>k. arch_word s (a + 4 * of_nat k) \<noteq> None) [0..<length rs] \<and>
     (15 \<in> set rs \<longrightarrow> load \<and> stays_in_arm s 15 (word_at s (a + 4 * of_nat (length rs - 1))))"

fun agreed_instr :: "arch \<Rightarrow> arch_instr \<Rightarrow> bool" where
  "agreed_instr s (Compute opc set_cc rn rd opd) \<longleftrightarrow>
     agreed_operand s opd \<and>
     (set_cc \<longrightarrow>
        (if rd = 15 then \<not> only_compares opc \<and> has_spsr s
         else agreed_flags opc (arch_get s rn) (fst (operand_value s opd)) (bit (a_cpsr s) 29) (sim_carry s opd)
                (snd (operand_value s opd))))"
| "agreed_instr s (Branch_by link words) \<longleftrightarrow> True"
| "agreed_instr s (Transfer load w ix up rn rd d) \<longleftrightarrow>
     (load \<longrightarrow> w = Word) \<and>
     (rd = 15 \<longrightarrow> load \<and> stays_in_arm s 15 (word_at s (address_of s ix up rn d))) \<and>
     (ix \<noteq> Offset \<longrightarrow> rn \<noteq> 15 \<and> rn \<noteq> rd) \<and> agreed_displacement s load w ix rd d \<and>
     present s w (address_of s ix up rn d)"
| "agreed_instr s (Block load before up wback rn rs) \<longleftrightarrow>
     agreed_block s load (lowest before up (arch_get s rn) (length rs)) rn rs"
| "agreed_instr s (Move_status from_spsr rd) \<longleftrightarrow> rd \<noteq> 15 \<and> (from_spsr \<longrightarrow> has_spsr s)"

definition agreed :: "arch \<Rightarrow> bool" where
  "agreed s \<longleftrightarrow>
     \<not> bit (a_pc s) 1 \<and>
     (case arch_word s (a_pc s) of
        None \<Rightarrow> False
      | Some ins \<Rightarrow>
          arch_holds (a_cpsr s) (get_bits ins 31 28) \<longrightarrow>
          (case decode ins of None \<Rightarrow> False | Some i \<Rightarrow> agreed_instr s i))"

definition agreed_step :: "arch \<Rightarrow> arch option" where
  "agreed_step s = (if agreed s then arch_step s else None)"

text \<open>The abstraction of a simulator state.\<close>

definition arch_of :: "arm_core \<Rightarrow> arch" where
  "arch_of p =
     \<lparr>a_reg = (\<lambda>b. if banked b then arm_reg p (arch_slot b) else 0),
      a_cpsr = arm_read_cpsr p,
      a_spsr = (\<lambda>b. case spsr_slot b of None \<Rightarrow> 0 | Some k \<Rightarrow> arm_reg p k),
      a_mem = (\<lambda>a. if in_block (arm_mem p) a then Some (mem_m (arm_mem p) a) else None),
      a_big = is_big_endian_mem (arm_mem p)\<rparr>"

end
