(* ===== verification/Arm_Refinement.thy ===== *)
theory Arm_Refinement
  imports Arm_Reference
begin

text \<open>
  The simulator refines the reference semantics. \<open>arch_of\<close> forgets the cycle counter and what lies outside the
  registers and the memory block. After the fetch the state is \<open>advance s\<close>; the lemmas named \<open>*_executing\<close> show of each
  handler that it then leaves \<open>arch_exec i s\<close>. Runs of several steps follow from the locale \<open>stepwise_refinement\<close>.
\<close>

section \<open>The abstraction and the accessors\<close>

lemma arch_of_sel [simp]:
  "a_cpsr (arch_of p) = arm_read_cpsr p" "a_mode (arch_of p) = get_mode (arm_reg p)"
  "a_big (arch_of p) = is_big_endian_mem (arm_mem p)"
  by (simp_all add: arch_of_def a_mode_def get_mode_def arm_read_cpsr_def)

lemma arch_of_reg: "reg < 16 \<Longrightarrow> a_reg (arch_of p) (arch_reg (get_mode (arm_reg p)) reg) = read_register (arm_reg p) reg"
  by (simp add: arch_of_def banked_arch_reg read_register_slot slot_encodes)

lemma arch_reg_15 [simp]: "arch_reg md 15 = (Bank_User, 15)"
  by (simp add: arch_reg_def)

lemma arch_of_pc [simp]: "a_pc (arch_of p) = read_register (arm_reg p) 15"
  using arch_of_reg [of 15 p] by simp

lemma arch_of_cycles [simp]: "arch_of (p\<lparr>cycle_count := c\<rparr>) = arch_of p"
  by (simp add: arch_of_def arm_read_cpsr_def cong: if_cong option.case_cong)

lemma arch_slot_bound: "banked b \<Longrightarrow> arch_slot b < 32 \<and> arch_slot b \<noteq> CPSR"
  by (cases b; cases "fst b") (auto simp: banked_def arch_slot_def bank_offset_def)

lemma arch_of_write_register:
  assumes "reg < 16"
  shows "arch_of (arm_write_register p reg v) = arch_set (arch_of p) reg v"
proof -
  let ?b = "arch_reg (get_mode (arm_reg p)) reg"
  have b: "banked ?b" by (rule banked_arch_reg [OF assms])
  have "arch_slot b = arch_slot ?b \<longleftrightarrow> b = ?b" if "banked b" for b
    using arch_slot_inj [OF that b] by auto
  moreover have "k \<noteq> arch_slot ?b" if "spsr_slot b = Some k" for b k
    using spsr_slot_bounds [OF that] arch_slot_bound [OF b] by auto
  ultimately show ?thesis
    using assms b
    by (auto simp: arch_set_def arch_of_def a_mode_def fun_eq_iff write_register_slot slot_encodes
        arm_read_cpsr_def read_cpsr_def get_mode_def split: option.split dest!: arch_slot_bound)
qed

lemma arch_of_write_cpsr: "arch_of (arm_write_cpsr p c) = (arch_of p)\<lparr>a_cpsr := c\<rparr>"
proof -
  have "banked b \<Longrightarrow> arch_slot b \<noteq> 16" for b using arch_slot_bound [of b] by simp
  moreover have "spsr_slot b = Some k \<Longrightarrow> k \<noteq> 16" for b k using spsr_slot_bounds [of b k] by auto
  ultimately show ?thesis
    by (auto simp: arch_of_def fun_eq_iff write_cpsr_def arm_read_cpsr_def read_cpsr_def split: option.split)
qed


lemma join_bytes_big:
  "join_bytes True [b0, b1, b2, b3] =
   push_bit 24 (ucast b0) OR push_bit 16 (ucast b1) OR push_bit 8 (ucast b2) OR ucast b3"
proof -
  have "join_bytes True [b0, b1, b2, b3] =
      word_of_int (concat_bit LENGTH(8) (uint b3) (concat_bit LENGTH(8) (uint b2)
        (concat_bit LENGTH(8) (uint b1) (concat_bit LENGTH(8) (uint b0) 0))))"
    by (simp only: join_bytes_def word_rcat_def o_apply rev.simps append.simps if_True
        horner_sum_uint_exp_Cons_eq horner_sum_simps(1))
  moreover have "\<not> bit b k" if "8 \<le> k" for b :: u8 and k
    using that by (auto dest: bit_imp_le_length)
  moreover have "\<exists>k. k < 8 \<and> (n = k \<or> n = 8 + k \<or> n = 16 + k \<or> n = 24 + k)" if "n < 32" for n :: nat
    using that by presburger
  ultimately show ?thesis
    by (fastforce simp: bit_simps intro!: bit_word_eqI)
qed

lemma arch_word_read:
  assumes "arch_word (arch_of p) a = Some w"
  shows "in_block (arm_mem p) a" "memory_read_word (arm_mem p) a old = (0, w)"
  using assms join_bytes_big
  by (auto simp: arch_word_def arch_of_def memory_read_word_def valid_address_iff join_bytes_def
      split: if_splits option.splits prod.splits)

lemma arch_of_store:
  assumes "arch_word (arch_of p) a \<noteq> None" "unat a mod 4 = 0"
  shows "arch_of (snd (arm_write_word p a v)) = arch_store (arch_of p) a v"
    "fst (arm_write_word p a v) = 0"
proof -
  have blk: "in_block (arm_mem p) a" "in_block (arm_mem p) (a + 1)" "in_block (arm_mem p) (a + 2)"
    "in_block (arm_mem p) (a + 3)"
    using assms(1) by (auto simp: arch_word_def arch_of_def split: if_splits option.splits)
  have al: "a mod 4 = 0" by (rule mod_4_eq_0_iff [THEN iffD2, OF assms(2)])
  show "fst (arm_write_word p a v) = 0" using blk al by (simp add: memory_write_word_def valid_address_iff)
  show "arch_of (snd (arm_write_word p a v)) = arch_store (arch_of p) a v"
    using blk al
    by (simp add: arch_of_def arch_store_def arm_write_word_def memory_write_word_def valid_address_iff
        byte_no_def arm_read_cpsr_def fun_eq_iff cong: if_cong option.case_cong)
qed

lemma arch_holds_cond:
  assumes "get_bits ins 31 28 \<noteq> 15"
  shows "arch_holds cpsr (get_bits ins 31 28) = status_allows cpsr (get_bits ins 31 28)"
proof -
  have "get_bits ins 31 28 \<in> {0, 1, 2, 3, 4, 5, 6, 7, 8, 9, 10, 11, 12, 13, 14, 15}"
    using get_bits_less [of 28 31 ins] by (intro word_less_16_cases) simp
  with assms show ?thesis
    by (elim insertE emptyE) (auto simp: arch_holds_def status_allows_def condition_passed_def Let_def)
qed


section \<open>One instruction\<close>

lemma arch_reg_neq_pc: "reg \<noteq> 15 \<Longrightarrow> arch_reg md reg \<noteq> (Bank_User, 15)"
  by (simp add: arch_reg_def)

lemma advance_sel [simp]:
  "a_cpsr (advance s) = a_cpsr s" "a_mode (advance s) = a_mode s" "a_mem (advance s) = a_mem s"
  "a_big (advance s) = a_big s"
  by (simp_all add: advance_def arch_set_def a_mode_def)

lemma arch_word_advance [simp]: "arch_word (advance s) a = arch_word s a"
  unfolding arch_word_def advance_sel ..

text \<open>After the fetch an instruction reads its registers as the architecture says.\<close>

lemma read_executing:
  assumes "arch_of q = advance s" "\<not> bit (a_pc s) 1" "reg < 16"
  shows "arm_read_register q reg = arch_get s reg"
proof (cases "reg = 15")
  case True
  have pc: "read_register (arm_reg q) 15 = a_pc s + 4"
    unfolding arch_of_pc [symmetric] assms(1) by (simp add: advance_def arch_set_def)
  show ?thesis
    using assms(2) True by (simp add: arm_read_pc pc bit_1_add_4 arch_get_def)
next
  case False
  have m: "get_mode (arm_reg q) = a_mode s" using arch_of_sel(2) [of q] by (simp add: assms(1))
  have "read_register (arm_reg q) reg = a_reg (advance s) (arch_reg (a_mode s) reg)"
    using arch_of_reg [OF assms(3), of q] by (simp add: assms(1) m)
  then show ?thesis
    using False arch_reg_neq_pc [OF False, of "a_mode s"]
    by (simp add: arm_read_register_other arch_get_def advance_def arch_set_def)
qed

lemma read_cpsr_executing: "arch_of q = advance s \<Longrightarrow> arm_read_cpsr q = a_cpsr s"
  using arch_of_sel(1) [of q] by simp

lemma fetch_executing:
  assumes "arch_word (arch_of p) (a_pc (arch_of p)) = Some ins" "\<not> bit (a_pc (arch_of p)) 1"
  obtains q where "arm_fetch p old = (0, ins, q)" "arch_of q = advance (arch_of p)"
proof -
  let ?pc = "read_register (arm_reg p) 15"
  let ?p = "p\<lparr>cycle_count := cycle_count p + 1\<rparr>"
  have "arm_fetch p old = (0, ins, arm_write_register ?p 15 (?pc + 4))"
    using assms(2) arch_word_read(2) [OF assms(1)] 
    by (simp add: arm_fetch_unfold arm_write_register_def)
  moreover have "arch_of (arm_write_register ?p 15 (?pc + 4)) = advance (arch_of p)"
    by (simp add: arch_of_write_register advance_def)
  ultimately show thesis by (rule that)
qed

lemma rotated_constant:
  assumes "masking_shifts E"
  shows "ror E (ins AND 0xFF) (ucast ((drop_bit 8 ins AND 0xF) * 2)) =
         word_rotr (2 * unat (get_bits ins 11 8)) (get_bits ins 7 0)"
proof -
  have imm: "ins AND 0xFF = get_bits ins 7 0"
    by (simp add: get_bits_take_bit take_bit_eq_mask mask_eq_exp_minus_1)
  have r: "drop_bit 8 ins AND 0xF = get_bits ins 11 8"
    by (simp add: get_bits_take_bit take_bit_eq_mask mask_eq_exp_minus_1)
  let ?r = "get_bits ins 11 8"
  have less: "unat ?r < 16" using get_bits_less [of 8 11 ins] by simp
  then have u: "unat (ucast (?r * 2) :: u8) = 2 * unat ?r"
    by (simp add: unsigned_ucast_eq unat_word_ariths take_bit_nat_eq_self)
  show ?thesis
  proof (cases "?r = 0")
    case True
    have "word_rotr 0 x = x" for x :: u32 by (rule bit_word_eqI) (simp add: bit_word_rotr_iff)
    with True show ?thesis using ror_0_masking [OF assms] by (simp add: imm r)
  next
    case False
    then have "0 < unat ?r" by (simp add: unat_gt_0)
    then show ?thesis unfolding imm r using less u
      by (intro bit_word_eqI) (simp add: bit_ror bit_word_rotr_iff)
  qed
qed

lemma kind_of_shift_code: "shift_code (kind_of_shift (get_bits ins 6 5)) = get_bits ins 6 5"
proof -
  have "get_bits ins 6 5 = 0 \<or> get_bits ins 6 5 = 1 \<or> get_bits ins 6 5 = 2 \<or> get_bits ins 6 5 = 3"
    using get_bits_less [of 5 6 ins] by (intro word_less_4_cases) simp
  then show ?thesis by (auto simp: kind_of_shift_def)
qed


text \<open>The second operand: the rotations of the simulator agree with those of the word library.\<close>

lemma ror_amount: "0 < unat n \<Longrightarrow> unat n < 32 \<Longrightarrow> ror E x (ucast n) = word_rotr (unat n) x" for n :: u32
  by (auto intro!: bit_word_eqI simp: bit_ror bit_word_rotr_iff unat_ucast_8)

lemma shifted_register_executing:
  assumes "arch_of q = advance s" "\<not> bit (a_pc s) 1"
  shows "shifted_register q ins = arch_get s (ucast (get_bits ins 3 0))"
  using assms by (simp add: shifted_register_def read_executing)

lemma shifted_operand:
  assumes "arch_of q = advance s" "\<not> bit (a_pc s) 1" "\<not> bit ins 4"
    and "opd = Shifted (kind_of_shift (get_bits ins 6 5)) (ucast (get_bits ins 3 0)) (unat (get_bits ins 11 7))"
    and "agreed_operand s opd"
  shows "shifter_operand E q ins False = operand_value s opd"
proof -
  let ?k = "kind_of_shift (get_bits ins 6 5)" and ?n = "get_bits ins 11 7"
  have n: "shift_amount q ins = ?n" using assms(3) by (simp add: shift_amount_def)
  have less: "unat ?n < 32" using get_bits_less [of 7 11 ins] by simp
  have c: "arm_read_cpsr q = a_cpsr s" by (rule read_cpsr_executing [OF assms(1)])
  show ?thesis
    using assms(3,5) less kind_of_shift_code [of ins]
    by (cases ?k; cases "?n = 0")
      (simp_all add: assms(4) shifter_operand_unfold Let_def shifted_register_executing [OF assms(1,2)] n c
        shift_in_range ror_amount unat_gt_0)
qed

lemma shifted_by_operand:
  assumes "arch_of q = advance s" "\<not> bit (a_pc s) 1" "bit ins 4"
    and "opd = Shifted_by (kind_of_shift (get_bits ins 6 5)) (ucast (get_bits ins 3 0)) (ucast (get_bits ins 11 8))"
    and "agreed_operand s opd"
  shows "shifter_operand E q ins False = operand_value s opd"
proof -
  let ?k = "kind_of_shift (get_bits ins 6 5)" and ?n = "arch_get s (ucast (get_bits ins 11 8))"
  have n: "shift_amount q ins = ?n" using assms(1-3) by (simp add: shift_amount_def read_executing)
  have less: "unat ?n < 32" and k: "?k \<noteq> Shift_ASR" "?n = 0 \<longrightarrow> ?k \<noteq> Shift_ROR"
    using assms(5) by (simp_all add: assms(4))
  have code: "bit ins 6 \<longleftrightarrow> bit (get_bits ins 6 5) 1" by (simp add: get_bits_take_bit bit_simps)
  have c: "arm_read_cpsr q = a_cpsr s" by (rule read_cpsr_executing [OF assms(1)])
  show ?thesis
    using assms(3) less k kind_of_shift_code [of ins]
    by (cases ?k; cases "?n = 0")
      (simp_all add: assms(4) shifter_operand_unfold Let_def shifted_register_executing [OF assms(1,2)] n c code
        shift_in_range ror_amount unat_gt_0 unat_eq_0 bit_1_iff)
qed

lemma operand_executing:
  assumes "masking_shifts E" "arch_of q = advance s" "\<not> bit (a_pc s) 1"
    and "agreed_operand s (decode_operand ins)"
  shows "dp_operand E q ins =
         (fst (operand_value s (decode_operand ins)), sim_carry s (decode_operand ins))"
proof (cases "bit ins 25")
  case True
  then show ?thesis
    using rotated_constant [OF assms(1), of ins] read_cpsr_executing [OF assms(2)]
    by (simp add: dp_operand_def field_1 decode_operand_def Let_def)
next
  case False
  have "dp_operand E q ins = shifter_operand E q ins False" using False by (simp add: dp_operand_def field_1)
  also have "\<dots> = operand_value s (decode_operand ins)"
  proof (cases "bit ins 4")
    case True
    then show ?thesis using False
      by (intro shifted_by_operand [OF assms(2,3) _ _ assms(4)]) (simp_all add: decode_operand_def Let_def)
  next
    case no: False
    then show ?thesis using False
      by (intro shifted_operand [OF assms(2,3) _ _ assms(4)]) (simp_all add: decode_operand_def Let_def)
  qed
  also have "\<dots> = (fst (operand_value s (decode_operand ins)), sim_carry s (decode_operand ins))"
    using False by (simp add: decode_operand_def Let_def)
  finally show ?thesis .
qed

lemma read_spsr_executing:
  assumes "arch_of q = advance s" "has_spsr s"
  shows "arm_read_spsr q = mode_spsr s" "arm_current_mode_has_spsr q"
proof -
  have m: "get_mode (arm_reg q) = a_mode s" using arch_of_sel(2) [of q] by (simp add: assms(1))
  have "a_spsr s = a_spsr (arch_of q)" by (simp add: assms(1) advance_def arch_set_def)
  then show "arm_read_spsr q = mode_spsr s"
    by (simp add: arm_read_spsr_def read_spsr_slot m mode_spsr_def arch_of_def)
  show "arm_current_mode_has_spsr q"
    using assms(2) has_spsr_iff_bank [of "arm_reg q"] by (simp add: arm_current_mode_has_spsr_def m has_spsr_def)
qed

lemma compute_executing:
  assumes "masking_shifts E" "arch_of q = advance s" "\<not> bit (a_pc s) 1"
    and "only_compares (get_bits ins 24 21) \<longrightarrow> bit ins 20"
    and "i = Compute (get_bits ins 24 21) (bit ins 20) (ucast (get_bits ins 19 16)) (ucast (get_bits ins 15 12))
           (decode_operand ins)"
    and "agreed_instr s i"
  shows "arch_of (snd (arm_data_processing E q ins)) = arch_exec i s"
proof -
  let ?opd = "decode_operand ins" and ?opc = "get_bits ins 24 21"
  let ?n = "arch_get s (ucast (get_bits ins 19 16))" and ?rd = "ucast (get_bits ins 15 12) :: u8"
  obtain m co where m: "operand_value s ?opd = (m, co)" by (cases "operand_value s ?opd")
  have opd: "dp_operand E q ins = (m, sim_carry s ?opd)"
    using operand_executing [OF assms(1-3)] assms(6) by (simp add: assms(5) m)
  have n: "arm_read_register q (ucast (get_bits ins 19 16)) = ?n" by (simp add: read_executing [OF assms(2,3)])
  have cpsr: "arm_read_cpsr q = a_cpsr s" by (rule read_cpsr_executing [OF assms(2)])
  note unfolded = arm_data_processing_unfold [OF opd] assms(5) m n cpsr Let_def arch_of_write_cpsr
    arch_of_write_register assms(2)
  show ?thesis
  proof (cases "bit ins 20 \<and> ?rd = 15")
    case True
    then have "\<not> only_compares ?opc" "has_spsr s" using assms(6) by (simp_all add: assms(5))
    then show ?thesis using True read_spsr_executing [OF assms(2)] by (simp add: unfolded)
  next
    case False
    then have "bit ins 20 \<Longrightarrow> agreed_flags ?opc ?n m (bit (a_cpsr s) 29) (sim_carry s ?opd) co"
      using assms(6) by (simp add: assms(5) m)
    then show ?thesis
      using False assms(4) status_agreed [OF opcode_cases _ refl, of ins ?n m "a_cpsr s" "sim_carry s ?opd" co]
      by (auto simp: unfolded)
  qed
qed

text \<open>A comparison that does not set the flags is a move from a status word.\<close>

lemma move_status_executing:
  assumes "arch_of q = advance s" "\<not> bit (a_pc s) 1"
    and "only_compares (get_bits ins 24 21)" "\<not> bit ins 20" "\<not> bit ins 21"
    and "agreed_instr s (Move_status (bit ins 22) (ucast (get_bits ins 15 12)))"
  shows "arch_of (snd (arm_data_processing E q ins)) =
         arch_exec (Move_status (bit ins 22) (ucast (get_bits ins 15 12))) s"
proof -
  have "snd (arm_data_processing E q ins) = snd (arm_miscellaneous q ins)"
    using assms(3,4)
    by (simp add: arm_data_processing_def Let_def case_prod_beta dp_compute_state dp_misc_def field_get_bits field_1
        majreg_compare)
  then show ?thesis
    using assms(5,6) read_spsr_executing [OF assms(1)] read_cpsr_executing [OF assms(1)]
    by (simp add: arm_miscellaneous_def arch_of_write_register assms(1))
qed

lemma and_0xFFFFFFFE: "\<not> bit v 0 \<Longrightarrow> v AND - 2 = v" "\<not> bit v 0 \<Longrightarrow> v AND 0xFFFFFFFE = v" for v :: u32
proof -
  assume v: "\<not> bit v 0"
  have "bit (NOT 1 :: u32) n \<longleftrightarrow> n < 32 \<and> n \<noteq> 0" for n by (auto simp only: bit_not_iff bit_1_iff) simp_all
  then have "bit (v AND NOT 1) n = bit v n" for n
    using v bit_imp_le_length [of v n] unfolding bit_and_iff by (cases "n = 0") auto
  then have and_not: "v AND NOT 1 = v" by (rule bit_word_eqI)
  then show "v AND - 2 = v" by simp
  have "(0xFFFFFFFE :: u32) = NOT 1" by simp
  then show "v AND 0xFFFFFFFE = v" using and_not by (simp only:)
qed

lemma arch_load_in_arm: "stays_in_arm s reg v \<Longrightarrow> arch_load s reg v = arch_set s reg v"
proof -
  have "c AND NOT 0x20 = c" if "\<not> bit c 5" for c :: u32
  proof -
    have "(0x20 :: u32) = push_bit 5 1" by simp
    then have b: "bit (0x20 :: u32) n \<longleftrightarrow> n = 5" for n by (simp only: bit_push_bit_iff bit_1_iff) auto
    have "bit (c AND NOT 0x20) n = bit c n" for n
      using that unfolding bit_and_iff bit_not_iff b by (auto dest: bit_imp_le_length)
    then show ?thesis by (rule bit_word_eqI)
  qed
  then show "stays_in_arm s reg v \<Longrightarrow> arch_load s reg v = arch_set s reg v"
    by (simp add: stays_in_arm_def arch_load_def and_0xFFFFFFFE arch_set_def)
qed

text \<open>Single transfers. A stored byte and a stored half are the low parts of the register.\<close>

lemma store_executing:
  assumes "present (arch_of p) w a" "is_half \<longleftrightarrow> w = Half" "\<not> is_half \<Longrightarrow> is_byte \<longleftrightarrow> w = Byte"
  shows "arch_of (snd (store_value p is_half is_byte a v)) = store_at (arch_of p) w a v"
proof (cases w)
  case Byte
  then have "in_block (arm_mem p) a" using assms(1) by (simp add: arch_of_def split: if_splits)
  then show ?thesis
    using assms(2,3) Byte
    by (simp add: store_value_def arm_write_byte_def memory_write_byte_def valid_address_iff arch_of_def byte_no_def
        arm_read_cpsr_def fun_eq_iff cong: if_cong option.case_cong)
next
  case Half
  have b: "in_block (arm_mem p) a" "in_block (arm_mem p) (a + 1)" "a mod 2 = 0"
    using assms(1) Half mod_2_eq_0_iff [of a] by (simp_all add: arch_of_def split: if_splits)
  have "ucast (ucast v :: u16) = (ucast v :: u8)" "ucast (drop_bit 8 (ucast v :: u16)) = (ucast (drop_bit 8 v) :: u8)"
    by (rule bit_word_eqI; simp add: bit_simps)+
  with b show ?thesis
    using assms(2,3) Half
    by (simp add: store_value_def arm_write_half_def memory_write_half_def valid_address_iff arch_of_def byte_no_def
        arm_read_cpsr_def fun_eq_iff cong: if_cong option.case_cong)
next
  case Word
  then show ?thesis using assms arch_of_store [of p a v] by (simp add: store_value_def)
qed

lemma present_advance: "present (advance s) w a = present s w a"
  by (cases w) (simp_all only: present.simps advance_sel arch_word_advance)

text \<open>The three encodings of a single transfer: halves, constant offsets, and shifted registers.\<close>

definition transfer_form :: "u32 \<Rightarrow> width \<Rightarrow> displacement \<Rightarrow> bool" where
  "transfer_form ins w d \<longleftrightarrow>
     (if bit ins 26 then
        w = (if bit ins 22 then Byte else Word) \<and>
        (if bit ins 25
         then \<not> bit ins 4 \<and>
              d = Index (Shifted (kind_of_shift (get_bits ins 6 5)) (ucast (get_bits ins 3 0)) (unat (get_bits ins 11 7)))
         else d = Const (get_bits ins 11 0))
      else \<not> bit ins 25 \<and> bit ins 7 \<and> bit ins 4 \<and> w = Half \<and>
        d = (if bit ins 22 then Const (push_bit 4 (get_bits ins 11 8) OR get_bits ins 3 0)
             else Index (Shifted Shift_LSL (ucast (get_bits ins 3 0)) 0)))"

lemma transfer_width:
  assumes "transfer_form ins w d" "agreed_displacement s load w ix rd d"
  shows "bit ins 7 \<and> bit ins 4 \<longleftrightarrow> w = Half" "w \<noteq> Half \<Longrightarrow> bit ins 22 \<longleftrightarrow> w = Byte"
  using assms by (auto simp: transfer_form_def get_bits_take_bit bit_simps split: if_splits)

lemma displacement_executing:
  assumes "arch_of q = advance s" "\<not> bit (a_pc s) 1" "transfer_form ins w d" "agreed_displacement s load w ix rd d"
  shows "addressing_mode E q ins = (if bit ins 23 then displacement_value s d else - displacement_value s d)"
proof (cases "bit ins 25")
  case True
  then have f: "\<not> bit ins 4"
    "d = Index (Shifted (kind_of_shift (get_bits ins 6 5)) (ucast (get_bits ins 3 0)) (unat (get_bits ins 11 7)))"
    using assms(3) by (simp_all add: transfer_form_def split: if_splits)
  then have "shifter_operand E q ins False = operand_value s
      (Shifted (kind_of_shift (get_bits ins 6 5)) (ucast (get_bits ins 3 0)) (unat (get_bits ins 11 7)))"
    using assms(4) by (intro shifted_operand [OF assms(1,2) f(1) refl]) simp
  then show ?thesis using True by (simp add: addressing_mode_def Let_def f(2) del: operand_value.simps)
next
  case False
  then show ?thesis
    using assms(3) read_executing [OF assms(1,2)]
    by (auto simp: transfer_form_def addressing_mode_def Let_def split: if_splits)
qed

text \<open>A post-indexed transfer computes its offset after the access; it is the same unless the load wrote the index.\<close>

lemma displacement_after:
  assumes "transfer_form ins w d" "agreed_displacement s load w Post_indexed rd d"
    and "arm_read_cpsr t = arm_read_cpsr q"
    and "\<And>r. r < 16 \<Longrightarrow> load \<longrightarrow> r \<noteq> rd \<Longrightarrow> arm_read_register t r = arm_read_register q r"
  shows "addressing_mode E t ins = addressing_mode E q ins"
proof -
  let ?rm = "ucast (get_bits ins 3 0) :: u8"
  have rm: "arm_read_register t ?rm = arm_read_register q ?rm" if "bit ins 25 \<or> \<not> bit ins 26 \<and> \<not> bit ins 22"
    using that assms(1,2) by (intro assms(4)) (auto simp: transfer_form_def split: if_splits)
  have "shifter_operand E t ins False = shifter_operand E q ins False" if "bit ins 25"
    using that rm assms(1)
    by (simp add: shifter_operand_unfold shift_amount_def shifted_register_def assms(3) transfer_form_def split: if_splits)
  with rm show ?thesis by (simp add: addressing_mode_def Let_def)
qed

lemma load_executing:
  assumes "arch_of q = advance s" "present s Word a"
  shows "load_value q False False a old = word_at s a"
proof -
  obtain v where v: "arch_word s a = Some v" using assms(2) by auto
  then have "arch_word (arch_of q) a = Some v" by (simp add: assms(1))
  from arch_word_read(2) [OF this, of old] show ?thesis by (simp add: load_word_value word_at_def v)
qed

lemma arm_load_store_unfold:
  assumes "bit ins 24 \<or> \<not> bit ins 21"
  shows "snd (arm_load_store E p ins) =
     (let rn = ucast (get_bits ins 19 16); rd = ucast (get_bits ins 15 12);
          base = arm_read_register p rn;
          a = (if bit ins 24 then base + addressing_mode E p ins else base);
          v = load_value p (bit ins 7 \<and> bit ins 4) (bit ins 22) a (uninit_val E);
          t = (if bit ins 20 then arm_write_register p rd (if rd = 15 then v AND 0xFFFFFFFE else v)
               else snd (store_value p (bit ins 7 \<and> bit ins 4) (bit ins 22) a (arm_read_register p rd)))
      in if bit ins 24 \<and> \<not> bit ins 21 then t
         else arm_write_register t rn (if bit ins 24 then a else base + addressing_mode E t ins))"
  using assms by (auto simp: arm_load_store_def Let_def case_prod_beta)

lemma transfer_executing:
  assumes "arch_of q = advance s" "\<not> bit (a_pc s) 1" "transfer_form ins w d" "decode_indexing ins = Some ix"
    and "i = Transfer (bit ins 20) w ix (bit ins 23) (ucast (get_bits ins 19 16)) (ucast (get_bits ins 15 12)) d"
    and "agreed_instr s i"
  shows "arch_of (snd (arm_load_store E q ins)) = arch_exec i s"
proof -
  let ?rn = "ucast (get_bits ins 19 16) :: u8" and ?rd = "ucast (get_bits ins 15 12) :: u8"
  let ?a = "address_of s ix (bit ins 23) ?rn d" and ?new = "moved_base s (bit ins 23) ?rn d"
  have load: "bit ins 20 \<Longrightarrow> w = Word" and rd: "?rd = 15 \<Longrightarrow> bit ins 20 \<and> stays_in_arm s 15 (word_at s ?a)"
    and d: "agreed_displacement s (bit ins 20) w ix ?rd d" and pre: "present s w ?a"
    using assms(6) by (simp_all add: assms(5))
  have ix: "bit ins 24 \<longleftrightarrow> ix \<noteq> Post_indexed" "\<not> bit ins 24 \<Longrightarrow> \<not> bit ins 21" "bit ins 24 \<Longrightarrow> bit ins 21 \<longleftrightarrow> ix \<noteq> Offset"
    using assms(4) by (auto simp: decode_indexing_def split: if_splits)
  have am: "arch_get s ?rn + addressing_mode E q ins = ?new"
    by (simp add: displacement_executing [OF assms(1-3) d] moved_base_def)
  let ?t = "if bit ins 20 then arm_write_register q ?rd (word_at s ?a)
            else snd (store_value q (w = Half) (w = Byte) ?a (arch_get s ?rd))"
  have after: "ix = Post_indexed \<Longrightarrow> addressing_mode E ?t ins = addressing_mode E q ins"
    using d by (intro displacement_after [OF assms(3), of s "bit ins 20" ?rd])
      (auto simp: arm_read_cpsr_def arm_read_register_def store_value_def mode_regs.rd_wr Let_def)
  have val: "bit ins 20 \<Longrightarrow> load_value q False False ?a (uninit_val E) = word_at s ?a"
    using load_executing [OF assms(1), of ?a] pre load by simp
  have pc: "bit ins 20 \<Longrightarrow> ?rd = 15 \<Longrightarrow> word_at s ?a AND 0xFFFFFFFE = word_at s ?a"
    using rd by (simp add: stays_in_arm_def and_0xFFFFFFFE)
  have store: "store_value q (bit ins 7 \<and> bit ins 4) (bit ins 22) = store_value q (w = Half) (w = Byte)"
    using transfer_width [OF assms(3) d] by (auto simp: store_value_def fun_eq_iff)
  have narrow: "bit ins 20 \<Longrightarrow> \<not> (bit ins 7 \<and> bit ins 4) \<and> \<not> bit ins 22"
    using transfer_width [OF assms(3) d] load by auto
  have base: "arm_read_register q ?rn = arch_get s ?rn" "arm_read_register q ?rd = arch_get s ?rd"
    by (simp_all add: read_executing [OF assms(1,2)])
  have eff: "(if bit ins 24 then arch_get s ?rn + addressing_mode E q ins else arch_get s ?rn) = ?a"
    using ix(1) by (simp add: am address_of_def)
  let ?v = "load_value q (bit ins 7 \<and> bit ins 4) (bit ins 22) ?a (uninit_val E)"
  have effect: "(if bit ins 20 then arm_write_register q ?rd (if ?rd = 15 then ?v AND 0xFFFFFFFE else ?v)
      else snd (store_value q (w = Half) (w = Byte) ?a (arch_get s ?rd))) = ?t"
    using narrow pc by (auto simp: val)
  have plain: "bit ins 24 \<or> \<not> bit ins 21" using ix(2) by blast
  have "snd (arm_load_store E q ins) = (if ix = Offset then ?t else arm_write_register ?t ?rn ?new)"
    unfolding arm_load_store_unfold [OF plain] Let_def base eff store effect
    using ix after am by (auto simp: address_of_def)
  then show ?thesis
    using assms(6) load store_executing [of q w ?a] arch_load_in_arm [of "advance s" ?rd "word_at s ?a"]
    by (auto simp: assms(1,5) Let_def arch_of_write_register present_advance stays_in_arm_def)
qed

text \<open>Block transfers.\<close>

lemma block_present:
  assumes "words_fit (arm_mem p) a (Suc n)"
  shows "arch_word (arch_of p) a \<noteq> None"
proof -
  have fit: "unat a mod 4 = 0" "unat a + 4 \<le> unat (mem_size (arm_mem p))"
    using assms by (simp_all add: words_fit_def)
  have "in_block (arm_mem p) (a + of_nat k)" if "k < 4" for k
    using that fit unat_aligned_plus [of a 4 k] by (simp add: in_block_def)
  from this [of 0] this [of 1] this [of 2] this [of 3] show ?thesis
    by (simp add: arch_word_def arch_of_def)
qed

lemma word_at_load: "words_fit (arm_mem p) a (Suc n) \<Longrightarrow> snd (memory_read_word (arm_mem p) a 0) = word_at (arch_of p) a"
  using block_present [of p a n] arch_word_read(2) [of p a _ 0] by (auto simp: word_at_def)

lemma arch_word_cong: "a_mem s = a_mem t \<Longrightarrow> a_big s = a_big t \<Longrightarrow> arch_word s a = arch_word t a"
  by (simp only: arch_word_def)

lemma arch_set_sel [simp]:
  "a_mem (arch_set s reg v) = a_mem s" "a_big (arch_set s reg v) = a_big s" "a_cpsr (arch_set s reg v) = a_cpsr s"
  by (simp_all add: arch_set_def)

lemma loads_executing:
  assumes "\<And>b. arch_word (arch_of p) b = arch_word s b" "words_fit (arm_mem p) a (length rs)"
    and "\<forall>r \<in> set rs. r < 16" "a_cpsr (arch_of p) = a_cpsr s"
    and "\<forall>k < length rs. stays_in_arm s (of_nat (rs ! k)) (word_at s (a + 4 * of_nat k))"
  shows "arch_of (p\<lparr>arm_reg := mode_regs.wr_all (map2 (\<lambda>i v. (of_nat i, loaded i v)) rs
            (load_words (arm_mem p) a (length rs))) (arm_reg p)\<rparr>) = arch_loads s a rs (arch_of p)"
  using assms
proof (induction rs arbitrary: a p)
  case (Cons r rs)
  let ?w = "word_at s a" and ?q = "arm_write_register p (of_nat r) (word_at s a)"
  note fit = words_fit_Suc [OF Cons.prems(2) [simplified]]
  have r: "(of_nat r :: u8) < 16" "r < 16" using Cons.prems(3) by (simp_all add: of_nat_reg)
  have w: "snd (memory_read_word (arm_mem p) a 0) = ?w"
    using word_at_load [of p a "length rs"] Cons.prems(1,2) by (simp add: word_at_def)
  have stays: "stays_in_arm s (of_nat r) ?w" using Cons.prems(5) by force
  have l: "loaded r ?w = ?w"
    using stays by (auto simp: loaded_def stays_in_arm_def and_0xFFFFFFFE)
  have q: "arch_of ?q = arch_load (arch_of p) (of_nat r) ?w"
    using r stays Cons.prems(4) by (simp add: arch_of_write_register arch_load_in_arm stays_in_arm_def)
  have "arch_of (?q\<lparr>arm_reg := mode_regs.wr_all (map2 (\<lambda>i v. (of_nat i, loaded i v)) rs
            (load_words (arm_mem ?q) (a + 4) (length rs))) (arm_reg ?q)\<rparr>) = arch_loads s (a + 4) rs (arch_of ?q)"
  proof (rule Cons.IH)
    show "arch_word (arch_of ?q) b = arch_word s b" for b
      unfolding arch_of_write_register [OF r(1)] Cons.prems(1) [symmetric] by (rule arch_word_cong) simp_all
    show "\<forall>k < length rs. stays_in_arm s (of_nat (rs ! k)) (word_at s (a + 4 + 4 * of_nat k))"
      using Cons.prems(5) by (force simp: algebra_simps)
  qed (use fit Cons.prems r in \<open>auto simp: arch_of_write_register\<close>)
  then show ?case by (simp add: w l q) (simp add: arm_write_register_def)
qed simp

lemma stores_executing:
  assumes "words_fit (arm_mem p) a (length rs)" "\<forall>r \<in> set rs. arm_read_register p (of_nat r) = arch_get s (of_nat r)"
  shows "arch_of (p\<lparr>arm_mem := store_words (arm_mem p) a (map (\<lambda>i. arm_read_register p (of_nat i)) rs)\<rparr>) =
         arch_stores s a rs (arch_of p)"
  using assms
proof (induction rs arbitrary: a p)
  case (Cons r rs)
  let ?v = "arch_get s (of_nat r)"
  let ?q = "p\<lparr>arm_mem := snd (memory_write_word (arm_mem p) a ?v)\<rparr>"
  note fit = words_fit_Suc [OF Cons.prems(1) [simplified]]
  have "snd (arm_write_word p a ?v) = ?q" by (simp add: arm_write_word_def case_prod_beta)
  moreover have "arch_of (snd (arm_write_word p a ?v)) = arch_store (arch_of p) a ?v"
    using block_present [of p a "length rs"] Cons.prems(1) fit(2) by (intro arch_of_store(1)) simp_all
  ultimately have q: "arch_of ?q = arch_store (arch_of p) a ?v" by (simp only:)
  have "arch_of (?q\<lparr>arm_mem := store_words (arm_mem ?q) (a + 4) (map (\<lambda>i. arm_read_register ?q (of_nat i)) rs)\<rparr>) =
      arch_stores s (a + 4) rs (arch_of ?q)"
    using Cons.prems fit by (intro Cons.IH) (auto simp: words_fit_cong [OF word_access.wr_size])
  then show ?case using Cons.prems(2) by (simp add: q)
qed simp

lemma unat_plus_of_nat: "unat a + k < 4294967296 \<Longrightarrow> unat (a + of_nat k) = unat a + k" for a :: u32
  by (simp add: unat_word_ariths unsigned_of_nat take_bit_nat_eq_self)

lemma agreed_block_fits:
  assumes "agreed_block s load a rn rs" "\<And>b. arch_word (arch_of p) b = arch_word s b"
  shows "words_fit (arm_mem p) a (length rs)"
proof -
  have b: "rs \<noteq> []" "unat a mod 4 = 0" "unat a + 4 * length rs \<le> 4294967296"
    "arch_word (arch_of p) (a + 4 * of_nat (length rs - 1)) \<noteq> None"
    using assms by (auto simp: agreed_block_def list_all_iff)
  let ?k = "4 * (length rs - 1) + 3"
  have k: "?k + 1 = 4 * length rs" using b(1) by (cases rs) simp_all
  have "in_block (arm_mem p) (a + 4 * of_nat (length rs - 1) + 3)"
    using b(4) by (auto simp: arch_word_def arch_of_def split: if_splits option.splits)
  moreover have "unat (a + 4 * of_nat (length rs - 1) + 3) = unat a + ?k"
  proof -
    have "a + 4 * of_nat (length rs - 1) + 3 = a + of_nat ?k" by simp
    moreover have "unat (a + of_nat ?k) = unat a + ?k" using b(3) k by (intro unat_plus_of_nat) linarith
    ultimately show ?thesis by (simp only:)
  qed
  ultimately show ?thesis using b k by (simp add: words_fit_def in_block_def)
qed

lemma pc_is_last:
  assumes "k < length (reg_list ins)" "reg_list ins ! k = 15"
  shows "k = length (reg_list ins) - 1"
proof (rule ccontr)
  assume "\<not> ?thesis"
  then have k: "Suc k < length (reg_list ins)" using assms(1) by linarith
  have "sorted_wrt (<) (reg_list ins)" unfolding reg_list_def by (intro sorted_wrt_filter strict_sorted_iff [THEN iffD2]) simp
  then have "15 < reg_list ins ! Suc k" using sorted_wrt_nth_less [of "(<)" _ k "Suc k"] k assms(2) by fastforce
  then show False using nth_reg_list [OF k] by simp
qed

lemma block_executing:
  assumes "arch_of q = advance s" "\<not> bit (a_pc s) 1"
    and "i = Block (bit ins 20) (bit ins 24) (bit ins 23) (bit ins 21) (ucast (get_bits ins 19 16))
           (filter (bit ins) [0..<16])"
    and "agreed_instr s i"
  shows "arch_of (snd (arm_load_store_multiple E q ins)) = arch_exec i s"
proof -
  let ?rn = "ucast (get_bits ins 19 16) :: u8" and ?rs = "reg_list ins"
  let ?base = "arch_get s ?rn"
  let ?a = "lowest (bit ins 24) (bit ins 23) ?base (length ?rs)"
  have rs: "filter (bit ins) [0..<16] = ?rs" by (simp add: reg_list_def)
  have block: "agreed_block s (bit ins 20) ?a ?rn ?rs" using assms(4) by (simp add: assms(3) rs)
  have words: "arch_word (arch_of q) b = arch_word s b" for b by (simp add: assms(1))
  have fit: "words_fit (arm_mem q) ?a (length ?rs)" by (rule agreed_block_fits [OF block words])
  note rd = read_executing [OF assms(1,2)]
  have base: "arm_read_register q ?rn = ?base" by (simp add: rd)
  have start: "block_start ins ?base = ?a" by (simp add: block_start_def lowest_def Let_def)
  obtain res p' where p': "arm_load_store_multiple E q ins = (res, p')"
    by (cases "arm_load_store_multiple E q ins")
  have less: "\<forall>r \<in> set ?rs. r < 16" by (simp add: set_reg_list)
  show ?thesis
  proof (cases "bit ins 20")
    case True
    have stays: "\<forall>k < length ?rs. stays_in_arm s (of_nat (?rs ! k)) (word_at s (?a + 4 * of_nat k))"
    proof (intro allI impI)
      fix k
      assume k: "k < length ?rs"
      show "stays_in_arm s (of_nat (?rs ! k)) (word_at s (?a + 4 * of_nat k))"
      proof (cases "?rs ! k = 15")
        case True
        then have "k = length ?rs - 1" "15 \<in> set ?rs" using pc_is_last [OF k] nth_mem [OF k] by (simp_all only:)
        then show ?thesis using block True by (simp add: agreed_block_def)
      next
        case False
        then have "(of_nat (?rs ! k) :: u8) \<noteq> 15"
          using of_nat_reg_inj [of "?rs ! k" 15] nth_reg_list [OF k] by simp
        then show ?thesis by (simp add: stays_in_arm_def)
      qed
    qed
    from load_multiple_state [OF True p' refl refl] loads_executing [OF words fit less _ stays] fit
    show ?thesis
      by (simp add: p' base start assms(1,3) rs True Let_def block_base_def arch_of_write_register)
  next
    case False
    have "\<forall>r \<in> set ?rs. arm_read_register q (of_nat r) = arch_get s (of_nat r)"
      using less by (simp add: rd of_nat_reg)
    from store_multiple_state [OF False p' refl refl] stores_executing [OF fit this]
    show ?thesis
      by (simp add: p' base start assms(1,3) rs False Let_def block_base_def arch_of_write_register)
  qed
qed

lemma branch_executing:
  assumes "arch_of q = advance s" "\<not> bit (a_pc s) 1"
  shows "arch_of (snd (arm_branch q ins)) = arch_exec (Branch_by (bit ins 24) (sint (ucast ins :: 24 word))) s"
proof -
  have pc: "arm_read_register q 15 = a_pc s + 8"
    using read_executing [OF assms, of 15] by (simp add: arch_get_def)
  have set_pc: "arch_set (arch_set (arch_set s 15 v) 14 w) 15 t = arch_set (arch_set s 14 w) 15 t" for v w t
    using arch_reg_neq_pc [of 14 "a_mode s"] by (auto simp: arch_set_def a_mode_def fun_upd_twist)
  show ?thesis
    by (simp add: arm_branch_unfold pc arch_of_write_register assms(1) advance_def set_pc)
      (simp add: arch_set_def a_mode_def add.commute)
qed

text \<open>The kinds of instruction the decoder accepts.\<close>

lemma decode_cases:
  assumes "decode ins = Some i"
  obtains (half) w d ix where "get_bits ins 27 25 = 0" "bit ins 4" "bit ins 7" "transfer_form ins w d"
      "decode_indexing ins = Some ix"
      "i = Transfer (bit ins 20) w ix (bit ins 23) (ucast (get_bits ins 19 16)) (ucast (get_bits ins 15 12)) d"
    | (single) w d ix where "get_bits ins 27 25 = 2 \<or> get_bits ins 27 25 = 3" "transfer_form ins w d"
      "decode_indexing ins = Some ix"
      "i = Transfer (bit ins 20) w ix (bit ins 23) (ucast (get_bits ins 19 16)) (ucast (get_bits ins 15 12)) d"
    | (compute) "get_bits ins 27 25 = 0 \<and> \<not> (bit ins 4 \<and> bit ins 7) \<or> get_bits ins 27 25 = 1"
      "only_compares (get_bits ins 24 21) \<longrightarrow> bit ins 20"
      "i = Compute (get_bits ins 24 21) (bit ins 20) (ucast (get_bits ins 19 16)) (ucast (get_bits ins 15 12))
             (decode_operand ins)"
    | (status) "get_bits ins 27 25 = 0" "\<not> (bit ins 4 \<and> bit ins 7)" "only_compares (get_bits ins 24 21)"
      "\<not> bit ins 20" "\<not> bit ins 21" "i = Move_status (bit ins 22) (ucast (get_bits ins 15 12))"
    | (block) "get_bits ins 27 25 = 4"
      "i = Block (bit ins 20) (bit ins 24) (bit ins 23) (bit ins 21) (ucast (get_bits ins 19 16))
             (filter (bit ins) [0..<16])"
    | (branch) "get_bits ins 27 25 = 5" "i = Branch_by (bit ins 24) (sint (ucast ins :: 24 word))"
proof -
  have kind: "bit ins 25 \<longleftrightarrow> bit (get_bits ins 27 25) 0" "bit ins 26 \<longleftrightarrow> bit (get_bits ins 27 25) 1"
    by (simp_all add: get_bits_take_bit bit_simps)
  consider "get_bits ins 27 25 = 0" "bit ins 4 \<and> bit ins 7" | "get_bits ins 27 25 = 0" "\<not> (bit ins 4 \<and> bit ins 7)"
    | "get_bits ins 27 25 = 1" | "get_bits ins 27 25 = 2" | "get_bits ins 27 25 = 3" | "get_bits ins 27 25 = 4"
    | "get_bits ins 27 25 = 5"
    using assms by (auto simp: decode_def Let_def split: if_splits)
  then show thesis
  proof cases
    case 1
    then show thesis using assms half kind
      by (auto simp: decode_def decode_transfer_def transfer_form_def split: if_splits)
  next
    case 2
    then show thesis using assms compute status by (auto simp: decode_def Let_def split: if_splits)
  next
    case 3
    then show thesis using assms compute by (auto simp: decode_def Let_def split: if_splits)
  next
    case 4
    then show thesis using assms single kind
      by (auto simp: decode_def decode_transfer_def transfer_form_def bit_1_iff split: if_splits)
  next
    case 5
    then show thesis using assms single kind
      by (auto simp: decode_def decode_transfer_def transfer_form_def bit_1_iff split: if_splits)
  next
    case 6
    then show thesis using assms block by (auto simp: decode_def Let_def split: if_splits)
  next
    case 7
    then show thesis using assms branch by (auto simp: decode_def Let_def split: if_splits)
  qed
qed

lemma dispatch_executing:
  assumes "masking_shifts E" "arch_of q = advance s" "\<not> bit (a_pc s) 1" "decode ins = Some i" "agreed_instr s i"
  shows "\<exists>p'. arm_dispatch E q ins = Inr (0, p') \<and> arch_of p' = arch_exec i s"
proof -
  have kind: "field ins 7 25 = get_bits ins 27 25" by (simp add: field_get_bits)
  have hl: "drop_bit k ins AND 1 \<noteq> 0 \<longleftrightarrow> bit ins k" for k by (simp add: and_1_neq_0_iff_bit)
  note defs = arm_dispatch_def kind hl Let_def
  from assms(4) show ?thesis
  proof (cases rule: decode_cases)
    case half
    then show ?thesis using transfer_executing [OF assms(2,3) half(4-6) assms(5)] by (simp add: defs)
  next
    case single
    then show ?thesis using transfer_executing [OF assms(2,3) single(2-4) assms(5)] by (auto simp: defs)
  next
    case compute
    then show ?thesis using compute_executing [OF assms(1-3) compute(2,3) assms(5)] by (auto simp: defs)
  next
    case status
    then show ?thesis using move_status_executing [OF assms(2,3) status(3-5)] assms(5) by (auto simp: defs)
  next
    case block
    then show ?thesis using block_executing [OF assms(2,3) block(2) assms(5)] by (simp add: defs)
  next
    case branch
    then show ?thesis using branch_executing [OF assms(2,3), of ins] by (simp add: defs)
  qed
qed

lemma step_executing:
  assumes "masking_shifts E" "agreed_step (arch_of p) = Some s'"
  shows "\<exists>p'. arm_step E p = Inr (0, p') \<and> arch_of p' = s'"
proof -
  let ?s = "arch_of p"
  obtain ins where ins: "arch_word ?s (a_pc ?s) = Some ins" and pc: "\<not> bit (a_pc ?s) 1"
    and c: "get_bits ins 31 28 \<noteq> 15"
    and step: "s' = advance ?s \<and> \<not> arch_holds (a_cpsr ?s) (get_bits ins 31 28) \<or>
       (\<exists>i. arch_holds (a_cpsr ?s) (get_bits ins 31 28) \<and> decode ins = Some i \<and> agreed_instr ?s i \<and> s' = arch_exec i ?s)"
    using assms(2)
    by (auto simp del: arch_of_sel arch_of_pc simp: agreed_step_def agreed_def arch_step_def
        split: if_splits option.splits)
  obtain q where q: "arm_fetch p (uninit_ins E) = (0, ins, q)" "arch_of q = advance ?s"
    by (rule fetch_executing [OF ins pc])
  note conds = arch_holds_cond [OF c, of "arm_read_cpsr p"]
  from step show ?thesis
  proof (elim disjE exE conjE)
    fix i
    assume i: "arch_holds (a_cpsr ?s) (get_bits ins 31 28)" "decode ins = Some i" "agreed_instr ?s i"
      "s' = arch_exec i ?s"
    obtain p' where "arm_dispatch E q ins = Inr (0, p')" "arch_of p' = s'"
      using dispatch_executing [OF assms(1) q(2) pc i(2,3)] i(4) by blast
    then show ?thesis using i(1) conds by (simp add: arm_step_def arm_execute_unfold [OF q(1)])
  qed (use conds q(2) in \<open>simp add: arm_step_def arm_execute_unfold [OF q(1)]\<close>)
qed

text \<open>
  Outside the agreement: \<open>SBC\<close> of 5 and 0 with a borrow needs no borrow itself, but the simulator clears C; and a
  constant 0xFF000000 leaves C as it was where the architecture takes it from bit 31.
\<close>

lemma borrow_flag_differs:
  "\<not> bit (dp_status 0x13 op_SBC 5 0 (arch_result op_SBC 5 0 False) False) CPSR_C"
  "arch_CV op_SBC 5 0 False False False = (True, False)"
  by code_simp+

lemma constant_carry_differs:
  "operand_value s (Rotated 0xFF 4) = (0xFF000000, True)"
  "sim_carry s (Rotated 0xFF 4) = bit (a_cpsr s) CPSR_C"
proof -
  have "word_rotr (2 * 4) 0xFF = (0xFF000000 :: u32)" "bit (0xFF000000 :: u32) 31" by code_simp+
  then show "operand_value s (Rotated 0xFF 4) = (0xFF000000, True)" by simp
qed simp

section \<open>Runs\<close>

text \<open>A refinement of a reference machine step by step, under an environment that may change.\<close>

primrec run_ref :: "('a \<Rightarrow> 'a option) \<Rightarrow> nat \<Rightarrow> 'a \<Rightarrow> 'a option" where
  "run_ref f 0 s = Some s"
| "run_ref f (Suc n) s = (case f s of None \<Rightarrow> None | Some t \<Rightarrow> run_ref f n t)"

primrec run_with :: "('e \<Rightarrow> 'c \<Rightarrow> 'c option) \<Rightarrow> 'e list \<Rightarrow> 'c \<Rightarrow> 'c option" where
  "run_with f [] c = Some c"
| "run_with f (e # es) c = (case f e c of None \<Rightarrow> None | Some d \<Rightarrow> run_with f es d)"

locale stepwise_refinement =
  fixes abstraction :: "'c \<Rightarrow> 'a"
    and conc :: "'e \<Rightarrow> 'c \<Rightarrow> 'c option"
    and ref :: "'a \<Rightarrow> 'a option"
    and admissible :: "'e \<Rightarrow> bool"
  assumes one_step: "admissible e \<Longrightarrow> ref (abstraction c) = Some a \<Longrightarrow> \<exists>d. conc e c = Some d \<and> abstraction d = a"
begin

lemma whole_run:
  "list_all admissible es \<Longrightarrow> run_ref ref (length es) (abstraction c) = Some a \<Longrightarrow>
   \<exists>d. run_with conc es c = Some d \<and> abstraction d = a"
proof (induction es arbitrary: c)
  case (Cons e es)
  from Cons.prems obtain b where b: "ref (abstraction c) = Some b" "run_ref ref (length es) b = Some a"
    by (auto split: option.splits)
  moreover obtain d where "conc e c = Some d" "abstraction d = b"
    using one_step [of e c b] b(1) Cons.prems(1) by auto
  ultimately show ?case using Cons by simp
qed simp

end

text \<open>A step of the simulator that reports no exception.\<close>

definition plain_step :: "cenv \<Rightarrow> arm_core \<Rightarrow> arm_core option" where
  "plain_step E p = (case arm_step E p of Inr (result, p') \<Rightarrow> if result = 0 then Some p' else None | _ \<Rightarrow> None)"

interpretation machine: stepwise_refinement arch_of plain_step agreed_step masking_shifts
  by unfold_locales (auto simp: plain_step_def dest!: step_executing)


text \<open>
  A loop over three words behind the program: \<^verbatim>\<open>mov r2, #32\<close>, \<^verbatim>\<open>mov r0, #3\<close>, \<^verbatim>\<open>mov r1, #0\<close>,
  \<^verbatim>\<open>ldr r3, [r2], #4\<close>, \<^verbatim>\<open>add r1, r1, r3\<close>, \<^verbatim>\<open>subs r0, r0, #1\<close>, \<^verbatim>\<open>bne\<close> to the load,
  \<^verbatim>\<open>strb r1, [r2]\<close>; the words are 5, 6 and 7.
\<close>

definition sum_program :: "u32 list" where
  "sum_program = [0xE3A02020, 0xE3A00003, 0xE3A01000, 0xE4923004, 0xE0811003, 0xE2500001, 0x1AFFFFFB, 0xE5C21000,
                  5, 6, 7]"

definition program_memory :: "u32 list \<Rightarrow> u32 \<Rightarrow> u8" where
  "program_memory ws a =
     (let k = unat a div 4 in if k < length ws then ucast (drop_bit (24 - 8 * (unat a mod 4)) (ws ! k)) else 0)"

definition program_start :: "u32 list \<Rightarrow> arm_core" where
  "program_start ws =
     \<lparr>cycle_count = 0, arm_reg = (\<lambda>_. 0)(16 := 0x13),
      arm_mem = memory_create (program_memory ws) 64 True\<rparr>"

section \<open>Properties\<close>

text \<open>
  C2: the step of the simulator refines the architecture. In every state in which the simulator is said to agree,
  a step succeeds, raises no exception, and the banked registers, the status words and the memory it
  leaves are exactly those the architecture defines.
\<close>

theorem step_refines_architecture:
  assumes "masking_shifts E" "agreed (arch_of p)" "arch_step (arch_of p) = Some s"
  shows "\<exists>p'. arm_step E p = Inr (0, p') \<and> arch_of p' = s"
  using step_executing [OF assms(1), of p s] assms(2,3) by (simp add: agreed_step_def)

theorem step_refines_architecture_witness:
  "\<exists>p'. arm_step (x86_env 0) (program_start sum_program) = Inr (0, p') \<and> arch_get (arch_of p') 2 = 32"
proof -
  let ?p = "program_start sum_program"
  have "agreed (arch_of ?p)"
    "(case arch_step (arch_of ?p) of None \<Rightarrow> False | Some s \<Rightarrow> arch_get s 2 = 32)"
    by code_simp+
  with step_refines_architecture [OF x86.masking_shifts_axioms [of 0], of ?p] show ?thesis
    by (auto split: option.splits)
qed

text \<open>
  C3: whole runs. As long as the reference machine stays in states of agreement, the simulator passes through the
  same states, whatever the platform puts into uninitialised storage at each step.
\<close>

theorem run_refines_architecture:
  assumes "list_all masking_shifts Es" "run_ref agreed_step (length Es) (arch_of p) = Some s"
  shows "\<exists>p'. run_with plain_step Es p = Some p' \<and> arch_of p' = s"
  by (rule machine.whole_run [OF assms])

theorem run_refines_architecture_witness:
  "\<exists>p'. run_with plain_step (replicate 16 (x86_env 0)) (program_start sum_program) = Some p' \<and>
     arch_get (arch_of p') 1 = 18 \<and> a_mem (arch_of p') 44 = Some 18"
proof -
  let ?p = "program_start sum_program"
  have "case run_ref agreed_step 16 (arch_of ?p) of
      None \<Rightarrow> False | Some s \<Rightarrow> arch_get s 1 = 18 \<and> a_mem s 44 = Some 18"
    by code_simp
  then obtain s where s: "run_ref agreed_step 16 (arch_of ?p) = Some s" "arch_get s 1 = 18" "a_mem s 44 = Some 18"
    by (auto split: option.splits)
  have "list_all masking_shifts (replicate 16 (x86_env 0))"
    by (simp add: list_all_iff x86.masking_shifts_axioms)
  from run_refines_architecture [OF this, of ?p s] s show ?thesis by auto
qed

end
