(* ===== verification/Gdb_Refinement.thy ===== *)
theory Gdb_Refinement
  imports Gdb_Proofs Arm_Refinement
begin

text \<open>
  What a debugger sees of the reference semantics: the \<open>c\<close> packet runs the program to the next breakpoint and the \<open>g\<close>
  packet shows the registers there. This joins the packet analysis, the table of handlers, the loop of
  \<^verbatim>\<open>cont\<close>, the step of the processor and the encoding of the replies with the refinement of \<open>Arm_Refinement\<close>.
\<close>

section \<open>Breakpoints of the reference machine\<close>

definition arch_breakpoint :: "arch \<Rightarrow> bool" where
  "arch_breakpoint s \<longleftrightarrow>
     \<not> bit (a_pc s) 1 \<and>
     (case arch_word s (a_pc s) of None \<Rightarrow> False | Some ins \<Rightarrow> ins AND 0xFFF000F0 = 0xE7F000F0)"

lemma next_address_arch: "\<not> bit (a_pc (arch_of p)) 1 \<Longrightarrow> next_address p = a_pc (arch_of p)"
  by (simp add: next_address_def arm_read_pc bit_1_add_4)

lemma fetched_arch:
  assumes "arch_word (arch_of p) (a_pc (arch_of p)) = Some ins" "\<not> bit (a_pc (arch_of p)) 1"
  shows "in_block (arm_mem p) (next_address p)" "at_breakpoint p \<longleftrightarrow> ins AND 0xFFF000F0 = 0xE7F000F0"
  using arch_word_read [OF assms(1)] next_address_arch [OF assms(2)] by (simp_all add: at_breakpoint_def)

lemma get_bits_masked:
  assumes "h < 32" "l \<le> h" "\<And>k. l \<le> k \<Longrightarrow> k < 32 \<Longrightarrow> bit m k"
  shows "get_bits (x AND m) h l = get_bits x h l"
  using assms by (auto simp: get_bits_take_bit bit_simps intro!: bit_word_eqI)

text \<open>The pattern of a breakpoint is an instruction that is always executed and that the architecture leaves undefined.\<close>

lemma breakpoint_not_decoded:
  assumes "ins AND 0xFFF000F0 = 0xE7F000F0"
  shows "get_bits ins 31 28 = 14" "decode ins = None"
proof -
  have m: "list_all (bit (0xFFF000F0 :: u32)) [25..<32]" "bit (0xFFF000F0 :: u32) 4" "bit (0xE7F000F0 :: u32) 4"
    "get_bits 0xE7F000F0 31 28 = 14" "get_bits 0xE7F000F0 27 25 = 3"
    by code_simp+
  have high: "bit (0xFFF000F0 :: u32) k" if "25 \<le> k" "k < 32" for k
    using m(1) that unfolding list_all_iff set_upt by auto
  show "get_bits ins 31 28 = 14"
    using get_bits_masked [of 31 28 "0xFFF000F0" ins] high m(4) by (simp add: assms)
  have "get_bits ins 27 25 = 3"
    using get_bits_masked [of 27 25 "0xFFF000F0" ins] high m(5) by (simp add: assms)
  moreover have "bit ins 4" using arg_cong [OF assms, of "\<lambda>x. bit x 4"] m(2,3) by (simp only: bit_and_iff simp_thms)
  ultimately show "decode ins = None" by (simp add: decode_def Let_def)
qed

lemma agreed_no_breakpoint:
  assumes "agreed_step (arch_of p) = Some s"
  shows "in_block (arm_mem p) (next_address p)" "\<not> at_breakpoint p"
proof -
  obtain ins where ins: "arch_word (arch_of p) (a_pc (arch_of p)) = Some ins" "\<not> bit (a_pc (arch_of p)) 1"
    "\<not> arch_holds (a_cpsr (arch_of p)) (get_bits ins 31 28) \<or> decode ins \<noteq> None"
    using assms by (auto simp del: arch_of_sel arch_of_pc simp: agreed_step_def agreed_def
        split: if_splits option.splits)
  have "arch_holds c 14" for c by (simp add: arch_holds_def)
  then have "ins AND 0xFFF000F0 \<noteq> 0xE7F000F0" using ins(3) breakpoint_not_decoded [of ins] by auto
  then show "in_block (arm_mem p) (next_address p)" "\<not> at_breakpoint p" using fetched_arch [OF ins(1,2)] by simp_all
qed

section \<open>Continuing\<close>

lemma cont_loop_refines:
  assumes "\<And>i. masking_shifts (Es i)" "run_ref agreed_step n (arch_of (gdb_arm gdb)) = Some s" "arch_breakpoint s"
  shows "\<exists>p. arch_of p = s \<and> cont_loop Es ins gdb = Some (Inr (gdb\<lparr>gdb_arm := p,
           target_exception := if n = 0 then target_exception gdb else 0\<rparr>))"
  using assms
proof (induction n arbitrary: Es ins gdb)
  case 0
  then have "in_block (arm_mem (gdb_arm gdb)) (next_address (gdb_arm gdb))" "at_breakpoint (gdb_arm gdb)"
    using fetched_arch [of "gdb_arm gdb"]
    by (auto simp: arch_breakpoint_def simp del: arch_of_pc split: option.splits)
  then have "cont_loop Es ins gdb = Some (Inr gdb)" by (rule cont_loop_turn)
  with 0 show ?case by (intro exI [of _ "gdb_arm gdb"]) simp
next
  case (Suc n)
  from Suc.prems(2) obtain t where t: "agreed_step (arch_of (gdb_arm gdb)) = Some t" "run_ref agreed_step n t = Some s"
    by (auto split: option.splits)
  from step_executing [OF Suc.prems(1) t(1), of 0]
  obtain q where q: "arm_step (Es 0) (gdb_arm gdb) = Inr (0, q)" "arch_of q = t" by blast
  let ?g = "gdb\<lparr>gdb_arm := q, target_exception := 0\<rparr>"
  note turn = cont_loop_turn(2) [OF agreed_no_breakpoint [OF t(1)], of Es ins]
  obtain p where "arch_of p = s"
    "cont_loop (\<lambda>n. Es (Suc n)) (snd (memory_read_word (arm_mem (gdb_arm gdb)) (next_address (gdb_arm gdb)) 0)) ?g =
       Some (Inr (?g\<lparr>gdb_arm := p, target_exception := if n = 0 then target_exception ?g else 0\<rparr>))"
    using Suc.IH [of "\<lambda>n. Es (Suc n)" ?g] Suc.prems(1,3) t(2) q(2) by auto
  then show ?case using turn q(1) by (intro exI [of _ p]) simp
qed

section \<open>Registers\<close>

text \<open>The registers of the current mode, the program counter last.\<close>

definition arch_registers :: "arch \<Rightarrow> u32 list" where
  "arch_registers s = map (\<lambda>i. a_reg s (arch_reg (a_mode s) (of_nat i))) [0..<16]"

lemma read_registers_refines:
  assumes "arch_of (gdb_arm g) = s" "\<not> bit (a_pc s) 1"
  shows "read_general_registers g data =
     (let reply = register_packet (arch_registers s) (concat (replicate 25 (ascii ''xxxxxxxx''))) (a_cpsr s)
      in Inr (sent_packet g (frame reply (sum_list reply))))"
proof -
  let ?p = "gdb_arm g"
  have reg: "read_register (arm_reg ?p) (of_nat i) = arch_registers s ! i" if "i < 16" for i
    using arch_of_reg [of "of_nat i" ?p] that by (simp add: arch_registers_def of_nat_reg assms(1) [symmetric] arch_of_sel)
  have "arm_read_register ?p (of_nat i) = arch_registers s ! i" if "i < 15" for i
    using reg [of i] that of_nat_reg_inj [of i 15] by (simp add: arm_read_register_other)
  moreover have "arm_read_register ?p 15 - 4 = arch_registers s ! 15"
    using reg [of 15] assms(2) by (simp add: arm_read_pc assms(1) [symmetric])
  ultimately show ?thesis
    using read_general_registers_reply [of "arch_registers s" g data] assms(1) [symmetric]
    by (simp add: arch_registers_def Let_def)
qed

text \<open>\<^verbatim>\<open>mov r0, #3\<close>, \<^verbatim>\<open>add r1, r0, r0, lsl #3\<close>, then a breakpoint.\<close>

definition stop_program :: "u32 list" where
  "stop_program = [0xE3A00003, 0xE0801180, 0xE7F001F0]"

section \<open>Properties\<close>

text \<open>
  C4: a debugger that continues to a breakpoint and asks for the registers gets those of the architecture. If the
  reference machine reaches a breakpoint after one or more steps of agreement, the server acknowledges \<open>$c#63\<close>,
  returns, and reports the stop; it acknowledges \<open>$g#67\<close> and answers with the registers of the reference machine's
  mode, its program counter and its status word, under the right checksum. What the platform leaves
  in uninitialised storage on the way does not show.
\<close>

theorem debugger_sees_architecture:
  assumes "\<forall>i. masking_shifts (Es i)" "run_ref agreed_step n (arch_of (gdb_arm gdb)) = Some s" "0 < n"
    and "arch_breakpoint s"
    and "reply = register_packet (arch_registers s) (concat (replicate 25 (ascii ''xxxxxxxx''))) (a_cpsr s)"
  shows "\<exists>g1 g2. gdb_packet_analysis Es gdb (ascii ''$c#63'') = Some (Inr g1) \<and> arch_of (gdb_arm g1) = s \<and>
           gdb_packet_analysis Es' g1 (ascii ''$g#67'') = Some (Inr g2) \<and> gdb_arm g2 = gdb_arm g1 \<and>
           gdb_out g2 = gdb_out gdb @ [ascii ''+'', ascii ''$S05#b8'', ascii ''+'', frame reply (sum_list reply)]"
proof -
  let ?a = "gdb_send_ack gdb"
  have lits: "ascii ''$c#63'' = frame [99] 99" "ascii ''$g#67'' = frame [103] 103"
    "ascii ''$S05#b8'' = frame (ascii ''S05'') (sum_list (ascii ''S05''))" by code_simp+
  have arm: "gdb_arm ?a = gdb_arm gdb" "gdb_out ?a = gdb_out gdb @ [ascii ''+'']"
    by (simp_all add: gdb_send_ack_def rio_out_def)
  obtain p where p: "arch_of p = s" "cont_loop Es (uninit_ins (Es 0)) ?a =
      Some (Inr (?a\<lparr>gdb_arm := p, target_exception := if n = 0 then target_exception ?a else 0\<rparr>))"
    using cont_loop_refines [of Es n ?a s] assms(1,2,4) by (auto simp: arm)
  let ?g1 = "literal_reply (?a\<lparr>gdb_arm := p, target_exception := 0\<rparr>) ''S05''" and ?f = "frame reply (sum_list reply)"
  have g1: "gdb_packet_analysis Es gdb (frame [99] 99) = Some (Inr ?g1)"
    using p(2) assms(3)
    by (simp add: packet_analysis_frame handler_def run_handler_def cont_def send_stop_reason stop_reply_def)
  have "gdb_packet_analysis Es' ?g1 (frame [103] 103) = Some (Inr (sent_packet (gdb_send_ack ?g1) ?f))"
    using p(1) assms(4)
    by (simp add: packet_analysis_frame handler_def run_handler_def read_registers_refines assms(5) arch_breakpoint_def Let_def)
  with g1 p(1) show ?thesis
    unfolding lits(1-3)
    by (intro exI [of _ ?g1] exI [of _ "sent_packet (gdb_send_ack ?g1) ?f"])
      (simp add: arm gdb_send_ack_def rio_out_def)
qed

theorem debugger_sees_architecture_witness:
  "\<exists>g1 g2. gdb_packet_analysis (\<lambda>_. x86_env 0) (gdb_init_data (program_start stop_program) []) (ascii ''$c#63'') =
       Some (Inr g1) \<and>
     gdb_packet_analysis (\<lambda>_. x86_env 0) g1 (ascii ''$g#67'') = Some (Inr g2) \<and>
     take 17 (gdb_out g2 ! 3) = ascii ''$000000030000001b''"
proof -
  let ?g = "gdb_init_data (program_start stop_program) []"
  define s where "s = the (run_ref agreed_step 2 (arch_of (gdb_arm ?g)))"
  have r: "case run_ref agreed_step 2 (arch_of (gdb_arm ?g)) of None \<Rightarrow> False
      | Some s \<Rightarrow> arch_breakpoint s \<and> take 2 (arch_registers s) = [3, 27]"
    by code_simp
  then have s: "run_ref agreed_step 2 (arch_of (gdb_arm ?g)) = Some s" "arch_breakpoint s" "take 2 (arch_registers s) = [3, 27]"
    by (auto simp: s_def split: option.splits)
  let ?r = "register_packet (arch_registers s) (concat (replicate 25 (ascii ''xxxxxxxx''))) (a_cpsr s)"
  have out: "gdb_out ?g = []" by (simp add: gdb_init_data_def)
  have "\<forall>i. masking_shifts ((\<lambda>_. x86_env 0) i)" by (simp add: x86.masking_shifts_axioms)
  from debugger_sees_architecture [OF this s(1) _ s(2) refl, of "\<lambda>_. x86_env 0"]
  obtain g1 g2 where g: "gdb_packet_analysis (\<lambda>_. x86_env 0) ?g (ascii ''$c#63'') = Some (Inr g1)"
    "gdb_packet_analysis (\<lambda>_. x86_env 0) g1 (ascii ''$g#67'') = Some (Inr g2)"
    "gdb_out g2 ! 3 = frame ?r (sum_list ?r)" by (auto simp: out)
  have "arch_registers s = [3, 27] @ drop 2 (arch_registers s)" by (metis s(3) append_take_drop_id)
  then obtain rs where "arch_registers s = 3 # 27 # rs" by simp
  moreover have "36 # write_uint32 3 @ write_uint32 27 = ascii ''$000000030000001b''" "length (write_uint32 w) = 8" for w
    by (code_simp, simp)
  ultimately have "take 17 (frame ?r (sum_list ?r)) = ascii ''$000000030000001b''"
    by (simp add: frame_def register_packet_def)
  with g show ?thesis by auto
qed

end
