(* ===== verification/Arm_Trace.thy ===== *)
theory Arm_Trace
  imports Arm_Exception
begin

text \<open>
  The trace of register and memory accesses (\<^verbatim>\<open>trace.c\<close>, \<^verbatim>\<open>trace_location.h\<close>) and the
  accessors of \<^verbatim>\<open>arm_core.c\<close> with their trace calls. A line of the trace is an event with the
  arguments of its \<^verbatim>\<open>fprintf\<close>, in the format without \<^verbatim>\<open>ARM_TRACE_FORMAT\<close>; the names that
  the line shows come from the tables of \<open>Arm_Constants\<close>. The two arrays of the location stack are
  one function on the integers, so that an index outside their 128 entries is visible.
\<close>

section \<open>Definitions\<close>

abbreviation (input) SPSR :: u8 where "SPSR \<equiv> 17"
abbreviation (input) trace_CPSR :: u8 where "trace_CPSR \<equiv> 16"
abbreviation (input) flag_MEMORY :: nat where "flag_MEMORY \<equiv> 0"
abbreviation (input) flag_REGISTERS :: nat where "flag_REGISTERS \<equiv> 1"
abbreviation (input) flag_STATE :: nat where "flag_STATE \<equiv> 2"
abbreviation (input) flag_POSITION :: nat where "flag_POSITION \<equiv> 3"

datatype access = WRITE | READ
datatype cause = OTHER_ACCESS | OPCODE_FETCH

type_synonym location = "string \<times> int"

datatype trace_event =
  Memory_event (ev_location: "location option") (ev_cycle: u32) (ev_seq: bool) (ev_access: access)
    (ev_size: nat) (ev_cause: cause) (ev_address: u32) (ev_value: u32)
| Register_event (ev_location: "location option") (ev_cycle: u32) (ev_access: access)
    (ev_register: "string option") (ev_mode: "string option") (ev_value: u32)
| Text_event string   \<comment> \<open>a piece of the state that \<^verbatim>\<open>arm_print_state\<close> prints\<close>

record trace_state =
  last_address :: u32
  trace_enabled :: bool
  location_stack :: "int \<Rightarrow> location"
  location_stack_top :: int
  trace_flags :: u32
  trace_output :: "trace_event list"

definition initial_trace :: "(int \<Rightarrow> location) \<Rightarrow> trace_state" where
  "initial_trace storage =
     \<lparr>last_address = 0x12345678, trace_enabled = True, location_stack = storage,
      location_stack_top = - 1, trace_flags = 0, trace_output = []\<rparr>"

definition trace_start_location :: "string \<Rightarrow> int \<Rightarrow> trace_state \<Rightarrow> trace_state" where
  "trace_start_location file line t =
     (if trace_enabled t then
        t\<lparr>location_stack_top := location_stack_top t + 1,
          location_stack := (location_stack t)(location_stack_top t + 1 := (file, line))\<rparr>
      else t)"

definition trace_end_location :: "trace_state \<Rightarrow> trace_state" where
  "trace_end_location t =
     (if trace_enabled t then t\<lparr>location_stack_top := location_stack_top t - 1\<rparr> else t)"

definition trace_print_location :: "trace_state \<Rightarrow> location option" where
  "trace_print_location t =
     (if trace_enabled t \<and> bit (trace_flags t) flag_POSITION \<and> location_stack_top t \<ge> 0
      then Some (location_stack t (location_stack_top t)) else None)"

definition trace_memory :: "u32 \<Rightarrow> access \<Rightarrow> nat \<Rightarrow> cause \<Rightarrow> u32 \<Rightarrow> u32 \<Rightarrow> trace_state \<Rightarrow> trace_state" where
  "trace_memory cycle kind sz cause address value t =
     (if trace_enabled t \<and> bit (trace_flags t) flag_MEMORY then
        let seq = (address = last_address t + 4);
            t = t\<lparr>last_address := address\<rparr>
        in t\<lparr>trace_output := trace_output t @
               [Memory_event (trace_print_location t) cycle seq kind sz cause address value]\<rparr>
      else t)"

definition name_of :: "unit + string option \<Rightarrow> string option" where
  "name_of x = (case x of Inl u \<Rightarrow> None | Inr s \<Rightarrow> s)"

definition trace_register :: "u32 \<Rightarrow> access \<Rightarrow> u8 \<Rightarrow> u8 \<Rightarrow> u32 \<Rightarrow> trace_state \<Rightarrow> trace_state" where
  "trace_register cycle kind reg mode value t =
     (if trace_enabled t \<and> bit (trace_flags t) flag_REGISTERS then
        t\<lparr>trace_output := trace_output t @
            [Register_event (trace_print_location t) cycle kind (name_of (arm_get_register_name reg))
               (name_of (arm_get_mode_name mode)) value]\<rparr>
      else t)"

definition trace_disable :: "trace_state \<Rightarrow> trace_state" where
  "trace_disable t = t\<lparr>trace_enabled := False\<rparr>"

definition trace_enable :: "trace_state \<Rightarrow> trace_state" where
  "trace_enable t = t\<lparr>trace_enabled := True\<rparr>"

definition trace_add :: "u32 \<Rightarrow> trace_state \<Rightarrow> trace_state" where
  "trace_add flags t = t\<lparr>trace_flags := trace_flags t OR flags\<rparr>"

text \<open>
  The accessors with their trace calls. A traced read gives a value and a trace, a traced write a
  processor and a trace.
\<close>

definition traced_read_register :: "arm_core \<Rightarrow> u8 \<Rightarrow> trace_state \<Rightarrow> u32 \<times> trace_state" where
  "traced_read_register p reg t =
     (let value = arm_read_register p reg
      in (value, trace_register (cycle_count p) READ reg (get_mode (arm_reg p)) value t))"

definition traced_read_usr_register :: "arm_core \<Rightarrow> u8 \<Rightarrow> trace_state \<Rightarrow> u32 \<times> trace_state" where
  "traced_read_usr_register p reg t =
     (let value = arm_read_usr_register p reg
      in (value, trace_register (cycle_count p) READ reg USR value t))"

definition traced_read_cpsr :: "arm_core \<Rightarrow> trace_state \<Rightarrow> u32 \<times> trace_state" where
  "traced_read_cpsr p t =
     (let value = arm_read_cpsr p in (value, trace_register (cycle_count p) READ trace_CPSR 0 value t))"

definition traced_read_spsr :: "arm_core \<Rightarrow> trace_state \<Rightarrow> u32 \<times> trace_state" where
  "traced_read_spsr p t =
     (let value = arm_read_spsr p
      in (value, trace_register (cycle_count p) READ SPSR (get_mode (arm_reg p)) value t))"

definition traced_write_register :: "arm_core \<Rightarrow> u8 \<Rightarrow> u32 \<Rightarrow> trace_state \<Rightarrow> arm_core \<times> trace_state" where
  "traced_write_register p reg value t =
     (let p = arm_write_register p reg value
      in (p, trace_register (cycle_count p) WRITE reg (get_mode (arm_reg p)) value t))"

definition traced_write_usr_register :: "arm_core \<Rightarrow> u8 \<Rightarrow> u32 \<Rightarrow> trace_state \<Rightarrow> arm_core \<times> trace_state" where
  "traced_write_usr_register p reg value t =
     (let p = arm_write_usr_register p reg value
      in (p, trace_register (cycle_count p) WRITE reg USR value t))"

definition traced_write_cpsr :: "arm_core \<Rightarrow> u32 \<Rightarrow> trace_state \<Rightarrow> arm_core \<times> trace_state" where
  "traced_write_cpsr p value t =
     (let p = arm_write_cpsr p value in (p, trace_register (cycle_count p) WRITE trace_CPSR 0 value t))"

definition traced_write_spsr :: "arm_core \<Rightarrow> u32 \<Rightarrow> trace_state \<Rightarrow> arm_core \<times> trace_state" where
  "traced_write_spsr p value t =
     (let p = arm_write_spsr p value
      in (p, trace_register (cycle_count p) WRITE SPSR (get_mode (arm_reg p)) value t))"

definition traced_fetch :: "arm_core \<Rightarrow> u32 \<Rightarrow> trace_state \<Rightarrow> (int \<times> u32 \<times> arm_core) \<times> trace_state" where
  "traced_fetch p value t =
     (let p = p\<lparr>cycle_count := cycle_count p + 1\<rparr>;
          (pc, t) = traced_read_register p 15 t;
          address = pc - 4;
          (result, value) = memory_read_word (arm_mem p) address value;
          t = trace_memory (cycle_count p) READ 4 OPCODE_FETCH address value t;
          (p, t) = traced_write_register p 15 (address + 4) t
      in ((result, value, p), t))"

definition traced_read_word :: "arm_core \<Rightarrow> u32 \<Rightarrow> u32 \<Rightarrow> trace_state \<Rightarrow> (int \<times> u32) \<times> trace_state" where
  "traced_read_word p address value t =
     (let (result, value) = arm_read_word p address value
      in ((result, value), trace_memory (cycle_count p) READ 4 OTHER_ACCESS address value t))"

definition traced_read_half :: "arm_core \<Rightarrow> u32 \<Rightarrow> u16 \<Rightarrow> trace_state \<Rightarrow> (int \<times> u16) \<times> trace_state" where
  "traced_read_half p address value t =
     (let (result, value) = arm_read_half p address value
      in ((result, value), trace_memory (cycle_count p) READ 2 OTHER_ACCESS address (ucast value) t))"

definition traced_read_byte :: "arm_core \<Rightarrow> u32 \<Rightarrow> u8 \<Rightarrow> trace_state \<Rightarrow> (int \<times> u8) \<times> trace_state" where
  "traced_read_byte p address value t =
     (let (result, value) = arm_read_byte p address value
      in ((result, value), trace_memory (cycle_count p) READ 1 OTHER_ACCESS address (ucast value) t))"

definition traced_write_word :: "arm_core \<Rightarrow> u32 \<Rightarrow> u32 \<Rightarrow> trace_state \<Rightarrow> (int \<times> arm_core) \<times> trace_state" where
  "traced_write_word p address value t =
     (arm_write_word p address value, trace_memory (cycle_count p) WRITE 4 OTHER_ACCESS address value t)"

definition traced_write_half :: "arm_core \<Rightarrow> u32 \<Rightarrow> u16 \<Rightarrow> trace_state \<Rightarrow> (int \<times> arm_core) \<times> trace_state" where
  "traced_write_half p address value t =
     (arm_write_half p address value, trace_memory (cycle_count p) WRITE 2 OTHER_ACCESS address (ucast value) t)"

definition traced_write_byte :: "arm_core \<Rightarrow> u32 \<Rightarrow> u8 \<Rightarrow> trace_state \<Rightarrow> (int \<times> arm_core) \<times> trace_state" where
  "traced_write_byte p address value t =
     (arm_write_byte p address value, trace_memory (cycle_count p) WRITE 1 OTHER_ACCESS address (ucast value) t)"

text \<open>
  The macros of \<^verbatim>\<open>trace_location.h\<close>: a call between \<^verbatim>\<open>LOCATION\<close> and \<^verbatim>\<open>END_LOCATION\<close>. Where the macro adds
  the two, C leaves the order of the operands open; the model evaluates them from left to right.
\<close>

definition located :: "string \<Rightarrow> int \<Rightarrow> (trace_state \<Rightarrow> 'a \<times> trace_state) \<Rightarrow> trace_state \<Rightarrow> 'a \<times> trace_state" where
  "located file line f t =
     (let (x, t) = f (trace_start_location file line t) in (x, trace_end_location t))"

section \<open>The interface of a traced operation\<close>

lemma location_frame [simp]:
  "trace_output (trace_start_location file line t) = trace_output t" "trace_output (trace_end_location t) = trace_output t"
  "trace_enabled (trace_start_location file line t) = trace_enabled t" "trace_enabled (trace_end_location t) = trace_enabled t"
  "trace_flags (trace_start_location file line t) = trace_flags t" "trace_flags (trace_end_location t) = trace_flags t"
  by (simp_all add: trace_start_location_def trace_end_location_def)

definition is_fetch :: "trace_event \<Rightarrow> bool" where
  "is_fetch e = (case e of Memory_event _ _ _ _ _ c _ _ \<Rightarrow> c = OPCODE_FETCH | _ \<Rightarrow> False)"

text \<open>
  An operation with a trace gives the same result as the one without. It appends to the output at most, under the
  memory flag as many lines for fetches as it makes, leaves the switches and the live part of the location stack alone,
  uses at most \<open>depth\<close> further entries of the stack, and does nothing to a disabled trace.
\<close>

locale traced_operation =
  fixes plain :: 'a and traced :: "trace_state \<Rightarrow> 'a \<times> trace_state" and fetches depth :: nat
  assumes erasure: "fst (traced t) = plain"
    and appends: "\<exists>es. trace_output (snd (traced t)) = trace_output t @ es \<and>
      length (filter is_fetch es) = (if trace_enabled t \<and> bit (trace_flags t) flag_MEMORY then fetches else 0)"
    and keeps_switches: "trace_enabled (snd (traced t)) = trace_enabled t"
      "trace_flags (snd (traced t)) = trace_flags t"
    and keeps_top: "location_stack_top (snd (traced t)) = location_stack_top t"
    and keeps_stack: "i \<le> location_stack_top t \<or> location_stack_top t + int depth < i \<Longrightarrow>
      location_stack (snd (traced t)) i = location_stack t i"
    and silent: "\<not> trace_enabled t \<Longrightarrow> snd (traced t) = t"
begin

text \<open>A call at a source position is such an operation again, one entry deeper.\<close>

lemma located_operation: "traced_operation plain (located file line traced) fetches (Suc depth)"
proof (unfold_locales, goal_cases)
  case (2 t)
  show ?case using appends [of "trace_start_location file line t"] by (simp add: located_def case_prod_beta)
next
  case (6 i t)
  then show ?case using keeps_stack [of i "trace_start_location file line t"]
    by (auto simp: located_def case_prod_beta trace_start_location_def trace_end_location_def)
qed (simp_all add: located_def case_prod_beta erasure trace_start_location_def trace_end_location_def keeps_switches
    keeps_top silent)

text \<open>One operation after the other.\<close>

lemma then_operation:
  assumes second: "traced_operation y (rest plain) fetches' depth"
  shows "traced_operation y (\<lambda>t. let (x, u) = traced t in rest x u) (fetches + fetches') depth"
proof (unfold_locales, goal_cases)
  case (2 t)
  obtain es where es: "trace_output (snd (traced t)) = trace_output t @ es"
    "length (filter is_fetch es) = (if trace_enabled t \<and> bit (trace_flags t) flag_MEMORY then fetches else 0)"
    using appends by blast
  obtain es' where es': "trace_output (snd (rest plain (snd (traced t)))) = trace_output (snd (traced t)) @ es'"
    "length (filter is_fetch es') = (if trace_enabled t \<and> bit (trace_flags t) flag_MEMORY then fetches' else 0)"
    using traced_operation.appends [OF second, of "snd (traced t)"] keeps_switches by auto
  show ?case using es es' by (intro exI [of _ "es @ es'"]) (simp add: case_prod_beta erasure)
qed (use keeps_stack traced_operation.keeps_stack [OF second] in \<open>simp_all add: case_prod_beta erasure keeps_switches
    keeps_top silent traced_operation.erasure [OF second] traced_operation.keeps_switches [OF second]
    traced_operation.keeps_top [OF second] traced_operation.silent [OF second]\<close>)

lemma renamed_result: "traced_operation (h plain) (\<lambda>t. let (x, u) = traced t in (h x, u)) fetches depth"
  by unfold_locales (use appends keeps_stack in \<open>simp_all add: case_prod_beta erasure keeps_switches keeps_top silent\<close>)

lemma more_depth: "depth \<le> d \<Longrightarrow> traced_operation plain traced fetches d"
  by unfold_locales (use erasure appends keeps_switches keeps_top keeps_stack silent in auto)

end

lemmas trace_defs = trace_register_def trace_memory_def is_fetch_def Let_def

interpretation tr_read_register: traced_operation "arm_read_register p reg" "traced_read_register p reg" 0 0 for p reg
  by unfold_locales (auto simp: traced_read_register_def trace_defs)

interpretation tr_read_usr_register: traced_operation "arm_read_usr_register p reg" "traced_read_usr_register p reg" 0 0 for p reg
  by unfold_locales (auto simp: traced_read_usr_register_def trace_defs)

interpretation tr_read_cpsr: traced_operation "arm_read_cpsr p" "traced_read_cpsr p" 0 0 for p
  by unfold_locales (auto simp: traced_read_cpsr_def trace_defs)

interpretation tr_read_spsr: traced_operation "arm_read_spsr p" "traced_read_spsr p" 0 0 for p
  by unfold_locales (auto simp: traced_read_spsr_def trace_defs)

interpretation tr_write_register: traced_operation "arm_write_register p reg v" "traced_write_register p reg v" 0 0 for p reg v
  by unfold_locales (auto simp: traced_write_register_def trace_defs)

interpretation tr_write_usr_register: traced_operation "arm_write_usr_register p reg v" "traced_write_usr_register p reg v" 0 0 for p reg v
  by unfold_locales (auto simp: traced_write_usr_register_def trace_defs)

interpretation tr_write_cpsr: traced_operation "arm_write_cpsr p v" "traced_write_cpsr p v" 0 0 for p v
  by unfold_locales (auto simp: traced_write_cpsr_def trace_defs)

interpretation tr_write_spsr: traced_operation "arm_write_spsr p v" "traced_write_spsr p v" 0 0 for p v
  by unfold_locales (auto simp: traced_write_spsr_def trace_defs)

interpretation tr_read_word: traced_operation "arm_read_word p a old" "traced_read_word p a old" 0 0 for p a old
  by unfold_locales (auto simp: traced_read_word_def trace_defs case_prod_beta)

interpretation tr_read_half: traced_operation "arm_read_half p a old" "traced_read_half p a old" 0 0 for p a old
  by unfold_locales (auto simp: traced_read_half_def trace_defs case_prod_beta)

interpretation tr_read_byte: traced_operation "arm_read_byte p a old" "traced_read_byte p a old" 0 0 for p a old
  by unfold_locales (auto simp: traced_read_byte_def trace_defs case_prod_beta)

interpretation tr_write_word: traced_operation "arm_write_word p a v" "traced_write_word p a v" 0 0 for p a v
  by unfold_locales (auto simp: traced_write_word_def trace_defs)

interpretation tr_write_half: traced_operation "arm_write_half p a v" "traced_write_half p a v" 0 0 for p a v
  by unfold_locales (auto simp: traced_write_half_def trace_defs)

interpretation tr_write_byte: traced_operation "arm_write_byte p a v" "traced_write_byte p a v" 0 0 for p a v
  by unfold_locales (auto simp: traced_write_byte_def trace_defs)

interpretation tr_fetch: traced_operation "arm_fetch p old" "traced_fetch p old" 1 0 for p old
  by unfold_locales
    (auto simp: traced_fetch_def arm_fetch_def traced_read_register_def traced_write_register_def trace_defs
      case_prod_beta)

end
