(* ===== verification/Traced_Step.thy ===== *)
theory Traced_Step
  imports Arm_Instruction Arm_Trace "HOL-Library.State_Monad"
begin

text \<open>
  The step of the processor with its trace. The handlers are written again over the traced accessors of
  \<open>Arm_Trace\<close>, each call with the file and the line at which the source has it, in the order of the
  source; a computation is a value of the state monad whose state is the processor and the trace. \<open>erase\<close> forgets the
  trace; every handler erased is the handler of the theories before, and \<open>transparent\<close> says that nothing of
  the trace but its output changes.
\<close>

section \<open>Definitions\<close>

type_synonym 'a traced = "(arm_core \<times> trace_state, 'a) state"

definition reading :: "(arm_core \<Rightarrow> trace_state \<Rightarrow> 'a \<times> trace_state) \<Rightarrow> 'a traced" where
  "reading f = State (\<lambda>(p, t). let (x, t) = f p t in (x, p, t))"

definition writing :: "(arm_core \<Rightarrow> trace_state \<Rightarrow> arm_core \<times> trace_state) \<Rightarrow> unit traced" where
  "writing f = State (\<lambda>(p, t). let (p, t) = f p t in ((), p, t))"

definition storing :: "(arm_core \<Rightarrow> trace_state \<Rightarrow> (int \<times> arm_core) \<times> trace_state) \<Rightarrow> int traced" where
  "storing f = State (\<lambda>(p, t). let ((r, p), t) = f p t in (r, p, t))"

definition fetching :: "u32 \<Rightarrow> (int \<times> u32) traced" where
  "fetching old = State (\<lambda>(p, t). let ((r, ins, p), t) = traced_fetch p old t in ((r, ins), p, t))"

definition run_on :: "'a traced \<Rightarrow> arm_core \<Rightarrow> trace_state \<Rightarrow> ('a \<times> arm_core) \<times> trace_state" where
  "run_on m p t = (let (x, p, t) = run_state m (p, t) in ((x, p), t))"

text \<open>A look at the processor that leaves no trace.\<close>

definition looking :: "(arm_core \<Rightarrow> 'a) \<Rightarrow> 'a traced" where
  "looking f = State (\<lambda>(p, t). (f p, p, t))"

text \<open>The macros of \<^verbatim>\<open>trace_location.h\<close> around a call with its arguments.\<close>

definition here :: "string \<Rightarrow> int \<Rightarrow> 'a traced \<Rightarrow> 'a traced" where
  "here file line m = State (\<lambda>(p, t). let ((x, p), t) = located file line (run_on m p) t in (x, p, t))"

abbreviation (input) read_register_at :: "string \<Rightarrow> int \<Rightarrow> u8 \<Rightarrow> u32 traced" where
  "read_register_at file line reg \<equiv> here file line (reading (\<lambda>p. traced_read_register p reg))"

abbreviation (input) read_cpsr_at :: "string \<Rightarrow> int \<Rightarrow> u32 traced" where
  "read_cpsr_at file line \<equiv> here file line (reading traced_read_cpsr)"

abbreviation (input) read_spsr_at :: "string \<Rightarrow> int \<Rightarrow> u32 traced" where
  "read_spsr_at file line \<equiv> here file line (reading traced_read_spsr)"

abbreviation (input) write_register_at :: "string \<Rightarrow> int \<Rightarrow> u8 \<Rightarrow> u32 traced \<Rightarrow> unit traced" where
  "write_register_at file line reg m \<equiv> here file line (m \<bind> (\<lambda>v. writing (\<lambda>p. traced_write_register p reg v)))"

abbreviation (input) write_cpsr_at :: "string \<Rightarrow> int \<Rightarrow> u32 traced \<Rightarrow> unit traced" where
  "write_cpsr_at file line m \<equiv> here file line (m \<bind> (\<lambda>v. writing (\<lambda>p. traced_write_cpsr p v)))"

definition traced_shifter_operand :: "cenv \<Rightarrow> u32 \<Rightarrow> bool \<Rightarrow> (u32 \<times> bool) traced" where
  "traced_shifter_operand E ins carry_out = do {
     Rm \<leftarrow> read_register_at ''arm_instruction.c'' 156 (ucast (field ins 0xF 0));
     shift \<leftarrow> (if field ins 1 4 \<noteq> 0 then read_register_at ''arm_instruction.c'' 160 (ucast (field ins 0xF 8))
               else State_Monad.return (field ins 0x1F 7));
     let shift = (if shift = 0 \<and> get_bit ins 6 \<noteq> 0 \<and> get_bit ins 4 \<noteq> 0 then 32 else shift);
     carry_out \<leftarrow> (if shift = 0
                   then do { cpsr \<leftarrow> read_cpsr_at ''arm_instruction.c'' 168; State_Monad.return (get_bit cpsr CPSR_C \<noteq> 0) }
                   else State_Monad.return carry_out);
     let kind = field ins 3 5;
     if kind = shift_LSL then
       State_Monad.return (c_shl E Rm (uint shift),
         if shift \<noteq> 0 then get_bit_at E Rm (uint (32 - shift)) \<noteq> 0 else carry_out)
     else if kind = shift_LSR then
       State_Monad.return (c_shr E Rm (uint shift),
         if shift \<noteq> 0 then get_bit_at E Rm (uint (shift - 1)) \<noteq> 0 else carry_out)
     else if kind = shift_ASR then
       State_Monad.return (asr E Rm (ucast (shift - 1)), get_bit_at E Rm (sint shift - 1) \<noteq> 0)
     else if kind = shift_ROR then
       if shift \<noteq> 0 then State_Monad.return (ror E Rm (ucast shift), get_bit_at E Rm (uint (shift - 1)) \<noteq> 0)
       else do {
         cpsr \<leftarrow> read_cpsr_at ''arm_instruction.c'' 188;
         State_Monad.return (drop_bit 1 Rm OR push_bit 31 (get_bit cpsr CPSR_C), Rm AND 1 \<noteq> 0)
       }
     else State_Monad.return (0, carry_out)
   }"

definition traced_dp_operand :: "cenv \<Rightarrow> u32 \<Rightarrow> (u32 \<times> bool) traced" where
  "traced_dp_operand E ins =
     (if field ins 1 25 \<noteq> 0 then do {
        cpsr \<leftarrow> read_cpsr_at ''arm_data_processing.c'' 53;
        State_Monad.return (ror E (ins AND 0xFF) (ucast ((drop_bit 8 ins AND 0xF) * 2)), get_bit cpsr CPSR_C \<noteq> 0)
      }
      else traced_shifter_operand E ins False)"

definition traced_miscellaneous :: "u32 \<Rightarrow> int traced" where
  "traced_miscellaneous ins =
     (if get_bit ins 21 \<noteq> 0 then State_Monad.return 0
      else if get_bit ins 22 \<noteq> 0 then do {
        has \<leftarrow> looking arm_current_mode_has_spsr;
        if \<not> has then State_Monad.return UNDEFINED_INSTRUCTION
        else do {
          write_register_at ''arm_branch_other.c'' 73 (ucast (get_bits ins 15 12)) (read_spsr_at ''arm_branch_other.c'' 73);
          State_Monad.return 0
        }
      }
      else do {
        write_register_at ''arm_branch_other.c'' 75 (ucast (get_bits ins 15 12)) (read_cpsr_at ''arm_branch_other.c'' 75);
        State_Monad.return 0
      })"

definition traced_dp_misc :: "u32 \<Rightarrow> unit traced" where
  "traced_dp_misc ins =
     (if get_bit ins 20 = 0 then traced_miscellaneous ins \<bind> (\<lambda>_. State_Monad.return ()) else State_Monad.return ())"

definition traced_dp_compute :: "u32 \<Rightarrow> u32 \<Rightarrow> u32 \<Rightarrow> u32 traced" where
  "traced_dp_compute ins Value_Rn Value_Shifter =
     (let opcode = field ins 0xF 21;
          not_c = (\<lambda>cpsr. if get_bit cpsr CPSR_C = 0 then 1 else 0)
      in if opcode = op_AND then State_Monad.return (Value_Rn AND Value_Shifter)
         else if opcode = op_EOR then State_Monad.return (Value_Rn XOR Value_Shifter)
         else if opcode = op_SUB then State_Monad.return (Value_Rn - Value_Shifter)
         else if opcode = op_RSB then State_Monad.return (Value_Shifter - Value_Rn)
         else if opcode = op_ADD then State_Monad.return (Value_Rn + Value_Shifter)
         else if opcode = op_ADC then do {
           cpsr \<leftarrow> read_cpsr_at ''arm_data_processing.c'' 80;
           State_Monad.return (Value_Rn + Value_Shifter + get_bit cpsr CPSR_C)
         }
         else if opcode = op_SBC then do {
           cpsr \<leftarrow> read_cpsr_at ''arm_data_processing.c'' 83;
           State_Monad.return (Value_Rn - Value_Shifter - not_c cpsr)
         }
         else if opcode = op_RSC then do {
           cpsr \<leftarrow> read_cpsr_at ''arm_data_processing.c'' 86;
           State_Monad.return (Value_Shifter - Value_Rn - not_c cpsr)
         }
         else if opcode = op_TST then do { traced_dp_misc ins; State_Monad.return (Value_Rn AND Value_Shifter) }
         else if opcode = op_TEQ then do { traced_dp_misc ins; State_Monad.return (Value_Rn XOR Value_Shifter) }
         else if opcode = op_CMP then do { traced_dp_misc ins; State_Monad.return (Value_Rn - Value_Shifter) }
         else if opcode = op_CMN then do { traced_dp_misc ins; State_Monad.return (Value_Rn + Value_Shifter) }
         else if opcode = op_ORR then State_Monad.return (Value_Rn OR Value_Shifter)
         else if opcode = op_MOV then State_Monad.return Value_Shifter
         else if opcode = op_BIC then State_Monad.return (Value_Rn AND NOT Value_Shifter)
         else State_Monad.return (NOT Value_Shifter))"

text \<open>The status word is read once for each of the corrections of the second operand and once for the result.\<close>

definition traced_dp_flags :: "u32 \<Rightarrow> u32 \<Rightarrow> u32 \<Rightarrow> u32 \<Rightarrow> bool \<Rightarrow> unit traced" where
  "traced_dp_flags opcode Value_Rn Value_Shifter Res carry_out = do {
     (if opcode = op_ADC then read_cpsr_at ''arm_data_processing.c'' 138 else State_Monad.return 0);
     (if opcode = op_SBC \<or> opcode = op_RSB then read_cpsr_at ''arm_data_processing.c'' 140 else State_Monad.return 0);
     cpsr \<leftarrow> read_cpsr_at ''arm_data_processing.c'' 151;
     write_cpsr_at ''arm_data_processing.c'' 162
       (State_Monad.return (dp_status cpsr opcode Value_Rn Value_Shifter Res carry_out))
   }"

definition traced_data_processing :: "cenv \<Rightarrow> u32 \<Rightarrow> int traced" where
  "traced_data_processing E ins = do {
     let opcode = field ins 0xF 21;
     Value_Rn \<leftarrow> read_register_at ''arm_data_processing.c'' 43 (ucast (field ins 0xF 16));
     let Rd = ucast (field ins 0xF 12);
     operand \<leftarrow> traced_dp_operand E ins;
     let (Value_Shifter, carry_out) = operand;
     Res \<leftarrow> traced_dp_compute ins Value_Rn Value_Shifter;
     (if field ins 3 23 \<noteq> 2 then write_register_at ''arm_data_processing.c'' 127 Rd (State_Monad.return Res)
      else State_Monad.return ());
     (if field ins 1 20 \<noteq> 0 then do {
        has \<leftarrow> looking arm_current_mode_has_spsr;
        if Rd = PC \<and> has then write_cpsr_at ''arm_data_processing.c'' 133 (read_spsr_at ''arm_data_processing.c'' 133)
        else traced_dp_flags opcode Value_Rn Value_Shifter Res carry_out
      }
      else State_Monad.return ());
     State_Monad.return 0
   }"

definition traced_addressing_mode :: "cenv \<Rightarrow> u32 \<Rightarrow> u32 traced" where
  "traced_addressing_mode E ins = do {
     let is_half = (get_bit ins 26 = 0);
     let is_shift = (get_bit ins 25 \<noteq> 0);
     let is_immedHL = (get_bit ins 22 \<noteq> 0);
     let U = (get_bit ins 23 \<noteq> 0);
     let Rm = ucast (get_bits ins 3 0);
     res \<leftarrow> (if is_shift then do { operand \<leftarrow> traced_shifter_operand E ins False; State_Monad.return (fst operand) }
             else if is_half then
               if is_immedHL then State_Monad.return (push_bit 4 (get_bits ins 11 8) OR get_bits ins 3 0)
               else read_register_at ''arm_load_store.c'' 48 Rm
             else State_Monad.return (get_bits ins 11 0));
     State_Monad.return (if \<not> U then res * - 1 else res)
   }"

definition traced_load_value :: "bool \<Rightarrow> bool \<Rightarrow> u32 \<Rightarrow> u32 \<Rightarrow> u32 traced" where
  "traced_load_value is_half is_byte address val =
     (if is_half then do {
        r \<leftarrow> here ''arm_load_store.c'' 78 (reading (\<lambda>p. traced_read_half p address (ucast val)));
        State_Monad.return (low_half val (snd r))
      }
      else if is_byte then do {
        r \<leftarrow> here ''arm_load_store.c'' 80 (reading (\<lambda>p. traced_read_byte p address (ucast val)));
        State_Monad.return (low_byte val (snd r))
      }
      else do {
        r \<leftarrow> here ''arm_load_store.c'' 82 (reading (\<lambda>p. traced_read_word p address val));
        State_Monad.return (snd r)
      })"

definition traced_store_value :: "bool \<Rightarrow> bool \<Rightarrow> u32 \<Rightarrow> u32 \<Rightarrow> int traced" where
  "traced_store_value is_half is_byte address val =
     (if is_half then here ''arm_load_store.c'' 92 (storing (\<lambda>p. traced_write_half p address (ucast val)))
      else if is_byte then here ''arm_load_store.c'' 94 (storing (\<lambda>p. traced_write_byte p address (ucast val)))
      else here ''arm_load_store.c'' 96 (storing (\<lambda>p. traced_write_word p address val)))"

text \<open>The \<^verbatim>\<open>printf\<close> of line 103 computes the offset once more; its register accesses are traced.\<close>

definition traced_load_store :: "cenv \<Rightarrow> u32 \<Rightarrow> int traced" where
  "traced_load_store E ins = do {
     let Rn = ucast (get_bits ins 19 16);
     let Rd = ucast (get_bits ins 15 12);
     let is_load = (get_bit ins 20 \<noteq> 0);
     let is_half = (get_bit ins 7 \<noteq> 0 \<and> get_bit ins 4 \<noteq> 0);
     let is_byte = (get_bit ins 22 \<noteq> 0);
     let is_P = (get_bit ins 24 \<noteq> 0);
     let is_W = (get_bit ins 21 \<noteq> 0);
     address \<leftarrow> read_register_at ''arm_load_store.c'' 71 Rn;
     address \<leftarrow> (if is_P then do { offset \<leftarrow> traced_addressing_mode E ins; State_Monad.return (address + offset) }
                 else State_Monad.return address);
     res \<leftarrow> (if is_load then do {
                val \<leftarrow> traced_load_value is_half is_byte address (uninit_val E);
                let val = (if Rd = PC then val AND 0xFFFFFFFE else val);
                (if \<not> is_P \<and> is_W then here ''arm_load_store.c'' 86 (writing (\<lambda>p. traced_write_usr_register p Rd val))
                 else write_register_at ''arm_load_store.c'' 86 Rd (State_Monad.return val));
                State_Monad.return 0
              }
              else do {
                val \<leftarrow> (if \<not> is_P \<and> is_W
                        then here ''arm_load_store.c'' 90 (reading (\<lambda>p. traced_read_usr_register p Rd))
                        else read_register_at ''arm_load_store.c'' 90 Rd);
                traced_store_value is_half is_byte address val
              });
     traced_addressing_mode E ins;
     address \<leftarrow> (if \<not> is_P then do { offset \<leftarrow> traced_addressing_mode E ins; State_Monad.return (address + offset) }
                 else State_Monad.return address);
     (if \<not> is_P \<or> is_W then write_register_at ''arm_load_store.c'' 111 Rn (State_Monad.return address)
      else State_Monad.return ());
     State_Monad.return res
   }"

definition traced_lsm_turn :: "u32 \<Rightarrow> nat \<Rightarrow> u32 \<times> u8 \<times> u32 \<times> int \<Rightarrow> (u32 \<times> u8 \<times> u32 \<times> int) traced" where
  "traced_lsm_turn ins Ri s =
     (let (address, number, val, res) = s
      in if get_bit ins Ri \<noteq> 0 then
           if get_bit ins 20 \<noteq> 0 then do {
             r \<leftarrow> here ''arm_load_store.c'' 159 (reading (\<lambda>p. traced_read_word p address val));
             let val = (if Ri = 15 then snd r AND 0xFFFFFFFE else snd r);
             write_register_at ''arm_load_store.c'' 161 (of_nat Ri) (State_Monad.return val);
             State_Monad.return (address + 4, number + 1, val, 0)
           }
           else do {
             val \<leftarrow> read_register_at ''arm_load_store.c'' 164 (of_nat Ri);
             res \<leftarrow> here ''arm_load_store.c'' 165 (storing (\<lambda>p. traced_write_word p address val));
             State_Monad.return (address + 4, number + 1, val, res)
           }
         else State_Monad.return s)"

primrec traced_lsm_loop :: "u32 \<Rightarrow> nat list \<Rightarrow> u32 \<times> u8 \<times> u32 \<times> int \<Rightarrow> (u32 \<times> u8 \<times> u32 \<times> int) traced" where
  "traced_lsm_loop ins [] s = State_Monad.return s"
| "traced_lsm_loop ins (Ri # Rs) s = traced_lsm_turn ins Ri s \<bind> traced_lsm_loop ins Rs"

definition traced_load_store_multiple :: "cenv \<Rightarrow> u32 \<Rightarrow> int traced" where
  "traced_load_store_multiple E ins = do {
     let Rn = ucast (get_bits ins 19 16);
     let is_incr = get_bit ins 23;
     let is_before = get_bit ins 24;
     let write_back = (get_bit ins 21 \<noteq> 0);
     start_address \<leftarrow> read_register_at ''arm_load_store.c'' 128 Rn;
     let address = (if is_incr = 0
                    then fold (\<lambda>Ri a. if get_bit ins Ri \<noteq> 0 then a - 4 else a) [0..<16] start_address
                    else start_address);
     let address = (if is_incr = is_before then address + 4 else address);
     s \<leftarrow> traced_lsm_loop ins [0..<16] (address, 0, uninit_val E, uninit_res E);
     let (address, number, val, res) = s;
     (if write_back then
        if is_incr \<noteq> 0
        then write_register_at ''arm_load_store.c'' 179 Rn (State_Monad.return (start_address + ucast number * 4))
        else write_register_at ''arm_load_store.c'' 181 Rn (State_Monad.return (start_address - ucast number * 4))
      else State_Monad.return ());
     State_Monad.return res
   }"

definition traced_branch :: "u32 \<Rightarrow> int traced" where
  "traced_branch ins = do {
     (if ins AND push_bit 24 1 \<noteq> 0
      then write_register_at ''arm_branch_other.c'' 41 14
             (do { pc \<leftarrow> read_register_at ''arm_branch_other.c'' 41 15; State_Monad.return (pc - 4) })
      else State_Monad.return ());
     write_register_at ''arm_branch_other.c'' 44 15
       (do { pc \<leftarrow> read_register_at ''arm_branch_other.c'' 44 15;
             State_Monad.return (pc + push_bit 2 (sign_extending (ins AND MASK_TARGET_ADR))) });
     State_Monad.return 0
   }"

definition traced_exception :: "u8 \<Rightarrow> unit traced" where
  "traced_exception exception = do {
     (if uint exception = RESET then do {
        write_cpsr_at ''arm_exception.c'' 37 (State_Monad.return (0xd3 OR Exception_bit_9));
        write_register_at ''arm_exception.c'' 38 SP (State_Monad.return 0x800)
      }
      else do {
        cpsr \<leftarrow> read_cpsr_at ''arm_exception.c'' 41;
        here ''arm_exception.c'' 45 (writing (\<lambda>p. traced_write_spsr p cpsr));
        let (cpsr, d) =
          (if uint exception = UNDEFINED_INSTRUCTION then ((cpsr AND 0x140) OR 0x9b, 4)
           else if uint exception = SOFTWARE_INTERRUPT then ((cpsr AND 0x140) OR 0x93, 4)
           else if uint exception = PREFETCH_ABORT then ((cpsr AND 0x40) OR 0x197, 4)
           else if uint exception = DATA_ABORT then ((cpsr AND 0x40) OR 0x197, 8)
           else if uint exception = INTERRUPT then ((cpsr AND 0x40) OR 0x192, 8)
           else if uint exception = FAST_INTERRUPT then (0x1d1, 8)
           else (cpsr, 4));
        write_register_at ''arm_exception.c'' 73 LR
          (do { pc \<leftarrow> read_register_at ''arm_exception.c'' 73 PC; State_Monad.return (pc + d) });
        write_cpsr_at ''arm_exception.c'' 74 (State_Monad.return cpsr)
      });
     here ''arm_exception.c'' 77
       (writing (\<lambda>p. traced_write_usr_register p PC (word_of_int ((uint exception - 1) * 4))))
   }"

definition traced_dispatch :: "cenv \<Rightarrow> u32 \<Rightarrow> (halt + int) traced" where
  "traced_dispatch E ins =
     (let kind = field ins 7 25
      in if kind = DATA_PROCESSING_SHIFT then
           if drop_bit 4 ins AND 1 \<noteq> 0 \<and> drop_bit 7 ins AND 1 \<noteq> 0
           then do { traced_load_store E ins; State_Monad.return (Inr 0) }
           else do { traced_data_processing E ins; State_Monad.return (Inr 0) }
         else if kind = DATA_PROCESSING_IMMEDIATE then do { traced_data_processing E ins; State_Monad.return (Inr 0) }
         else if kind = LOAD_STORE_IMMEDIATE then do { traced_load_store E ins; State_Monad.return (Inr 0) }
         else if kind = LOAD_STORE_REGISTER then do { traced_load_store E ins; State_Monad.return (Inr 0) }
         else if kind = LOAD_STORE_MULTIPLE then do { traced_load_store_multiple E ins; State_Monad.return (Inr 0) }
         else if kind = BRANCH then do { traced_branch ins; State_Monad.return (Inr 0) }
         else if kind = COPROCESSOR_OTHERS_SWI then do {
           result \<leftarrow> looking (\<lambda>p. arm_coprocessor_others_swi p ins);
           State_Monad.return (case result of Inl h \<Rightarrow> Inl h | Inr r \<Rightarrow> Inr 0)
         }
         else State_Monad.return (Inr UNDEFINED_INSTRUCTION))"

definition traced_execute_instruction :: "cenv \<Rightarrow> (halt + int) traced" where
  "traced_execute_instruction E = do {
     cpsr \<leftarrow> read_cpsr_at ''arm_instruction.c'' 50;
     let n = (field cpsr 1 31 \<noteq> 0);
     let z = (field cpsr 1 30 \<noteq> 0);
     let c = (field cpsr 1 29 \<noteq> 0);
     let v = (field cpsr 1 28 \<noteq> 0);
     fetched \<leftarrow> here ''arm_instruction.c'' 56 (fetching (uninit_ins E));
     let (result, ins) = fetched;
     if result \<noteq> 0 then State_Monad.return (Inr result)
     else if \<not> condition_passed (field ins 0xF 28) n z c v then State_Monad.return (Inr 0)
     else traced_dispatch E ins
   }"

definition traced_step :: "cenv \<Rightarrow> (halt + int) traced" where
  "traced_step E = do {
     outcome \<leftarrow> traced_execute_instruction E;
     case outcome of
       Inl h \<Rightarrow> State_Monad.return (Inl h)
     | Inr result \<Rightarrow> do {
         (if result \<noteq> 0 then traced_exception (word_of_int result) else State_Monad.return ());
         State_Monad.return (Inr result)
       }
   }"

section \<open>Erasure\<close>

text \<open>What a traced computation does to the processor, and that its trace does not matter for it.\<close>

definition erase :: "'a traced \<Rightarrow> arm_core \<Rightarrow> 'a \<times> arm_core" where
  "erase m p = fst (run_on m p (initial_trace (\<lambda>_. ([], 0))))"

definition transparent :: "nat \<Rightarrow> nat \<Rightarrow> 'a traced \<Rightarrow> bool" where
  "transparent n d m \<longleftrightarrow> (\<forall>p. traced_operation (erase m p) (run_on m p) n d)"

lemma transparentI: "(\<And>p. traced_operation (f p) (run_on m p) n d) \<Longrightarrow> transparent n d m"
  unfolding transparent_def erase_def using traced_operation.erasure by metis

lemma erase_eqI: "(\<And>p. traced_operation (f p) (run_on m p) n d) \<Longrightarrow> erase m p = f p"
  unfolding erase_def by (rule traced_operation.erasure)

lemma transparent_run: "transparent n d m \<Longrightarrow> fst (run_on m p t) = erase m p"
  unfolding transparent_def by (blast intro: traced_operation.erasure)

lemma erase_return [simp]: "erase (State_Monad.return x) p = (x, p)"
  by (simp add: erase_def run_on_def)

lemma run_on_bind:
  "run_on (m \<bind> k) p t = (let ((x, q), u) = run_on m p t in run_on (k x) q u)"
  by (simp add: run_on_def case_prod_beta)

lemma erase_bind:
  assumes "\<And>x. transparent n d (k x)"
  shows "erase (m \<bind> k) p = (case erase m p of (x, q) \<Rightarrow> erase (k x) q)"
  unfolding erase_def [of "m \<bind> k"] run_on_bind Let_def case_prod_beta transparent_run [OF assms]
  by (simp add: erase_def case_prod_beta)

lemma transparent_return [simp]: "transparent 0 d (State_Monad.return x)"
  by (rule transparentI [of "Pair x"], unfold_locales) (simp_all add: run_on_def)

lemma transparent_bind:
  assumes "transparent n d m" "\<And>x. transparent n' d (k x)"
  shows "transparent (n + n') d (m \<bind> k)"
proof (rule transparentI)
  fix p
  obtain x q where e: "erase m p = (x, q)" by (cases "erase m p")
  have "traced_operation (x, q) (run_on m p) n d" "traced_operation (erase (k x) q) (run_on (k x) q) n' d"
    using assms e by (metis transparent_def)+
  then have "traced_operation (erase (k x) q) (\<lambda>t. let (y, u) = run_on m p t in run_on (k (fst y)) (snd y) u) (n + n') d"
    by (intro traced_operation.then_operation [where plain = "(x, q)"]) simp_all
  then show "traced_operation (erase (m \<bind> k) p) (run_on (m \<bind> k) p) (n + n') d"
    by (simp add: run_on_bind [abs_def] erase_bind [OF assms(2)] e case_prod_beta)
qed

lemma run_on_here: "run_on (here file line m) p = located file line (run_on m p)"
  by (simp add: fun_eq_iff run_on_def here_def case_prod_beta)

lemma erase_here [simp]: "transparent n d m \<Longrightarrow> erase (here file line m) p = erase m p"
  unfolding erase_def run_on_here
  using traced_operation.located_operation [THEN traced_operation.erasure] traced_operation.erasure
  by (metis transparent_def)

lemma transparent_here: "0 < d \<Longrightarrow> transparent n (d - 1) m \<Longrightarrow> transparent n d (here file line m)"
proof (rule transparentI)
  fix p
  assume d: "0 < d" and m: "transparent n (d - 1) m"
  then have "traced_operation (erase m p) (run_on m p) n (d - 1)" by (simp add: transparent_def)
  then have "traced_operation (erase m p) (located file line (run_on m p)) n (Suc (d - 1))"
    by (rule traced_operation.located_operation)
  then show "traced_operation (erase m p) (run_on (here file line m) p) n d" using d by (simp add: run_on_here)
qed

text \<open>The accessors.\<close>

lemma run_on_accessors:
  "run_on (reading f) p = (\<lambda>t. let (x, u) = f p t in ((x, p), u))"
  "run_on (writing g) p = (\<lambda>t. let (q, u) = g p t in (((), q), u))"
  "run_on (storing h) p = h p"
  "run_on (fetching old) p = (\<lambda>t. let (x, u) = traced_fetch p old t in (case x of (r, ins, q) \<Rightarrow> ((r, ins), q), u))"
  by (simp_all add: fun_eq_iff run_on_def reading_def writing_def storing_def fetching_def case_prod_beta)

lemma reading_operation:
  assumes "\<And>p. traced_operation (x p) (f p) n 0"
  shows "transparent n d (reading f)" "erase (reading f) p = (x p, p)"
proof -
  have "traced_operation (x q, q) (run_on (reading f) q) n d" for q
    using traced_operation.renamed_result [OF assms [of q], of "\<lambda>x. (x, q)", THEN traced_operation.more_depth]
    by (simp add: run_on_accessors)
  then show "transparent n d (reading f)" "erase (reading f) p = (x p, p)"
    by (rule transparentI erase_eqI)+
qed

lemma writing_operation:
  assumes "\<And>p. traced_operation (x p) (f p) n 0"
  shows "transparent n d (writing f)" "erase (writing f) p = ((), x p)"
proof -
  have "traced_operation ((), x q) (run_on (writing f) q) n d" for q
    using traced_operation.renamed_result [OF assms [of q], of "Pair ()", THEN traced_operation.more_depth]
    by (simp add: run_on_accessors)
  then show "transparent n d (writing f)" "erase (writing f) p = ((), x p)"
    by (rule transparentI erase_eqI)+
qed

lemma storing_operation:
  assumes "\<And>p. traced_operation (x p) (f p) n 0"
  shows "transparent n d (storing f)" "erase (storing f) p = x p"
proof -
  have "traced_operation (x q) (run_on (storing f) q) n d" for q
    using traced_operation.more_depth [OF assms [of q]] by (simp add: run_on_accessors)
  then show "transparent n d (storing f)" "erase (storing f) p = x p"
    by (rule transparentI erase_eqI)+
qed

lemma fetching_operation:
  "transparent 1 d (fetching old)" "erase (fetching old) p = (case arm_fetch p old of (r, ins, q) \<Rightarrow> ((r, ins), q))"
proof -
  have "traced_operation (case arm_fetch q old of (r, ins, q') \<Rightarrow> ((r, ins), q')) (run_on (fetching old) q) 1 d" for q
    using traced_operation.renamed_result [OF tr_fetch.traced_operation_axioms,
        of "\<lambda>x. case x of (r, ins, q) \<Rightarrow> ((r, ins), q)", THEN traced_operation.more_depth]
    by (simp add: run_on_accessors)
  then show "transparent 1 d (fetching old)"
    "erase (fetching old) p = (case arm_fetch p old of (r, ins, q) \<Rightarrow> ((r, ins), q))"
    by (rule transparentI erase_eqI)+
qed

lemmas accessors [simp] =
  reading_operation [OF tr_read_register.traced_operation_axioms]
  reading_operation [OF tr_read_usr_register.traced_operation_axioms]
  reading_operation [OF tr_read_cpsr.traced_operation_axioms]
  reading_operation [OF tr_read_spsr.traced_operation_axioms]
  reading_operation [OF tr_read_word.traced_operation_axioms]
  reading_operation [OF tr_read_half.traced_operation_axioms]
  reading_operation [OF tr_read_byte.traced_operation_axioms]
  writing_operation [OF tr_write_register.traced_operation_axioms]
  writing_operation [OF tr_write_usr_register.traced_operation_axioms]
  writing_operation [OF tr_write_cpsr.traced_operation_axioms]
  writing_operation [OF tr_write_spsr.traced_operation_axioms]
  storing_operation [OF tr_write_word.traced_operation_axioms]
  storing_operation [OF tr_write_half.traced_operation_axioms]
  storing_operation [OF tr_write_byte.traced_operation_axioms]

text \<open>Computations without a fetch, at most two entries deep.\<close>

lemma quiet_bind [simp]:
  "transparent 0 d m \<Longrightarrow> (\<And>x. transparent 0 d (k x)) \<Longrightarrow> transparent 0 d (m \<bind> k)"
  using transparent_bind [of 0 d m 0 k] by simp

lemma quiet_here [simp]:
  "transparent 0 1 m \<Longrightarrow> transparent 0 2 (here file line m)"
  "transparent 0 0 m \<Longrightarrow> transparent 0 1 (here file line m)"
  "transparent 0 0 m \<Longrightarrow> transparent 0 (Suc 0) (here file line m)"
  using transparent_here [of 2 0 m] transparent_here [of 1 0 m] by simp_all

lemma quiet_if [simp]:
  "transparent n d (if b then m else k) \<longleftrightarrow> (if b then transparent n d m else transparent n d k)"
  "erase (if b then m else k) p = (if b then erase m p else erase k p)"
  by simp_all

lemma quiet_erase [simp]:
  "(\<And>x. transparent 0 2 (k x)) \<Longrightarrow> erase (m \<bind> k) p = (case erase m p of (x, q) \<Rightarrow> erase (k x) q)"
  "transparent 0 1 m' \<Longrightarrow> erase (here file line m') p = erase m' p"
  by (rule erase_bind, assumption) (rule erase_here)

lemma shifter_operand_quiet [simp]:
  "transparent 0 2 (traced_shifter_operand E ins co)"
  "erase (traced_shifter_operand E ins co) p = (shifter_operand E p ins co, p)"
   apply (simp add: traced_shifter_operand_def Let_def)
  apply (simp add: traced_shifter_operand_def shifter_operand_def Let_def)
  done

lemma looking_quiet [simp]: "transparent 0 d (looking f)" "erase (looking f) p = (f p, p)"
proof -
  have "traced_operation (f q, q) (run_on (looking f) q) 0 d" for q
    by unfold_locales (simp_all add: run_on_def looking_def)
  then show "transparent 0 d (looking f)" "erase (looking f) p = (f p, p)" by (rule transparentI erase_eqI)+
qed

lemma dp_operand_quiet [simp]:
  "transparent 0 2 (traced_dp_operand E ins)" "erase (traced_dp_operand E ins) p = (dp_operand E p ins, p)"
  by (simp_all add: traced_dp_operand_def dp_operand_def)

lemma miscellaneous_quiet [simp]:
  "transparent 0 2 (traced_miscellaneous ins)" "erase (traced_miscellaneous ins) p = arm_miscellaneous p ins"
  by (simp_all add: traced_miscellaneous_def arm_miscellaneous_def)

lemma dp_misc_quiet [simp]:
  "transparent 0 2 (traced_dp_misc ins)" "erase (traced_dp_misc ins) p = ((), dp_misc p ins)"
  by (simp_all add: traced_dp_misc_def dp_misc_def case_prod_beta)

lemma dp_compute_quiet [simp]:
  "transparent 0 2 (traced_dp_compute ins n m)" "erase (traced_dp_compute ins n m) p = dp_compute p ins n m"
  by (simp_all add: traced_dp_compute_def dp_compute_def Let_def)

lemma dp_flags_quiet [simp]:
  "transparent 0 2 (traced_dp_flags opc n m res co)"
  "erase (traced_dp_flags opc n m res co) p = ((), arm_write_cpsr p (dp_status (arm_read_cpsr p) opc n m res co))"
  by (simp_all add: traced_dp_flags_def)

lemma data_processing_quiet [simp]:
  "transparent 0 2 (traced_data_processing E ins)" "erase (traced_data_processing E ins) p = arm_data_processing E p ins"
  by (simp_all add: traced_data_processing_def arm_data_processing_def Let_def case_prod_beta)

lemma addressing_mode_quiet [simp]:
  "transparent 0 2 (traced_addressing_mode E ins)" "erase (traced_addressing_mode E ins) p = (addressing_mode E p ins, p)"
  by (simp_all add: traced_addressing_mode_def addressing_mode_def Let_def)

lemma load_value_quiet [simp]:
  "transparent 0 2 (traced_load_value h b a v)" "erase (traced_load_value h b a v) p = (load_value p h b a v, p)"
  by (simp_all add: traced_load_value_def load_value_def)

lemma store_value_quiet [simp]:
  "transparent 0 2 (traced_store_value h b a v)" "erase (traced_store_value h b a v) p = store_value p h b a v"
  by (simp_all add: traced_store_value_def store_value_def)

lemma load_store_quiet [simp]:
  "transparent 0 2 (traced_load_store E ins)" "erase (traced_load_store E ins) p = arm_load_store E p ins"
  by (simp_all add: traced_load_store_def arm_load_store_def Let_def case_prod_beta)

lemma lsm_turn_quiet [simp]:
  "transparent 0 2 (traced_lsm_turn ins Ri s)"
  "erase (traced_lsm_turn ins Ri s) p = (case lsm_turn ins Ri (p, s) of (q, s) \<Rightarrow> (s, q))"
  by (simp_all add: traced_lsm_turn_def lsm_turn_def Let_def case_prod_beta)

lemma lsm_loop_quiet [simp]: "transparent 0 2 (traced_lsm_loop ins Rs s)"
  by (induction Rs arbitrary: s) simp_all

lemma erase_lsm_loop [simp]:
  "erase (traced_lsm_loop ins Rs s) p = (case fold (lsm_turn ins) Rs (p, s) of (q, s) \<Rightarrow> (s, q))"
  by (induction Rs arbitrary: s p) (simp_all add: case_prod_beta)

lemma load_store_multiple_quiet [simp]:
  "transparent 0 2 (traced_load_store_multiple E ins)"
  "erase (traced_load_store_multiple E ins) p = arm_load_store_multiple E p ins"
  by (simp_all add: traced_load_store_multiple_def arm_load_store_multiple_def Let_def case_prod_beta)

lemma branch_quiet [simp]:
  "transparent 0 2 (traced_branch ins)" "erase (traced_branch ins) p = arm_branch p ins"
  by (simp_all add: traced_branch_def arm_branch_def Let_def)

lemma exception_quiet [simp]:
  "transparent 0 2 (traced_exception e)" "erase (traced_exception e) p = ((), arm_exception p e)"
  by (simp_all add: traced_exception_def arm_exception_def Let_def)

text \<open>A result with the state that goes with it; the state of a process that has ended does not matter.\<close>

fun agrees :: "(halt + int) \<times> arm_core \<Rightarrow> halt + int \<times> arm_core \<Rightarrow> bool" where
  "agrees (Inl h, p) y \<longleftrightarrow> y = Inl h"
| "agrees (Inr r, p) y \<longleftrightarrow> y = Inr (r, p)"

lemma dispatch_quiet [simp]: "transparent 0 2 (traced_dispatch E ins)"
  by (simp add: traced_dispatch_def Let_def)

lemma dispatch_agrees: "agrees (erase (traced_dispatch E ins) p) (arm_dispatch E p ins)"
  by (simp add: traced_dispatch_def arm_dispatch_def Let_def case_prod_beta split: sum.split)

lemma fetch_bind:
  "transparent 1 d m \<Longrightarrow> (\<And>x. transparent 0 d (k x)) \<Longrightarrow> transparent 1 d (m \<bind> k)"
  "transparent 0 d m \<Longrightarrow> (\<And>x. transparent 1 d (k x)) \<Longrightarrow> transparent 1 d (m \<bind> k)"
  using transparent_bind [of 1 d m 0 k] transparent_bind [of 0 d m 1 k] by simp_all

lemma fetch_transparent:
  "transparent 1 2 (here file line (fetching old))"
  "erase (here file line (fetching old)) p = (case arm_fetch p old of (r, ins, q) \<Rightarrow> ((r, ins), q))"
  unfolding erase_here [OF fetching_operation(1)]
  by (rule transparent_here, simp, rule fetching_operation(1)) (rule fetching_operation(2))

text \<open>The part of an instruction that starts with its fetch.\<close>

definition after_flags :: "cenv \<Rightarrow> u32 \<Rightarrow> (halt + int) traced" where
  "after_flags E cpsr = here ''arm_instruction.c'' 56 (fetching (uninit_ins E)) \<bind> (\<lambda>fetched.
     let (result, ins) = fetched
     in if result \<noteq> 0 then State_Monad.return (Inr result)
        else if \<not> status_allows cpsr (get_bits ins 31 28) then State_Monad.return (Inr 0)
        else traced_dispatch E ins)"

lemma execute_split: "traced_execute_instruction E = read_cpsr_at ''arm_instruction.c'' 50 \<bind> after_flags E"
  by (simp add: traced_execute_instruction_def after_flags_def [abs_def] Let_def status_allows_def field_1
      field_get_bits case_prod_beta cong: if_cong)

lemma after_flags_transparent: "transparent 1 2 (after_flags E cpsr)"
  unfolding after_flags_def by (rule fetch_bind(1) [OF fetch_transparent(1)]) (simp add: case_prod_beta Let_def)

lemma after_flags_agrees:
  "agrees (erase (after_flags E (arm_read_cpsr p)) p) (arm_execute_instruction E p)"
proof -
  obtain r ins q where f: "arm_fetch p (uninit_ins E) = (r, ins, q)" by (metis prod_cases3)
  show ?thesis
    using dispatch_agrees [of E ins q]
    by (simp add: after_flags_def fetch_transparent f arm_execute_unfold [OF f] case_prod_beta Let_def)
qed

lemma execute_transparent:
  "transparent 1 2 (traced_execute_instruction E)"
  "agrees (erase (traced_execute_instruction E) p) (arm_execute_instruction E p)"
proof -
  show "transparent 1 2 (traced_execute_instruction E)"
    unfolding execute_split by (rule fetch_bind(2) [OF _ after_flags_transparent]) simp
  show "agrees (erase (traced_execute_instruction E) p) (arm_execute_instruction E p)"
    using after_flags_agrees [of E p] by (simp add: execute_split erase_bind [OF after_flags_transparent])
qed

definition after_execution :: "halt + int \<Rightarrow> (halt + int) traced" where
  "after_execution outcome =
     (case outcome of
        Inl h \<Rightarrow> State_Monad.return (Inl h)
      | Inr result \<Rightarrow> (if result \<noteq> 0 then traced_exception (word_of_int result) else State_Monad.return ()) \<bind>
          (\<lambda>_. State_Monad.return (Inr result)))"

lemma after_execution_quiet [simp]: "transparent 0 2 (after_execution outcome)"
  by (simp add: after_execution_def split: sum.split)

lemma step_transparent: "transparent 1 2 (traced_step E)" "agrees (erase (traced_step E) p) (arm_step E p)"
proof -
  have split: "traced_step E = traced_execute_instruction E \<bind> after_execution"
    by (simp add: traced_step_def after_execution_def [abs_def])
  show "transparent 1 2 (traced_step E)"
    unfolding split by (rule fetch_bind(1) [OF execute_transparent(1)]) simp
  obtain x q where e: "erase (traced_execute_instruction E) p = (x, q)" by (cases "erase (traced_execute_instruction E) p")
  show "agrees (erase (traced_step E) p) (arm_step E p)"
    using execute_transparent(2) [of E p]
    unfolding split erase_bind [OF after_execution_quiet] e
    by (cases x) (simp_all add: arm_step_def after_execution_def)
qed

lemma step_result:
  "run_on (traced_step E) p t = ((x, q), u) \<Longrightarrow>
   arm_step E p = (case x of Inl h \<Rightarrow> Inl h | Inr r \<Rightarrow> Inr (r, q))"
  using step_transparent(2) [of E p] transparent_run [OF step_transparent(1), of E p t, symmetric]
  by (cases x) simp_all

section \<open>Properties\<close>

text \<open>
  Tracing does not disturb the simulation. A step with the trace, under any setting of its flags, has the result of the step
  without it and leaves the same processor. It only appends to the trace, exactly one line for the fetch of an
  instruction when memory accesses are traced; it leaves the location stack as it was and uses at most two more of its
  entries; and it does nothing to a disabled trace.
\<close>

lemma traced_step_transparent:
  assumes "run_state (traced_step E) (p, t) = (outcome, q, t')"
  shows "arm_step E p = (case outcome of Inl h \<Rightarrow> Inl h | Inr result \<Rightarrow> Inr (result, q)) \<and>
    (\<exists>es. trace_output t' = trace_output t @ es \<and>
       length (filter is_fetch es) = (if trace_enabled t \<and> bit (trace_flags t) flag_MEMORY then 1 else 0)) \<and>
    location_stack_top t' = location_stack_top t \<and>
    (\<forall>i. i \<le> location_stack_top t \<or> location_stack_top t + 2 < i \<longrightarrow> location_stack t' i = location_stack t i) \<and>
    (\<not> trace_enabled t \<longrightarrow> t' = t)"
proof -
  have op: "traced_operation (erase (traced_step E) p) (run_on (traced_step E) p) 1 2"
    using step_transparent(1) by (simp add: transparent_def)
  have run: "run_on (traced_step E) p t = ((outcome, q), t')" using assms by (simp add: run_on_def)
  have "arm_step E p = (case outcome of Inl h \<Rightarrow> Inl h | Inr result \<Rightarrow> Inr (result, q))"
    by (rule step_result [OF run])
  then show ?thesis
    using traced_operation.appends [OF op, of t] traced_operation.keeps_top [OF op, of t]
      traced_operation.keeps_stack [OF op, of _ t] traced_operation.silent [OF op, of t] by (simp add: run)
qed

end
