(* ===== verification/Arm_Print.thy ===== *)
theory Arm_Print
  imports Arm_Trace
begin

text \<open>
  Printing the state of the processor (\<^verbatim>\<open>arm_print_state\<close> of \<^verbatim>\<open>arm_core.c\<close>, called by
  \<^verbatim>\<open>trace_arm_state\<close> of \<^verbatim>\<open>trace.c\<close>). It writes to the stream of the trace, and the registers it prints
  are read with the traced accessors: when registers are traced too, the lines of these reads stand
  between the pieces of text.
\<close>

section \<open>Definitions\<close>

text \<open>The conversions \<^verbatim>\<open>%08X\<close> and \<^verbatim>\<open>%3s\<close>. \<^verbatim>\<open>printf\<close> writes \<^verbatim>\<open>(null)\<close> for a null pointer.\<close>

definition hex_char :: "u32 \<Rightarrow> char" where
  "hex_char d = ''0123456789ABCDEF'' ! unat (take_bit 4 d)"

definition print_hex8 :: "u32 \<Rightarrow> string" where
  "print_hex8 v = map (\<lambda>k. hex_char (drop_bit (4 * k) v)) (rev [0..<8])"

definition print_name3 :: "string option \<Rightarrow> string" where
  "print_name3 name =
     (let s = (case name of None \<Rightarrow> ''(null)'' | Some s \<Rightarrow> s) in replicate (3 - length s) CHR '' '' @ s)"

definition print_text :: "string \<Rightarrow> trace_state \<Rightarrow> trace_state" where
  "print_text s t = t\<lparr>trace_output := trace_output t @ [Text_event s]\<rparr>"

definition print_register :: "nat \<Rightarrow> u32 \<Rightarrow> string" where
  "print_register reg v =
     ''   '' @ print_name3 (name_of (arm_get_register_name (of_nat reg))) @ ''='' @ print_hex8 v"

text \<open>One turn of the loop over the registers. Outside user mode \<^verbatim>\<open>count\<close> is the number of the register.\<close>

definition print_register_turn :: "arm_core \<Rightarrow> u8 \<Rightarrow> nat \<Rightarrow> trace_state \<Rightarrow> trace_state" where
  "print_register_turn p mode reg t =
     (let t = (if reg > 0 \<and> reg mod 5 = 0 then print_text (CHR 0x0A # ''    '') t else t);
          (v, t) = (if mode = USR then traced_read_usr_register p (of_nat reg) t
                    else traced_read_register p (of_nat reg) t)
      in print_text (print_register reg v) t)"

definition print_mode_turn :: "arm_core \<Rightarrow> u8 \<Rightarrow> trace_state \<Rightarrow> trace_state" where
  "print_mode_turn p mode t =
     (case name_of (arm_get_mode_name mode) of
        None \<Rightarrow> t
      | Some name \<Rightarrow>
          (let t = (if mode \<noteq> SYS then print_text (name @ '':'') t else t);
               t = fold (print_register_turn p mode) [0..<16] t;
               t = (if mode = USR then
                      let (v, t) = traced_read_cpsr p t in print_text (''  CPSR='' @ print_hex8 v) t
                    else t)
           in if mode = USR \<or> mode = FIQ \<or> mode = SVC \<or> mode = UND then print_text [CHR 0x0A] t
              else if mode = IRQ \<or> mode = ABT then print_text (replicate 10 CHR '' '') t
              else t))"

definition arm_print_state :: "arm_core \<Rightarrow> trace_state \<Rightarrow> trace_state" where
  "arm_print_state p t = fold (print_mode_turn p) (map of_nat [0..<32]) t"

definition trace_arm_state :: "arm_core \<Rightarrow> trace_state \<Rightarrow> trace_state" where
  "trace_arm_state p t =
     (if trace_enabled t \<and> bit (trace_flags t) flag_STATE then arm_print_state p t else t)"

section \<open>The printed text\<close>

lemma hex_char_inj: "hex_char a = hex_char b \<Longrightarrow> take_bit 4 a = take_bit 4 b"
proof -
  have d: "distinct ''0123456789ABCDEF''" by simp
  have lt: "unat (take_bit 4 x :: u32) < length ''0123456789ABCDEF''" for x
    by (simp add: take_bit_eq_mod unat_mod)
  assume "hex_char a = hex_char b"
  then have "unat (take_bit 4 a) = unat (take_bit 4 b)"
    unfolding hex_char_def using nth_eq_iff_index_eq [OF d lt lt] by blast
  then show ?thesis by (simp only: word_unat_eq_iff)
qed

lemma length_print_hex8 [simp]: "length (print_hex8 v) = 8"
  by (simp add: print_hex8_def)

lemma print_hex8_inj: "print_hex8 v = print_hex8 w \<longleftrightarrow> v = w"
proof
  assume eq: "print_hex8 v = print_hex8 w"
  show "v = w"
  proof (rule bit_word_eqI)
    fix n
    assume "n < LENGTH(32)"
    then have "n div 4 < 8" by simp
    then have "hex_char (drop_bit (4 * (n div 4)) v) = hex_char (drop_bit (4 * (n div 4)) w)"
      using eq by (auto simp: print_hex8_def)
    from hex_char_inj [OF this] have "bit (take_bit 4 (drop_bit (4 * (n div 4)) v)) (n mod 4) =
        bit (take_bit 4 (drop_bit (4 * (n div 4)) w)) (n mod 4)" by (rule arg_cong)
    then show "bit v n = bit w n" by (simp add: bit_take_bit_iff bit_drop_bit_eq)
  qed
qed simp

text \<open>The text among the events of an output, and what a function on the trace appends to it.\<close>

fun text_of_events :: "trace_event list \<Rightarrow> string" where
  "text_of_events [] = []"
| "text_of_events (Text_event s # es) = s @ text_of_events es"
| "text_of_events (e # es) = text_of_events es"

lemma text_append [simp]: "text_of_events (es @ es') = text_of_events es @ text_of_events es'"
  by (induction es rule: text_of_events.induct) simp_all

definition shown :: "trace_state \<Rightarrow> string" where
  "shown t = text_of_events (trace_output t)"

lemma shown_print_text [simp]: "shown (print_text s t) = shown t @ s"
  by (simp add: shown_def print_text_def)

lemma shown_traced [simp]:
  "shown (snd (traced_read_register p r t)) = shown t"
  "shown (snd (traced_read_usr_register p r t)) = shown t"
  "shown (snd (traced_read_cpsr p t)) = shown t"
  by (simp_all add: shown_def traced_read_register_def traced_read_usr_register_def traced_read_cpsr_def trace_defs)

definition register_value :: "arm_core \<Rightarrow> u8 \<Rightarrow> nat \<Rightarrow> u32" where
  "register_value p mode reg =
     (if mode = USR then arm_read_usr_register p (of_nat reg) else arm_read_register p (of_nat reg))"

definition register_text :: "nat \<Rightarrow> u32 \<Rightarrow> string" where
  "register_text reg v = (if reg > 0 \<and> reg mod 5 = 0 then CHR 0x0A # ''    '' else []) @ print_register reg v"

definition mode_text :: "arm_core \<Rightarrow> u8 \<Rightarrow> string" where
  "mode_text p mode =
     (case name_of (arm_get_mode_name mode) of
        None \<Rightarrow> []
      | Some name \<Rightarrow>
          (if mode \<noteq> SYS then name @ '':'' else []) @
          concat (map (\<lambda>reg. register_text reg (register_value p mode reg)) [0..<16]) @
          (if mode = USR then ''  CPSR='' @ print_hex8 (arm_read_cpsr p) else []) @
          (if mode = USR \<or> mode = FIQ \<or> mode = SVC \<or> mode = UND then [CHR 0x0A]
           else if mode = IRQ \<or> mode = ABT then replicate 10 CHR '' '' else []))"

lemma shown_register_turn:
  "shown (print_register_turn p mode reg t) = shown t @ register_text reg (register_value p mode reg)"
  by (simp add: print_register_turn_def Let_def case_prod_beta register_text_def register_value_def
      tr_read_register.erasure tr_read_usr_register.erasure)

lemma shown_fold:
  assumes "\<And>x t. shown (f x t) = shown t @ g x"
  shows "shown (fold f xs t) = shown t @ concat (map g xs)"
  using assms by (induction xs arbitrary: t) simp_all

lemma shown_mode_turn: "shown (print_mode_turn p mode t) = shown t @ mode_text p mode"
  by (auto simp: print_mode_turn_def mode_text_def Let_def case_prod_beta tr_read_cpsr.erasure
      shown_fold [OF shown_register_turn] split: option.split)

lemma shown_print_state:
  "shown (arm_print_state p t) = shown t @ concat (map (mode_text p) (map of_nat [0..<32]))"
  unfolding arm_print_state_def by (rule shown_fold) (rule shown_mode_turn)

lemma length_register_text: "length (register_text reg v) = length (register_text reg w)"
  by (simp add: register_text_def print_register_def)

lemma register_text_inj: "register_text reg v = register_text reg w \<longleftrightarrow> v = w"
  by (simp add: register_text_def print_register_def print_hex8_inj)

lemma concat_map_inj:
  assumes "\<And>x. length (f x) = length (g x)"
  shows "concat (map f xs) = concat (map g xs) \<longleftrightarrow> (\<forall>x \<in> set xs. f x = g x)"
  using assms by (induction xs) simp_all

lemma length_concat_map:
  "(\<And>x. length (f x) = length (g x)) \<Longrightarrow> length (concat (map f xs)) = length (concat (map g xs))"
  by (induction xs) simp_all

text \<open>The text of a mode: fixed text around its registers and, in user mode, the status word.\<close>

definition registers_text :: "arm_core \<Rightarrow> u8 \<Rightarrow> string" where
  "registers_text p mode = concat (map (\<lambda>reg. register_text reg (register_value p mode reg)) [0..<16])"

definition status_text :: "arm_core \<Rightarrow> u8 \<Rightarrow> string" where
  "status_text p mode = (if mode = USR then ''  CPSR='' @ print_hex8 (arm_read_cpsr p) else [])"

lemma mode_text_shape:
  "name_of (arm_get_mode_name mode) \<noteq> None \<Longrightarrow>
   \<exists>pre post. \<forall>q. mode_text q mode = pre @ registers_text q mode @ status_text q mode @ post"
  unfolding mode_text_def registers_text_def status_text_def by fastforce

lemma length_mode_parts:
  "length (registers_text p mode) = length (registers_text p' mode)"
  "length (status_text p mode) = length (status_text p' mode)"
  by (simp_all only: registers_text_def) (rule length_concat_map, rule length_register_text, simp add: status_text_def)

lemma registers_text_inj:
  "registers_text p mode = registers_text p' mode \<longleftrightarrow> (\<forall>reg < 16. register_value p mode reg = register_value p' mode reg)"
  unfolding registers_text_def
  by (subst concat_map_inj, rule length_register_text) (simp add: register_text_inj Ball_def del: upt_conv_Cons)

lemma mode_text_inj:
  "mode_text p mode = mode_text p' mode \<longleftrightarrow>
     name_of (arm_get_mode_name mode) = None \<or>
     (\<forall>reg < 16. register_value p mode reg = register_value p' mode reg) \<and>
     (mode = USR \<longrightarrow> arm_read_cpsr p = arm_read_cpsr p')"
proof (cases "name_of (arm_get_mode_name mode) = None")
  case False
  then obtain pre post where t: "\<And>q. mode_text q mode = pre @ registers_text q mode @ status_text q mode @ post"
    using mode_text_shape by blast
  have "mode_text p mode = mode_text p' mode \<longleftrightarrow>
      registers_text p mode = registers_text p' mode \<and> status_text p mode = status_text p' mode"
    unfolding t using length_mode_parts [of p mode p'] by (simp add: append_eq_append_conv)
  moreover have "status_text p mode = status_text p' mode \<longleftrightarrow> (mode = USR \<longrightarrow> arm_read_cpsr p = arm_read_cpsr p')"
    by (simp add: status_text_def print_hex8_inj)
  ultimately show ?thesis using False unfolding registers_text_inj by blast
qed (simp add: mode_text_def)

lemma length_mode_text: "length (mode_text p mode) = length (mode_text p' mode)"
proof (cases "name_of (arm_get_mode_name mode) = None")
  case False
  then obtain pre post where "\<And>q. mode_text q mode = pre @ registers_text q mode @ status_text q mode @ post"
    using mode_text_shape by blast
  then show ?thesis using length_mode_parts [of p mode p'] by simp
qed (simp add: mode_text_def)

lemma ball_filter: "(\<forall>x \<in> set xs. N x \<or> Q x) \<longleftrightarrow> (\<forall>x \<in> set (filter (\<lambda>x. \<not> N x) xs). Q x)"
  by auto

lemma named_modes:
  "filter (\<lambda>mode. name_of (arm_get_mode_name mode) \<noteq> None) (map of_nat [0..<32]) =
     [USR, FIQ, IRQ, SVC, ABT, UND, SYS]"
  by code_simp

section \<open>Printing as a traced operation\<close>

definition trace_extends :: "trace_state \<Rightarrow> trace_state \<Rightarrow> bool" where
  "trace_extends t t' \<longleftrightarrow>
     trace_enabled t' = trace_enabled t \<and> trace_flags t' = trace_flags t \<and>
     location_stack_top t' = location_stack_top t \<and> location_stack t' = location_stack t \<and>
     (\<exists>es. trace_output t' = trace_output t @ es \<and> filter is_fetch es = [])"

lemma trace_extends_refl [simp]: "trace_extends t t"
  by (simp add: trace_extends_def)

lemma trace_extends_trans: "trace_extends t u \<Longrightarrow> trace_extends u v \<Longrightarrow> trace_extends t v"
  by (force simp: trace_extends_def)

lemma trace_extends_text [intro]: "trace_extends t u \<Longrightarrow> trace_extends t (print_text s u)"
  by (auto simp: trace_extends_def print_text_def is_fetch_def)

lemma trace_extends_reads [intro]:
  "trace_extends t u \<Longrightarrow> trace_extends t (snd (traced_read_register p r u))"
  "trace_extends t u \<Longrightarrow> trace_extends t (snd (traced_read_usr_register p r u))"
  "trace_extends t u \<Longrightarrow> trace_extends t (snd (traced_read_cpsr p u))"
  by (auto simp: trace_extends_def traced_read_register_def traced_read_usr_register_def traced_read_cpsr_def
      trace_defs)

lemma trace_extends_fold:
  "(\<And>x t u. trace_extends t u \<Longrightarrow> trace_extends t (f x u)) \<Longrightarrow> trace_extends t u \<Longrightarrow> trace_extends t (fold f xs u)"
  by (induction xs arbitrary: u) auto

lemma trace_extends_register: "trace_extends t u \<Longrightarrow> trace_extends t (print_register_turn p mode reg u)"
  by (auto simp: print_register_turn_def Let_def case_prod_beta)

lemma trace_extends_mode: "trace_extends t u \<Longrightarrow> trace_extends t (print_mode_turn p mode u)"
  by (auto simp: print_mode_turn_def Let_def case_prod_beta simp del: upt_conv_Cons split: option.split
      intro!: trace_extends_text trace_extends_reads trace_extends_fold [OF trace_extends_register])

lemma trace_extends_print: "trace_extends t (arm_print_state p t)"
  unfolding arm_print_state_def by (rule trace_extends_fold [OF trace_extends_mode]) simp_all

interpretation tr_arm_state: traced_operation "()" "\<lambda>t. ((), trace_arm_state p t)" 0 0 for p
  using trace_extends_print [of _ p]
  by unfold_locales (auto simp: trace_arm_state_def trace_extends_def)

section \<open>Properties\<close>

text \<open>
  C40: what the printed state shows. The text that two states of the processor print is the same exactly
  when they agree on the registers of user mode, on those of their current mode and on the status word: every one of
  these can be read from it. The registers that other modes have of their own are never shown, although the
  text has a block for every mode.
\<close>

theorem printed_state_shows:
  "(shown (arm_print_state p t) = shown (arm_print_state p' t)) \<longleftrightarrow>
     map (\<lambda>reg. arm_read_usr_register p (of_nat reg)) [0..<16] =
       map (\<lambda>reg. arm_read_usr_register p' (of_nat reg)) [0..<16] \<and>
     map (\<lambda>reg. arm_read_register p (of_nat reg)) [0..<16] =
       map (\<lambda>reg. arm_read_register p' (of_nat reg)) [0..<16] \<and>
     arm_read_cpsr p = arm_read_cpsr p'"
proof -
  let ?modes = "map of_nat [0..<32] :: u8 list"
  have "(shown (arm_print_state p t) = shown (arm_print_state p' t)) \<longleftrightarrow>
      (\<forall>mode \<in> set ?modes. mode_text p mode = mode_text p' mode)"
    unfolding shown_print_state by (simp only: same_append_eq concat_map_inj [OF length_mode_text])
  also have "\<dots> \<longleftrightarrow> (\<forall>mode \<in> set (filter (\<lambda>mode. name_of (arm_get_mode_name mode) \<noteq> None) ?modes).
      (\<forall>reg < 16. register_value p mode reg = register_value p' mode reg) \<and>
      (mode = USR \<longrightarrow> arm_read_cpsr p = arm_read_cpsr p'))"
    unfolding mode_text_inj by (rule ball_filter)
  also have "\<dots> \<longleftrightarrow>
     (\<forall>reg < 16. arm_read_usr_register p (of_nat reg) = arm_read_usr_register p' (of_nat reg)) \<and>
     (\<forall>reg < 16. arm_read_register p (of_nat reg) = arm_read_register p' (of_nat reg)) \<and>
     arm_read_cpsr p = arm_read_cpsr p'"
    unfolding named_modes by (simp add: register_value_def) blast
  finally show ?thesis by (simp add: map_eq_conv Ball_def del: upt_conv_Cons)
qed

end
