(* ===== verification/Traced_Session.thy ===== *)
theory Traced_Session
  imports Traced_Step Arm_Print Threads "HOL-Library.Sublist"
begin

text \<open>
  A whole session with its trace: the handlers of \<^verbatim>\<open>gdb_protocol.c\<close> that read or write the processor, with
  \<^verbatim>\<open>trace_disable\<close> and \<^verbatim>\<open>trace_enable\<close> and the source position of each access, the loop of \<^verbatim>\<open>cont\<close> with
  its silent look at the next instruction and the state report after each step, the requests of both listeners
  and the creation of the processor by \<^verbatim>\<open>main\<close>. The locale \<open>traced_request\<close> is what the session relies on: a request with
  the trace has the result of the one without, and \<open>logs\<close> says what it adds to the trace.
\<close>

section \<open>Definitions\<close>

text \<open>The part of a handler between \<^verbatim>\<open>trace_disable\<close> and \<^verbatim>\<open>trace_enable\<close>.\<close>

definition silenced :: "'a traced \<Rightarrow> 'a traced" where
  "silenced m = do {
     State (\<lambda>(p, t). ((), p, trace_disable t));
     x \<leftarrow> m;
     State (\<lambda>(p, t). ((), p, trace_enable t));
     State_Monad.return x
   }"

text \<open>The look at the next instruction in the loop of \<^verbatim>\<open>cont\<close>; the variable keeps its value when the read fails.\<close>

definition look_ahead :: "u32 \<Rightarrow> u32 traced" where
  "look_ahead instruction = silenced (do {
     pc \<leftarrow> read_register_at ''gdb_protocol.c'' 169 15;
     let r15 = pc - 4;
     r \<leftarrow> here ''gdb_protocol.c'' 170 (reading (\<lambda>p. traced_read_word p r15 instruction));
     State_Monad.return (snd r)
   })"

partial_function (option) traced_cont_loop ::
  "(nat \<Rightarrow> cenv) \<Rightarrow> u32 \<Rightarrow> gdb \<Rightarrow> trace_state \<Rightarrow> ((halt + gdb) \<times> trace_state) option" where
  "traced_cont_loop Es instruction gdb t =
     (let (instruction, s) = run_state (look_ahead instruction) (gdb_arm gdb, t)
      in if instruction AND 0xFFF000F0 = 0xE7F000F0 then Some (Inr gdb, snd s)
         else let (outcome, s) = run_state (traced_step (Es 0)) s
              in case outcome of
                   Inl h \<Rightarrow> Some (Inl h, snd s)
                 | Inr result \<Rightarrow> traced_cont_loop (\<lambda>n. Es (Suc n)) instruction
                     (gdb\<lparr>gdb_arm := fst s, target_exception := result\<rparr>) (trace_arm_state (fst s) (snd s)))"

definition traced_cont ::
  "(nat \<Rightarrow> cenv) \<Rightarrow> gdb \<Rightarrow> u8 list \<Rightarrow> trace_state \<Rightarrow> ((halt + gdb) \<times> trace_state) option" where
  "traced_cont Es gdb data t =
     (case traced_cont_loop Es (uninit_ins (Es 0)) gdb t of
        None \<Rightarrow> None
      | Some (Inl h, t) \<Rightarrow> Some (Inl h, t)
      | Some (Inr gdb, t) \<Rightarrow> Some (gdb_send_stop_reason gdb, t))"

definition traced_gdb_step :: "cenv \<Rightarrow> gdb \<Rightarrow> u8 list \<Rightarrow> trace_state \<Rightarrow> (halt + gdb) \<times> trace_state" where
  "traced_gdb_step E gdb data t =
     (case run_state (traced_step E) (gdb_arm gdb, t) of
        (Inl h, p, t) \<Rightarrow> (Inl h, t)
      | (Inr result, p, t) \<Rightarrow>
          (gdb_send_stop_reason (gdb\<lparr>gdb_arm := p, target_exception := result\<rparr>), trace_arm_state p t))"

primrec read_registers_at :: "string \<Rightarrow> int \<Rightarrow> nat list \<Rightarrow> u32 list traced" where
  "read_registers_at file line [] = State_Monad.return []"
| "read_registers_at file line (i # is) = do {
     v \<leftarrow> read_register_at file line (of_nat i);
     vs \<leftarrow> read_registers_at file line is;
     State_Monad.return (v # vs)
   }"

definition traced_read_general_registers :: "gdb \<Rightarrow> u8 list \<Rightarrow> trace_state \<Rightarrow> (halt + gdb) \<times> trace_state" where
  "traced_read_general_registers gdb data t =
     (let ((general, pc, cpsr), p, t) = run_state (silenced (do {
            general \<leftarrow> read_registers_at ''gdb_protocol.c'' 217 [0..<15];
            pc \<leftarrow> read_register_at ''gdb_protocol.c'' 221 15;
            cpsr \<leftarrow> read_cpsr_at ''gdb_protocol.c'' 235;
            State_Monad.return (general, pc - 4, cpsr)
          })) (gdb_arm gdb, t);
          floats = concat (replicate (8 * 3) (ascii ''xxxxxxxx''));
          fps = ascii ''xxxxxxxx''
      in (then_send_buffer (set_buffer gdb
            (concat (map write_uint32 general) @ write_uint32 pc @ floats @ fps @ write_uint32 cpsr)), t))"

definition traced_gdb_read_register :: "gdb \<Rightarrow> u8 list \<Rightarrow> trace_state \<Rightarrow> (halt + gdb) \<times> trace_state" where
  "traced_gdb_read_register gdb data t =
     (let reg = word_of_int (atoi data) :: u32
      in if reg < 16 then
           let (v, p, t) = run_state (silenced (read_register_at ''gdb_protocol.c'' 260 (ucast reg))) (gdb_arm gdb, t)
           in (then_send_buffer (set_buffer gdb (write_uint32 (v - (if reg = 15 then 4 else 0)))), t)
         else (Inl Abort, t))"

primrec write_registers_at :: "string \<Rightarrow> int \<Rightarrow> (nat \<Rightarrow> u32) \<Rightarrow> nat list \<Rightarrow> unit traced" where
  "write_registers_at file line f [] = State_Monad.return ()"
| "write_registers_at file line f (i # is) = do {
     write_register_at file line (of_nat i) (State_Monad.return (f i));
     write_registers_at file line f is
   }"

definition traced_write_general_registers ::
  "cenv \<Rightarrow> gdb \<Rightarrow> u8 list \<Rightarrow> trace_state \<Rightarrow> (halt + gdb) \<times> trace_state" where
  "traced_write_general_registers E gdb data t =
     (let value = read_uint32 E data (8 * (16 + 8 * 3 + 1));
          (u, p, t) = run_state (silenced (do {
            write_registers_at ''gdb_protocol.c'' 297 (\<lambda>i. read_uint32 E data (8 * i)) [0..<16];
            write_cpsr_at ''gdb_protocol.c'' 322 (State_Monad.return value)
          })) (gdb_arm gdb, t)
      in (gdb_send_data (gdb\<lparr>gdb_arm := p\<rparr>) (ascii ''OK''), t))"

definition traced_gdb_write_register ::
  "cenv \<Rightarrow> gdb \<Rightarrow> u8 list \<Rightarrow> trace_state \<Rightarrow> (halt + gdb) \<times> trace_state" where
  "traced_gdb_write_register E gdb data t =
     (let reg = (case scan_hex None data of None \<Rightarrow> uninit_val E | Some (v, r) \<Rightarrow> v)
      in case index_after data (of_char CHR ''='') of
           None \<Rightarrow> (Inl Abort, t)
         | Some k \<Rightarrow>
             let value = read_uint32 E data k
             in if reg < 16 then
                  let (u, p, t) = run_state (silenced (write_register_at ''gdb_protocol.c'' 365 (ucast reg)
                        (State_Monad.return value))) (gdb_arm gdb, t)
                  in (gdb_send_data (gdb\<lparr>gdb_arm := p\<rparr>) (ascii ''OK''), t)
                else (Inl Abort, t))"

text \<open>The other handlers do not touch the processor through a traced accessor.\<close>

definition traced_run_handler ::
  "(nat \<Rightarrow> cenv) \<Rightarrow> gdb_handler \<Rightarrow> gdb \<Rightarrow> u8 list \<Rightarrow> trace_state \<Rightarrow> ((halt + gdb) \<times> trace_state) option" where
  "traced_run_handler Es h gdb data t =
     (case h of
        Cont \<Rightarrow> traced_cont Es gdb data t
      | Kill_request \<Rightarrow> Some (kill_request gdb data, t)
      | Query \<Rightarrow> Some (query gdb data, t)
      | Read_general_registers \<Rightarrow> Some (traced_read_general_registers gdb data t)
      | Read_memory \<Rightarrow> Some (read_memory (Es 0) gdb data, t)
      | Read_register \<Rightarrow> Some (traced_gdb_read_register gdb data t)
      | Reason \<Rightarrow> Some (reason gdb data, t)
      | Set_thread \<Rightarrow> Some (set_thread gdb data, t)
      | Step \<Rightarrow> Some (traced_gdb_step (Es 0) gdb data t)
      | Write_general_registers \<Rightarrow> Some (traced_write_general_registers (Es 0) gdb data t)
      | Write_memory_binary \<Rightarrow> Some (write_memory_binary (Es 0) gdb data, t)
      | Write_register \<Rightarrow> Some (traced_gdb_write_register (Es 0) gdb data t))"

definition traced_packet_analysis ::
  "(nat \<Rightarrow> cenv) \<Rightarrow> gdb \<Rightarrow> u8 list \<Rightarrow> trace_state \<Rightarrow> ((halt + gdb) \<times> trace_state) option" where
  "traced_packet_analysis Es gdb packet t =
     (case packet_request (Es 0) gdb packet of
        Inl e \<Rightarrow> Some (Inl e, t)
      | Inr (gdb, None) \<Rightarrow> Some (Inr gdb, t)
      | Inr (gdb, Some (h, data)) \<Rightarrow> traced_run_handler Es h gdb data t)"

definition traced_scanner_action ::
  "(nat \<Rightarrow> cenv) \<Rightarrow> parser_data \<Rightarrow> token \<Rightarrow> trace_state \<Rightarrow> ((halt + parser_data) \<times> trace_state) option" where
  "traced_scanner_action Es data tok t =
     (case tok of
        Packet pkt \<Rightarrow>
          (let data = handle_error data
           in case traced_packet_analysis Es (pd_gdb data) pkt t of
                None \<Rightarrow> None
              | Some (Inl h, t) \<Rightarrow> Some (Inl h, t)
              | Some (Inr gdb, t) \<Rightarrow> Some (Inr (data\<lparr>pd_gdb := gdb\<rparr>), t))
      | _ \<Rightarrow> map_option (\<lambda>x. (x, t)) (scanner_action Es data tok))"

definition traced_irq_action :: "parser_data \<Rightarrow> u8 \<Rightarrow> trace_state \<Rightarrow> parser_data \<times> trace_state" where
  "traced_irq_action data irq t =
     (let (u, p, t) = run_state (traced_exception irq) (gdb_arm (pd_gdb data), t)
      in (data\<lparr>pd_gdb := (pd_gdb data)\<lparr>gdb_arm := p\<rparr>\<rparr>, t))"

text \<open>The reset of \<^verbatim>\<open>arm_create\<close> comes before the cycle counter is set: its lines show what the storage held.\<close>

definition traced_create ::
  "bool \<Rightarrow> registers \<Rightarrow> u32 \<Rightarrow> memory \<Rightarrow> trace_state \<Rightarrow> arm_core option \<times> trace_state" where
  "traced_create malloc_ok heap cycles mem t =
     (if malloc_ok then
        let (u, p, t) = run_state (traced_exception 1)
              (\<lparr>cycle_count = cycles, arm_reg = registers_create heap, arm_mem = mem\<rparr>, t)
        in (Some (p\<lparr>cycle_count := 0\<rparr>), t)
      else (None, t))"

inductive traced_run :: "parser_data \<Rightarrow> trace_state \<Rightarrow> request list \<Rightarrow> parser_data \<Rightarrow> trace_state \<Rightarrow> bool" for d0 t0 where
  traced_start: "traced_run d0 t0 [] d0 t0"
| traced_token: "traced_run d0 t0 rs d t \<Longrightarrow> traced_scanner_action Es d tok t = Some (Inr d', t') \<Longrightarrow>
    traced_run d0 t0 (rs @ [Token tok]) d' t'"
| traced_irq: "traced_run d0 t0 rs d t \<Longrightarrow> traced_irq_action d b t = (d', t') \<Longrightarrow>
    traced_run d0 t0 (rs @ [Irq_byte b]) d' t'"


section \<open>Erasure\<close>

lemma run_state_run_on: "run_state m (p, t) = (case run_on m p t of ((x, q), u) \<Rightarrow> (x, q, u))"
  by (simp add: run_on_def case_prod_beta)

lemma transparent_silent: "transparent n d m \<Longrightarrow> \<not> trace_enabled t \<Longrightarrow> snd (run_on m p t) = t"
  unfolding transparent_def by (blast intro: traced_operation.silent)

lemma run_silenced:
  assumes "transparent n d m"
  shows "run_state (silenced m) (p, t) = (fst (erase m p), snd (erase m p), trace_enable t)"
proof -
  have "run_on m p (trace_disable t) = (erase m p, trace_disable t)"
    using transparent_run [OF assms, of p "trace_disable t"] transparent_silent [OF assms, of "trace_disable t" p]
    by (simp add: trace_disable_def prod_eq_iff)
  then show ?thesis
    by (simp add: silenced_def run_state_run_on [of m] case_prod_beta trace_enable_def trace_disable_def)
qed

lemma look_ahead_run [simp]:
  "run_state (look_ahead ins) (p, t) = (snd (arm_read_word p (arm_read_register p 15 - 4) ins), p, trace_enable t)"
  unfolding look_ahead_def by (subst run_silenced [of 0 2]) simp_all

lemma read_registers_at_quiet [simp]:
  "transparent 0 2 (read_registers_at file line is)"
  "erase (read_registers_at file line is) p = (map (\<lambda>i. arm_read_register p (of_nat i)) is, p)"
  by (induction "is") simp_all

lemma write_registers_at_quiet [simp]:
  "transparent 0 2 (write_registers_at file line f is)"
  "erase (write_registers_at file line f is) p = ((), fold (\<lambda>i p. arm_write_register p (of_nat i) (f i)) is p)"
  by (induction "is" arbitrary: p) simp_all

lemma silenced_handlers:
  "traced_read_general_registers gdb data t = (read_general_registers gdb data, trace_enable t)"
  "traced_write_general_registers E gdb data t = (write_general_registers E gdb data, trace_enable t)"
  unfolding traced_read_general_registers_def read_general_registers_def
    traced_write_general_registers_def write_general_registers_def
  by (subst run_silenced [of 0 2]; simp add: Let_def comp_def del: upt_rec_numeral)+

lemma silenced_accesses:
  "fst (traced_gdb_read_register gdb data t) = gdb_read_register gdb data"
  "snd (traced_gdb_read_register gdb data t) \<in> {t, trace_enable t}"
  "fst (traced_gdb_write_register E gdb data t) = gdb_write_register E gdb data"
  "snd (traced_gdb_write_register E gdb data t) \<in> {t, trace_enable t}"
  unfolding traced_gdb_read_register_def gdb_read_register_def traced_gdb_write_register_def gdb_write_register_def
  by (simp_all add: run_silenced [of 0 2] Let_def split: option.split)


section \<open>The cycle counter\<close>

text \<open>Only a fetch counts a cycle.\<close>

lemma cycles_handlers [simp]:
  "cycle_count (arm_exception p e) = cycle_count p"
  "cycle_count (snd (arm_branch p ins)) = cycle_count p"
  "cycle_count (snd (arm_miscellaneous p ins)) = cycle_count p"
  by (simp_all add: arm_exception_def arm_branch_def arm_miscellaneous_def Let_def case_prod_beta)

lemma cycles_data_processing [simp]: "cycle_count (snd (arm_data_processing E p ins)) = cycle_count p"
  by (simp add: arm_data_processing_def Let_def case_prod_beta dp_compute_state dp_misc_def)

lemma cycles_load_store [simp]: "cycle_count (snd (arm_load_store E p ins)) = cycle_count p"
  by (simp add: arm_load_store_def Let_def case_prod_beta store_value_def)

lemma cycles_lsm: "cycle_count (fst (fold (lsm_turn ins) rs (p, s))) = cycle_count p"
proof (induction rs arbitrary: p s)
  case (Cons i rs)
  obtain q s' where t: "lsm_turn ins i (p, s) = (q, s')" by (metis surj_pair)
  have "cycle_count (fst (lsm_turn ins i (p, s))) = cycle_count p"
    by (auto simp: lsm_turn_def Let_def case_prod_beta)
  then show ?case using Cons [of q s'] by (simp add: t)
qed simp

lemma cycles_load_store_multiple [simp]: "cycle_count (snd (arm_load_store_multiple E p ins)) = cycle_count p"
  by (simp add: arm_load_store_multiple_def Let_def case_prod_beta cycles_lsm)

lemma cycles_dispatch: "arm_dispatch E p ins = Inr (r, q) \<Longrightarrow> cycle_count q = cycle_count p"
  by (auto simp: arm_dispatch_def Let_def split: if_splits sum.splits)

lemma cycles_fetch: "arm_fetch p old = (r, ins, q) \<Longrightarrow> cycle_count q = cycle_count p + 1"
  by (auto simp: arm_fetch_def Let_def case_prod_beta)

lemma cycles_step: "arm_step E p = Inr (r, q) \<Longrightarrow> cycle_count q = cycle_count p + 1"
proof -
  obtain r0 ins p' where f: "arm_fetch p (uninit_ins E) = (r0, ins, p')" by (metis prod_cases3)
  assume "arm_step E p = Inr (r, q)"
  then show ?thesis
    by (auto simp: arm_step_def arm_execute_unfold [OF f] cycles_fetch [OF f] dest!: cycles_dispatch
        split: sum.splits if_splits)
qed

section \<open>What a request adds to the trace\<close>

text \<open>The cycle numbers of the fetch lines, and the numbers that follow a given one.\<close>

definition fetch_log :: "trace_state \<Rightarrow> u32 list" where
  "fetch_log t = map ev_cycle (filter is_fetch (trace_output t))"

definition ticks :: "u32 \<Rightarrow> nat \<Rightarrow> u32 list" where
  "ticks c n = map (\<lambda>k. c + of_nat (Suc k)) [0..<n]"

lemma ticks_add: "ticks c (m + n) = ticks c m @ ticks (c + of_nat m) n"
proof -
  have "[0..<m + n] = [0..<m] @ map (\<lambda>k. k + m) [0..<n]"
    using upt_add_eq_append [of 0 m n] map_add_upt [of m n] by (simp add: add.commute)
  then show ?thesis by (simp add: ticks_def comp_def algebra_simps)
qed

definition logs :: "arm_core \<Rightarrow> trace_state \<Rightarrow> arm_core \<Rightarrow> trace_state \<Rightarrow> bool" where
  "logs p t q u \<longleftrightarrow>
     trace_enabled t \<longrightarrow>
       trace_enabled u \<and> trace_flags u = trace_flags t \<and> location_stack_top u = location_stack_top t \<and>
       (\<forall>i. i \<le> location_stack_top t \<or> location_stack_top t + 2 < i \<longrightarrow> location_stack u i = location_stack t i) \<and>
       prefix (trace_output t) (trace_output u) \<and>
       (\<exists>n. cycle_count q = cycle_count p + of_nat n \<and>
          fetch_log u = fetch_log t @ (if bit (trace_flags t) flag_MEMORY then ticks (cycle_count p) n else []))"

lemma logs_same: "cycle_count q = cycle_count p \<Longrightarrow> logs p t q t"
  unfolding logs_def by (auto simp: ticks_def intro: exI [of _ 0])

lemma trace_enable_same: "trace_enabled t \<Longrightarrow> trace_enable t = t"
  by (simp add: trace_enable_def)

lemma logs_enable: "cycle_count q = cycle_count p \<Longrightarrow> logs p t q (trace_enable t)"
  using logs_same [of q p t] by (cases "trace_enabled t") (simp add: trace_enable_same, simp add: logs_def)

lemma logs_trans:
  assumes a: "logs p t q u" and b: "logs q u r v"
  shows "logs p t r v"
proof (cases "trace_enabled t")
  case True
  then obtain m where m: "cycle_count q = cycle_count p + of_nat m"
    "fetch_log u = fetch_log t @ (if bit (trace_flags t) flag_MEMORY then ticks (cycle_count p) m else [])"
    using a by (auto simp: logs_def)
  from True obtain n where n: "cycle_count r = cycle_count q + of_nat n"
    "fetch_log v = fetch_log u @ (if bit (trace_flags u) flag_MEMORY then ticks (cycle_count q) n else [])"
    using a b by (auto simp: logs_def)
  have "cycle_count r = cycle_count p + of_nat (m + n)" using m(1) n(1) by simp
  moreover have "fetch_log v = fetch_log t @ (if bit (trace_flags t) flag_MEMORY then ticks (cycle_count p) (m + n) else [])"
    using True a m n by (simp add: ticks_add logs_def)
  moreover have "prefix (trace_output t) (trace_output v)"
    using True a b by (auto simp: logs_def intro: prefix_order.trans)
  ultimately show ?thesis using True a b unfolding logs_def by metis
qed (simp add: logs_def)

text \<open>An operation without fetches, and the step with its one fetch.\<close>

lemma no_fetch_log: "trace_output u = trace_output t @ es \<Longrightarrow> filter is_fetch es = [] \<Longrightarrow> fetch_log u = fetch_log t"
  by (simp add: fetch_log_def)

lemma quiet_log: "transparent 0 2 m \<Longrightarrow> fetch_log (snd (run_on m p t)) = fetch_log t"
  unfolding transparent_def using traced_operation.appends [of "erase m p" "run_on m p" 0 2 t]
  by (auto intro: no_fetch_log)

lemma transparent_frame:
  assumes "transparent n 2 m" and "snd (run_on m p t) = u"
  shows "trace_enabled u = trace_enabled t" "trace_flags u = trace_flags t" "location_stack_top u = location_stack_top t"
    "i \<le> location_stack_top t \<or> location_stack_top t + 2 < i \<Longrightarrow> location_stack u i = location_stack t i"
    "prefix (trace_output t) (trace_output u)"
proof -
  have op: "traced_operation (erase m p) (run_on m p) n 2" using assms(1) by (simp add: transparent_def)
  show "trace_enabled u = trace_enabled t" "trace_flags u = trace_flags t" "location_stack_top u = location_stack_top t"
    using traced_operation.keeps_switches [OF op] traced_operation.keeps_top [OF op] assms(2) by auto
  show "i \<le> location_stack_top t \<or> location_stack_top t + 2 < i \<Longrightarrow> location_stack u i = location_stack t i"
    using traced_operation.keeps_stack [OF op, of i t] assms(2) by simp
  show "prefix (trace_output t) (trace_output u)"
    using traced_operation.appends [OF op, of t] assms(2) by auto
qed

lemma logs_transparent:
  assumes "transparent n 2 m" and "run_on m p t = ((x, q), u)"
    and "trace_enabled t \<Longrightarrow> \<exists>n. cycle_count q = cycle_count p + of_nat n \<and>
      fetch_log u = fetch_log t @ (if bit (trace_flags t) flag_MEMORY then ticks (cycle_count p) n else [])"
  shows "logs p t q u"
  using transparent_frame [OF assms(1), of p t u] assms(2,3) by (auto simp: logs_def)

lemma logs_quiet:
  assumes "transparent 0 2 m" and "run_on m p t = ((x, q), u)" and "cycle_count q = cycle_count p"
  shows "logs p t q u"
  using assms(3) quiet_log [OF assms(1), of p t]
  by (intro logs_transparent [OF assms(1,2)] exI [of _ 0]) (simp add: assms(2) ticks_def)


lemma fetch_log_fetch:
  "fetch_log (snd (traced_fetch p old t)) =
     fetch_log t @ (if trace_enabled t \<and> bit (trace_flags t) flag_MEMORY then [cycle_count p + 1] else [])"
  by (auto simp: fetch_log_def traced_fetch_def traced_read_register_def traced_write_register_def trace_defs
      case_prod_beta)

lemma fetch_log_location [simp]:
  "fetch_log (trace_start_location file line t) = fetch_log t" "fetch_log (trace_end_location t) = fetch_log t"
  by (simp_all add: fetch_log_def)

lemma log_bind_quiet:
  "(\<And>x. transparent 0 2 (k x)) \<Longrightarrow> fetch_log (snd (run_on (m \<bind> k) p t)) = fetch_log (snd (run_on m p t))"
  by (simp add: run_on_bind Let_def case_prod_beta quiet_log)

lemma after_flags_log:
  "fetch_log (snd (run_on (after_flags E cpsr) p t)) =
     fetch_log t @ (if trace_enabled t \<and> bit (trace_flags t) flag_MEMORY then [cycle_count p + 1] else [])"
  unfolding after_flags_def
  by (subst log_bind_quiet)
    (simp_all add: case_prod_beta Let_def run_on_here located_def run_on_accessors fetch_log_fetch)

lemma step_split: "traced_step E = (read_cpsr_at ''arm_instruction.c'' 50 \<bind> after_flags E) \<bind> after_execution"
  by (simp only: traced_step_def execute_split after_execution_def [abs_def])

lemma step_log:
  "fetch_log (snd (run_on (traced_step E) p t)) =
     fetch_log t @ (if trace_enabled t \<and> bit (trace_flags t) flag_MEMORY then [cycle_count p + 1] else [])"
proof -
  let ?read = "read_cpsr_at ''arm_instruction.c'' 50"
  have quiet: "transparent 0 2 ?read" by simp
  obtain x q u where r: "run_on ?read p t = ((x, q), u)" by (metis surj_pair)
  have "q = p" using transparent_run [OF quiet, of p t] by (simp add: r)
  then show ?thesis
    using transparent_frame(1,2) [OF quiet, of p t u] quiet_log [OF quiet, of p t]
    by (simp only: step_split log_bind_quiet [OF after_execution_quiet])
      (simp add: run_on_bind r after_flags_log)
qed

lemma traced_step_run:
  assumes "run_state (traced_step E) (p, t) = (x, q, u)"
  shows "arm_step E p = (case x of Inl h \<Rightarrow> Inl h | Inr r \<Rightarrow> Inr (r, q))" "x = Inr r \<Longrightarrow> logs p t q u"
proof -
  have run: "run_on (traced_step E) p t = ((x, q), u)" using assms by (simp add: run_on_def)
  show step: "arm_step E p = (case x of Inl h \<Rightarrow> Inl h | Inr r \<Rightarrow> Inr (r, q))" by (rule step_result [OF run])
  assume "x = Inr r"
  then have "cycle_count q = cycle_count p + of_nat 1" using cycles_step [of E p r q] step by simp
  moreover have "fetch_log u = fetch_log t @ (if bit (trace_flags t) flag_MEMORY then ticks (cycle_count p) 1 else [])"
    if "trace_enabled t"
    using step_log [of E p t] that by (simp add: run ticks_def)
  ultimately show "logs p t q u" by (blast intro: logs_transparent [OF step_transparent(1) run])
qed

lemma logs_print: "logs p t p (trace_arm_state p t)"
proof -
  have e: "trace_extends t (trace_arm_state p t)"
    using trace_extends_print [of t p] by (simp add: trace_arm_state_def)
  then have "fetch_log (trace_arm_state p t) = fetch_log t"
    by (auto simp: trace_extends_def intro: no_fetch_log)
  then show ?thesis using e logs_same [of p p t]
    by (auto simp: logs_def trace_extends_def)
qed

section \<open>The interface of a traced request\<close>

locale traced_request =
  fixes arm :: "'s \<Rightarrow> arm_core" and plain :: "'s \<Rightarrow> (halt + 's) option"
    and traced :: "'s \<Rightarrow> trace_state \<Rightarrow> ((halt + 's) \<times> trace_state) option"
  assumes erases: "map_option fst (traced s t) = plain s"
    and logged: "traced s t = Some (Inr s', u) \<Longrightarrow> logs (arm s) t (arm s') u"
begin

lemma untraced: "traced s t = Some (y, u) \<Longrightarrow> plain s = Some y"
  using erases [of s t] by simp

lemma with_trace: "plain s = Some y \<Longrightarrow> \<exists>u. traced s t = Some (y, u)"
  using erases [of s t] by auto

end

section \<open>The handlers\<close>

lemma traced_cont_loop_some:
  assumes "traced_cont_loop Es ins gdb t = Some (y, u)"
  shows "cont_loop Es ins gdb = Some y \<and> (\<forall>g. y = Inr g \<longrightarrow> logs (gdb_arm gdb) t (gdb_arm g) u)"
proof -
  have "cont_loop Es ins gdb = Some (fst z) \<and> (\<forall>g. fst z = Inr g \<longrightarrow> logs (gdb_arm gdb) t (gdb_arm g) (snd z))"
    if "traced_cont_loop Es ins gdb t = Some z" for z
  proof (rule traced_cont_loop.raw_induct [of "\<lambda>Es ins gdb t z. cont_loop Es ins gdb = Some (fst z) \<and>
        (\<forall>g. fst z = Inr g \<longrightarrow> logs (gdb_arm gdb) t (gdb_arm g) (snd z))", OF _ that], goal_cases)
    case (1 loop Es ins gdb t z)
    note ind = 1
    let ?ins = "snd (arm_read_word (gdb_arm gdb) (arm_read_register (gdb_arm gdb) 15 - 4) ins)"
    obtain x q u where step: "run_state (traced_step (Es 0)) (gdb_arm gdb, trace_enable t) = (x, q, u)"
      by (metis surj_pair)
    note arm = traced_step_run [OF step]
    show ?case
    proof (cases "?ins AND 0xFFF000F0 = 0xE7F000F0 \<or> (\<exists>h. x = Inl h)")
      case True
      then show ?thesis using ind(2) arm(1) step
        by (auto simp: Let_def cont_loop.simps [of Es ins gdb] logs_enable)
    next
      case False
      then obtain r where r: "x = Inr r" by (cases x) auto
      let ?g = "gdb\<lparr>gdb_arm := q, target_exception := r\<rparr>"
      have more: "loop (\<lambda>n. Es (Suc n)) ?ins ?g (trace_arm_state q u) = Some z"
        using ind(2) step r False by (simp add: Let_def)
      have "logs (gdb_arm gdb) t q (trace_arm_state q u)"
        using logs_enable [of "gdb_arm gdb" "gdb_arm gdb" t] arm(2) [OF r] logs_print [of q u] by (blast intro: logs_trans)
      then show ?thesis using ind(1) [OF more] arm(1) r False
        by (auto simp: Let_def cont_loop.simps [of Es ins gdb] intro: logs_trans)
    qed
  qed
  with assms show ?thesis by fastforce
qed


lemma traced_cont_loop_returns:
  assumes "cont_loop Es ins gdb = Some y"
  shows "\<exists>u. traced_cont_loop Es ins gdb t = Some (y, u)"
proof -
  have "\<forall>t. \<exists>u. traced_cont_loop Es ins gdb t = Some (y, u)"
  proof (rule cont_loop.raw_induct [of "\<lambda>Es ins gdb y. \<forall>t. \<exists>u. traced_cont_loop Es ins gdb t = Some (y, u)",
        OF _ assms], goal_cases)
    case (1 loop Es ins gdb y)
    note ind = 1
    show ?case
    proof
      fix t
      obtain x q u where step: "run_state (traced_step (Es 0)) (gdb_arm gdb, trace_enable t) = (x, q, u)"
        by (metis surj_pair)
      from traced_step_run(1) [OF step] show "\<exists>u. traced_cont_loop Es ins gdb t = Some (y, u)"
        using ind(2) step
        by (cases x) (auto simp: Let_def traced_cont_loop.simps [of Es ins gdb t] dest!: ind(1) split: if_splits)
    qed
  qed
  then show ?thesis ..
qed

interpretation tr_cont: traced_request gdb_arm "\<lambda>gdb. cont Es gdb data" "\<lambda>gdb. traced_cont Es gdb data" for Es data
proof (unfold_locales, goal_cases)
  case (1 gdb t)
  note some = traced_cont_loop_some [of Es "uninit_ins (Es 0)" gdb t]
  show ?case
  proof (cases "cont_loop Es (uninit_ins (Es 0)) gdb")
    case None
    then show ?thesis using some
      by (cases "traced_cont_loop Es (uninit_ins (Es 0)) gdb t") (auto simp: traced_cont_def cont_def)
  next
    case (Some y)
    then show ?thesis using traced_cont_loop_returns [of Es "uninit_ins (Es 0)" gdb y t]
      by (cases y) (auto simp: traced_cont_def cont_def)
  qed
next
  case (2 gdb t g u)
  then show ?case using traced_cont_loop_some [of Es "uninit_ins (Es 0)" gdb t]
    by (auto simp: traced_cont_def send_stop_reason split: option.splits sum.splits)
qed

interpretation tr_step: traced_request gdb_arm "\<lambda>gdb. Some (gdb_step E gdb data)" "\<lambda>gdb t. Some (traced_gdb_step E gdb data t)"
  for E data
proof (unfold_locales, goal_cases)
  case (1 gdb t)
  obtain x q v where step: "run_state (traced_step E) (gdb_arm gdb, t) = (x, q, v)" by (metis surj_pair)
  show ?case
    using traced_step_run(1) [OF step] step by (cases x) (simp_all add: traced_gdb_step_def gdb_step_def)
next
  case (2 gdb t g u)
  obtain x q v where step: "run_state (traced_step E) (gdb_arm gdb, t) = (x, q, v)" by (metis surj_pair)
  show ?case using 2 step traced_step_run(2) [OF step] logs_print [of q v]
    by (cases x) (auto simp: traced_gdb_step_def send_stop_reason intro: logs_trans)
qed

lemma cycles_fold_registers [simp]:
  "cycle_count (fold (\<lambda>i p. arm_write_register p (of_nat i) (f i)) is p) = cycle_count p"
  by (induction "is" arbitrary: p) simp_all

lemma cycles_other_handlers:
  "read_general_registers gdb data = Inr g \<Longrightarrow> cycle_count (gdb_arm g) = cycle_count (gdb_arm gdb)"
  "gdb_read_register gdb data = Inr g \<Longrightarrow> cycle_count (gdb_arm g) = cycle_count (gdb_arm gdb)"
  "write_general_registers E gdb data = Inr g \<Longrightarrow> cycle_count (gdb_arm g) = cycle_count (gdb_arm gdb)"
  "gdb_write_register E gdb data = Inr g \<Longrightarrow> cycle_count (gdb_arm g) = cycle_count (gdb_arm gdb)"
  "write_memory_binary E gdb data = Inr g \<Longrightarrow> cycle_count (gdb_arm g) = cycle_count (gdb_arm gdb)"
  "read_memory E gdb data = Inr g \<Longrightarrow> cycle_count (gdb_arm g) = cycle_count (gdb_arm gdb)"
  "query gdb data = Inr g \<Longrightarrow> cycle_count (gdb_arm g) = cycle_count (gdb_arm gdb)"
  "kill_request gdb data = Inr g \<Longrightarrow> cycle_count (gdb_arm g) = cycle_count (gdb_arm gdb)"
  "reason gdb data = Inr g \<Longrightarrow> cycle_count (gdb_arm g) = cycle_count (gdb_arm gdb)"
  "set_thread gdb data = Inr g \<Longrightarrow> cycle_count (gdb_arm g) = cycle_count (gdb_arm gdb)"
  by (auto simp: read_general_registers_def gdb_read_register_def write_general_registers_def gdb_write_register_def
      write_memory_binary_def read_memory_def query_def kill_request_def reason_def set_thread_def Let_def
      case_prod_beta simp del: upt_rec_numeral split: if_splits option.splits dest!: arm_of_sent arm_of_stop_reason)

lemma traced_handler_erases:
  "map_option fst (traced_run_handler Es h gdb data t) = run_handler Es h gdb data"
  using tr_cont.erases [of Es gdb data t] tr_step.erases [of "Es 0" gdb data t]
  by (cases h) (simp_all add: traced_run_handler_def run_handler_def silenced_handlers silenced_accesses)

interpretation tr_handler: traced_request gdb_arm "\<lambda>gdb. run_handler Es h gdb data"
    "\<lambda>gdb. traced_run_handler Es h gdb data" for Es h data
proof (unfold_locales, rule traced_handler_erases)
  fix gdb t g u
  assume run: "traced_run_handler Es h gdb data t = Some (Inr g, u)"
  have "run_handler Es h gdb data = Some (Inr g)" using traced_handler_erases [of Es h gdb data t] run by simp
  with run show "logs (gdb_arm gdb) t (gdb_arm g) u"
    using silenced_accesses(2) [of gdb data t] silenced_accesses(4) [of "Es 0" gdb data t]
    by (cases h) (auto simp: traced_run_handler_def run_handler_def silenced_handlers dest: cycles_other_handlers
        intro: tr_cont.logged tr_step.logged logs_same logs_enable)
qed

section \<open>Requests\<close>

lemma traced_action_erases:
  "map_option fst (traced_scanner_action Es d tok t) = scanner_action Es d tok"
  by (cases tok) (auto simp: traced_scanner_action_def scanner_action_def traced_packet_analysis_def
      packet_analysis_request tr_handler.erases [of Es _ _ _ t, symmetric] Let_def case_prod_beta
      option.map_comp comp_def option.map_ident split: option.splits sum.splits)

lemma request_arm: "packet_request E g pkt = Inr (g', req) \<Longrightarrow> gdb_arm g' = gdb_arm g"
  by (auto simp: packet_request_def Let_def gdb_require_retransmission_def send_literal split: if_splits option.splits)

interpretation tr_action: traced_request "\<lambda>d. gdb_arm (pd_gdb d)" "\<lambda>d. scanner_action Es d tok"
    "\<lambda>d. traced_scanner_action Es d tok" for Es tok
proof (unfold_locales, rule traced_action_erases)
  fix d t d' u
  assume run: "traced_scanner_action Es d tok t = Some (Inr d', u)"
  show "logs (gdb_arm (pd_gdb d)) t (gdb_arm (pd_gdb d')) u"
  proof (cases tok)
    case (Packet pkt)
    then show ?thesis using run tr_handler.logged [of Es _ _ _ t]
      by (fastforce simp: traced_scanner_action_def traced_packet_analysis_def Let_def
          dest: request_arm intro: logs_same split: option.splits sum.splits prod.splits)
  qed (use run in \<open>auto simp: traced_scanner_action_def scanner_action_def Let_def intro: logs_same\<close>)
qed

interpretation tr_irq: traced_request "\<lambda>d. gdb_arm (pd_gdb d)" "\<lambda>d. Some (Inr (irq_action d b))"
    "\<lambda>d t. map_option (\<lambda>(d, t). (Inr d, t)) (Some (traced_irq_action d b t))" for b
proof (unfold_locales, goal_cases)
  case (1 d t)
  show ?case using transparent_run [OF exception_quiet(1), of b "gdb_arm (pd_gdb d)" t]
    by (simp add: traced_irq_action_def irq_action_def run_state_run_on case_prod_beta)
next
  case (2 d t d' u)
  let ?p = "gdb_arm (pd_gdb d)"
  obtain q v where r: "run_on (traced_exception b) ?p t = (((), q), v)" by (metis surj_pair old.unit.exhaust)
  have "q = arm_exception ?p b" using transparent_run [OF exception_quiet(1), of b ?p t] by (simp add: r)
  then have "logs ?p t q v" by (intro logs_quiet [OF exception_quiet(1) r]) simp
  with 2 show ?case by (auto simp: traced_irq_action_def run_state_run_on r)
qed

lemma traced_run_atomic:
  "traced_run d0 t0 rs d t \<Longrightarrow> atomic_run d0 rs d \<and> logs (gdb_arm (pd_gdb d0)) t0 (gdb_arm (pd_gdb d)) t"
proof (induction rule: traced_run.induct)
  case traced_start
  then show ?case by (simp add: atomic_start logs_same)
next
  case (traced_token rs d t Es tok d' t')
  then show ?case
    using tr_action.untraced [OF traced_token.hyps(2)] tr_action.logged [OF traced_token.hyps(2)]
    by (blast intro: atomic_token logs_trans)
next
  case (traced_irq rs d t b d' t')
  then have "Some (Inr (irq_action d b)) = (Some (Inr d') :: (halt + parser_data) option)"
    and "logs (gdb_arm (pd_gdb d)) t (gdb_arm (pd_gdb d')) t'"
    using tr_irq.untraced [of d b t "Inr d'" t'] tr_irq.logged [of d b t d' t'] by simp_all
  then show ?case using traced_irq.IH by (auto intro: atomic_irq logs_trans)
qed

lemma atomic_run_traced: "atomic_run d0 rs d \<Longrightarrow> \<exists>t. traced_run d0 t0 rs d t"
proof (induction rule: atomic_run.induct)
  case (atomic_token rs d Es tok d')
  then obtain t where t: "traced_run d0 t0 rs d t" by blast
  moreover obtain u where "traced_scanner_action Es d tok t = Some (Inr d', u)"
    using tr_action.with_trace [OF atomic_token.hyps(2)] by blast
  ultimately show ?case by (blast intro: traced_token)
next
  case (atomic_irq rs d b)
  then obtain t where t: "traced_run d0 t0 rs d t" by blast
  obtain u where "traced_irq_action d b t = (irq_action d b, u)"
    using tr_irq.erases [of d b t] by (cases "traced_irq_action d b t") simp
  with t show ?case by (blast intro: traced_irq)
qed (blast intro: traced_start)

lemma traced_create_run:
  "traced_create True regs cycles mem t =
     (arm_create True regs cycles mem,
      snd (run_on (traced_exception 1) \<lparr>cycle_count = cycles, arm_reg = regs, arm_mem = mem\<rparr> t))"
  using transparent_run [OF exception_quiet(1), of 1 "\<lparr>cycle_count = cycles, arm_reg = regs, arm_mem = mem\<rparr>" t]
  by (simp add: traced_create_def arm_create_def run_state_run_on registers_create_def case_prod_beta Let_def)

text \<open>The lines of the first reset carry the cycle number that the fresh storage held.\<close>

lemma register_line [simp]:
  "trace_output (trace_register c k r m v t) = trace_output t @
     (if trace_enabled t \<and> bit (trace_flags t) flag_REGISTERS
      then [Register_event (trace_print_location t) c k (name_of (arm_get_register_name r)) (name_of (arm_get_mode_name m)) v]
      else [])"
  "trace_enabled (trace_register c k r m v t) = trace_enabled t"
  "trace_flags (trace_register c k r m v t) = trace_flags t"
  by (simp_all add: trace_register_def)

lemma reset_trace_uninitialised:
  assumes "bit flags flag_REGISTERS"
  shows "map ev_cycle (trace_output (snd (traced_create True regs cycles mem (trace_add flags (initial_trace storage))))) =
     replicate 3 cycles"
proof -
  have "map ev_cycle (trace_output (snd (run_on (traced_exception 1) p t))) =
      map ev_cycle (trace_output t) @ replicate 3 (cycle_count p)"
    if "trace_enabled t" "bit (trace_flags t) flag_REGISTERS" for p t
    using that by (simp add: traced_exception_def run_on_bind run_on_here located_def run_on_accessors case_prod_beta Let_def
        traced_write_cpsr_def traced_write_register_def traced_write_usr_register_def numeral_eq_Suc)
  then show ?thesis using assms by (simp add: traced_create_run trace_add_def initial_trace_def bit_or_iff)
qed

section \<open>Properties\<close>

text \<open>
  C11: a session and its trace. The processor that \<^verbatim>\<open>main\<close> creates with the trace is the one without it, and from there
  exactly the same sequences of requests, packets and interrupts, lead to the same states. In such a session the trace only grows
  and is enabled after every request; the location stack is empty again and only its first two entries are ever written; and under the
  memory flag the lines of instruction fetches are numbered 1, 2, 3 and so on up to the value of the cycle counter. So
  the silent look of \<^verbatim>\<open>cont\<close> at the next instruction and the accesses of the debugger leave no line.
\<close>

theorem traced_session_faithful:
  assumes "traced_create True regs cycles (main_memory heap) (trace_add flags (initial_trace storage)) = (Some p, t0)"
  shows "p = main_processor heap regs cycles \<and>
    (\<forall>rs d. atomic_run (gdb_scanner_start p buf) rs d \<longleftrightarrow> (\<exists>t. traced_run (gdb_scanner_start p buf) t0 rs d t)) \<and>
    (\<forall>rs d t. traced_run (gdb_scanner_start p buf) t0 rs d t \<longrightarrow>
       trace_enabled t \<and> trace_flags t = flags \<and> location_stack_top t = - 1 \<and>
       (\<forall>i. i < 0 \<or> 1 < i \<longrightarrow> location_stack t i = storage i) \<and>
       prefix (trace_output t0) (trace_output t) \<and>
       (\<exists>n. cycle_count (gdb_arm (pd_gdb d)) = of_nat n \<and>
          map ev_cycle (filter is_fetch (trace_output t)) =
            (if bit flags flag_MEMORY then map of_nat [1..<Suc n] else [])))"
proof -
  let ?t = "trace_add flags (initial_trace storage)" and ?d0 = "gdb_scanner_start p buf"
  let ?p = "\<lparr>cycle_count = cycles, arm_reg = regs, arm_mem = main_memory heap\<rparr>"
  have t0: "snd (run_on (traced_exception 1) ?p ?t) = t0" and p: "p = main_processor heap regs cycles"
    using assms by (auto simp: traced_create_run main_processor_def arm_create_def Let_def)
  have t: "trace_enabled ?t" "trace_flags ?t = flags" "location_stack_top ?t = - 1" "location_stack ?t = storage"
    "fetch_log ?t = []"
    by (simp_all add: trace_add_def initial_trace_def fetch_log_def)
  note frame = transparent_frame [OF exception_quiet(1) t0, unfolded t]
  have log: "fetch_log t0 = []" using quiet_log [OF exception_quiet(1), of 1 ?p ?t] t(5) by (simp add: t0)
  have c: "cycle_count p = 0" by (simp add: p main_processor_eq)
  have ticks: "ticks 0 n = map of_nat [1..<Suc n]" for n
    by (simp add: ticks_def map_Suc_upt [symmetric] comp_def del: upt_Suc)
  have session: "trace_enabled t \<and> trace_flags t = flags \<and> location_stack_top t = - 1 \<and>
       (\<forall>i. i < 0 \<or> 1 < i \<longrightarrow> location_stack t i = storage i) \<and> prefix (trace_output t0) (trace_output t) \<and>
       (\<exists>n. cycle_count (gdb_arm (pd_gdb d)) = of_nat n \<and>
          fetch_log t = (if bit flags flag_MEMORY then map of_nat [1..<Suc n] else []))"
    if "traced_run ?d0 t0 rs d t" for rs d t
  proof -
    have l: "logs p t0 (gdb_arm (pd_gdb d)) t"
      using traced_run_atomic [OF that] by (simp add: gdb_scanner_start_def gdb_init_data_def)
    have e: "trace_enabled t0" using frame(1) t(1) by simp
    from l [unfolded logs_def log c frame(2)] e have "\<exists>n. cycle_count (gdb_arm (pd_gdb d)) = of_nat n \<and>
        fetch_log t = (if bit flags flag_MEMORY then ticks 0 n else [])"
      by simp
    with l e frame(2-4) show ?thesis unfolding ticks by (simp add: logs_def)
  qed
  moreover have "atomic_run ?d0 rs d \<longleftrightarrow> (\<exists>t. traced_run ?d0 t0 rs d t)" for rs d
    using traced_run_atomic atomic_run_traced by blast
  ultimately show ?thesis using p unfolding fetch_log_def by simp
qed

theorem traced_session_faithful_witness:
  "\<exists>p t0 d t n. traced_create True (\<lambda>_. 0) 9 (main_memory (\<lambda>_. 0)) (trace_add 1 (initial_trace (\<lambda>_. ([], 0)))) = (Some p, t0) \<and>
     traced_run (gdb_scanner_start p []) t0 [Token Ack, Irq_byte 7] d t \<and>
     location_stack_top t = - 1 \<and> cycle_count (gdb_arm (pd_gdb d)) = of_nat n \<and>
     map ev_cycle (filter is_fetch (trace_output t)) = map of_nat [1..<Suc n]"
proof -
  let ?t = "trace_add 1 (initial_trace (\<lambda>_. ([], 0)))"
  obtain p t0 where c: "traced_create True (\<lambda>_. 0) 9 (main_memory (\<lambda>_. 0)) ?t = (Some p, t0)"
    by (simp add: traced_create_run arm_create_def Let_def)
  let ?d = "gdb_scanner_start p []"
  have "atomic_run ?d ([] @ [Token Ack]) ?d"
    by (rule atomic_token [OF atomic_start, of "\<lambda>_. x86_env 0"])
      (simp add: scanner_action_def handle_error_def gdb_scanner_start_def)
  then have "atomic_run ?d [Token Ack, Irq_byte 7] (irq_action ?d 7)" using atomic_irq by fastforce
  then obtain t where run: "traced_run ?d t0 [Token Ack, Irq_byte 7] (irq_action ?d 7) t"
    using traced_session_faithful [OF c, of "[]"] by blast
  with traced_session_faithful [OF c, of "[]"] obtain n where "location_stack_top t = - 1"
    "cycle_count (gdb_arm (pd_gdb (irq_action ?d 7))) = of_nat n"
    "map ev_cycle (filter is_fetch (trace_output t)) = (if bit (1 :: u32) flag_MEMORY then map of_nat [1..<Suc n] else [])"
    by blast
  moreover have "bit (1 :: u32) flag_MEMORY" by simp
  ultimately show ?thesis using c run by (metis (no_types, lifting))
qed

end
