(* ===== verification/Trace_Text.thy ===== *)
theory Trace_Text
  imports Arm_Print C_Strings
begin

text \<open>
  The text of the trace file (\<^verbatim>\<open>trace.c\<close>), in both formats: the tables of names and the \<^verbatim>\<open>fprintf\<close>
  calls that turn the events of \<open>Arm_Trace\<close> into lines. The theory ends with a reader of the file, against
  which the lines are checked: whatever the calls wrote can be read back.
\<close>

section \<open>Definitions\<close>

text \<open>The tables; \<open>arm\<close> says whether \<^verbatim>\<open>ARM_TRACE_FORMAT\<close> is defined.\<close>

definition trace_memory_seq :: "bool \<Rightarrow> bool \<Rightarrow> string" where
  "trace_memory_seq arm seq = (if arm then if seq then ''S'' else ''N'' else [])"

definition trace_memory_cause :: "bool \<Rightarrow> cause \<Rightarrow> string" where
  "trace_memory_cause arm c =
     (case c of OTHER_ACCESS \<Rightarrow> (if arm then ''_'' else []) | OPCODE_FETCH \<Rightarrow> (if arm then ''O'' else '', fetch''))"

definition trace_access_type :: "bool \<Rightarrow> access \<Rightarrow> string" where
  "trace_access_type arm a =
     (case a of WRITE \<Rightarrow> (if arm then ''W'' else ''write'') | READ \<Rightarrow> (if arm then ''R'' else ''read''))"

definition location_text :: "location option \<Rightarrow> string" where
  "location_text loc = (case loc of None \<Rightarrow> [] | Some (file, line) \<Rightarrow> file @ '', '' @ print_int line @ '': '')"

text \<open>The array \<^verbatim>\<open>mode_name\<close> of \<^verbatim>\<open>trace_register\<close>; a null pointer is printed as \<^verbatim>\<open>(null)\<close>.\<close>

definition mode_suffix :: "string option \<Rightarrow> string" where
  "mode_suffix m = (case m of None \<Rightarrow> [] | Some name \<Rightarrow> ''_'' @ name)"

definition printed_name :: "string option \<Rightarrow> string" where
  "printed_name s = (case s of None \<Rightarrow> ''(null)'' | Some name \<Rightarrow> name)"

text \<open>The line of an event. The cycle number is unsigned and printed as a signed one.\<close>

fun event_line :: "bool \<Rightarrow> trace_event \<Rightarrow> string" where
  "event_line arm (Memory_event loc cycle seq kind sz cause address value) =
     (if arm then
        ''M'' @ trace_memory_seq arm seq @ trace_access_type arm kind @ print_int (int sz) @
        trace_memory_cause arm cause @ ''__ '' @ print_hex8 address @ '' '' @ print_hex8 value @ [CHR 0x0A]
      else
        location_text loc @ ''Cycle '' @ print_int (sint cycle) @ '', Mem '' @ trace_memory_seq arm seq @
        trace_access_type arm kind @ '' ('' @ print_int (int sz) @ '' bytes'' @ trace_memory_cause arm cause @
        '') addr: '' @ print_hex8 address @ '', val: '' @ print_hex8 value @ [CHR 0x0A])"
| "event_line arm (Register_event loc cycle kind reg mode value) =
     (if arm then
        ''R'' @ trace_access_type arm kind @ '' '' @ printed_name reg @ mode_suffix mode @ '' '' @ print_hex8 value @ [CHR 0x0A]
      else
        location_text loc @ ''Cycle '' @ print_int (sint cycle) @ '', Register '' @ trace_access_type arm kind @ '', '' @
        printed_name reg @ mode_suffix mode @ '', val: '' @ print_hex8 value @ [CHR 0x0A])"
| "event_line arm (Text_event s) = s"

definition trace_text :: "bool \<Rightarrow> trace_state \<Rightarrow> string" where
  "trace_text arm t = concat (map (event_line arm) (trace_output t))"

section \<open>A reader of the trace\<close>

fun split_at :: "char \<Rightarrow> string \<Rightarrow> string list" where
  "split_at c [] = [[]]"
| "split_at c (x # xs) =
     (if x = c then [] # split_at c xs
      else case split_at c xs of [] \<Rightarrow> [[x]] | w # ws \<Rightarrow> (x # w) # ws)"

definition read_nat :: "string \<Rightarrow> nat" where
  "read_nat s = foldl (\<lambda>n c. 10 * n + (of_char c - 48)) 0 s"

definition read_int :: "string \<Rightarrow> int" where
  "read_int s = (if s \<noteq> [] \<and> hd s = CHR ''-'' then - int (read_nat (tl s)) else int (read_nat s))"

definition hex_value :: "char \<Rightarrow> nat" where
  "hex_value c = length (takeWhile (\<lambda>x. x \<noteq> c) ''0123456789ABCDEF'')"

definition read_hex :: "string \<Rightarrow> u32" where
  "read_hex s = of_nat (foldl (\<lambda>n c. 16 * n + hex_value c) 0 s)"

definition read_access :: "char \<Rightarrow> access" where
  "read_access c = (if c = CHR ''w'' \<or> c = CHR ''W'' then WRITE else READ)"

definition read_name :: "string \<Rightarrow> string option \<times> string option" where
  "read_name s =
     (let name = takeWhile (\<lambda>c. c \<noteq> CHR ''_'') s; rest = dropWhile (\<lambda>c. c \<noteq> CHR ''_'') s
      in (Some name, if rest = [] then None else Some (tl rest)))"

text \<open>The words of a line after its location.\<close>

definition read_memory_words :: "location option \<Rightarrow> u32 \<Rightarrow> string list \<Rightarrow> trace_event option" where
  "read_memory_words loc cycle ws =
     (case ws of
        kind # sz # bytes # rest \<Rightarrow>
          (let (cause, rest) = (if bytes = ''bytes,'' then (OPCODE_FETCH, tl rest) else (OTHER_ACCESS, rest))
           in case rest of
                [_, address, _, value] \<Rightarrow>
                  Some (Memory_event loc cycle False (read_access (hd kind)) (read_nat (tl sz)) cause
                    (read_hex (butlast address)) (read_hex value))
              | _ \<Rightarrow> None)
      | _ \<Rightarrow> None)"

definition read_register_words :: "location option \<Rightarrow> u32 \<Rightarrow> string list \<Rightarrow> trace_event option" where
  "read_register_words loc cycle ws =
     (case ws of
        [kind, name, _, value] \<Rightarrow>
          (let (reg, mode) = read_name (butlast name)
           in Some (Register_event loc cycle (read_access (hd kind)) reg mode (read_hex value)))
      | _ \<Rightarrow> None)"

definition read_body :: "location option \<Rightarrow> string list \<Rightarrow> trace_event option" where
  "read_body loc ws =
     (case ws of
        _ # n # what # rest \<Rightarrow>
          (let cycle = word_of_int (read_int (butlast n))
           in if what = ''Mem'' then read_memory_words loc cycle rest else read_register_words loc cycle rest)
      | _ \<Rightarrow> None)"

definition read_plain_words :: "string list \<Rightarrow> trace_event option" where
  "read_plain_words ws =
     (case ws of
        file # line # rest \<Rightarrow>
          (if file = ''Cycle'' then read_body None ws
           else read_body (Some (butlast file, read_int (butlast line))) rest)
      | _ \<Rightarrow> None)"

definition read_arm_words :: "string list \<Rightarrow> trace_event option" where
  "read_arm_words ws =
     (case ws of
        [code, x, value] \<Rightarrow>
          (if hd code = CHR ''M'' then
             Some (Memory_event None 0 (code ! 1 = CHR ''S'') (read_access (code ! 2)) (read_nat [code ! 3])
               (if code ! 4 = CHR ''O'' then OPCODE_FETCH else OTHER_ACCESS) (read_hex x) (read_hex value))
           else let (reg, mode) = read_name x
                in Some (Register_event None 0 (read_access (code ! 1)) reg mode (read_hex value)))
      | _ \<Rightarrow> None)"

definition read_trace :: "bool \<Rightarrow> string \<Rightarrow> trace_event option list" where
  "read_trace arm s =
     map (\<lambda>line. (if arm then read_arm_words else read_plain_words) (split_at CHR '' '' line))
       (butlast (split_at CHR 0x0A s))"

text \<open>What a format shows of an event.\<close>

fun visible :: "bool \<Rightarrow> trace_event \<Rightarrow> trace_event" where
  "visible arm (Memory_event loc cycle seq kind sz cause address value) =
     (if arm then Memory_event None 0 seq kind sz cause address value
      else Memory_event loc cycle False kind sz cause address value)"
| "visible arm (Register_event loc cycle kind reg mode value) =
     (if arm then Register_event None 0 kind reg mode value else Register_event loc cycle kind reg mode value)"
| "visible arm (Text_event s) = Text_event s"

definition plain_word :: "string \<Rightarrow> bool" where
  "plain_word s \<longleftrightarrow> CHR '' '' \<notin> set s \<and> CHR 0x0A \<notin> set s"

definition plain_location :: "location option \<Rightarrow> bool" where
  "plain_location loc = (case loc of None \<Rightarrow> True | Some (file, line) \<Rightarrow> plain_word file)"

fun printable :: "trace_event \<Rightarrow> bool" where
  "printable (Memory_event loc cycle seq kind sz cause address value) \<longleftrightarrow> plain_location loc \<and> sz < 10"
| "printable (Register_event loc cycle kind reg mode value) \<longleftrightarrow>
     plain_location loc \<and> (case reg of None \<Rightarrow> False | Some name \<Rightarrow> plain_word name \<and> CHR ''_'' \<notin> set name) \<and>
     (case mode of None \<Rightarrow> True | Some name \<Rightarrow> plain_word name)"
| "printable (Text_event s) \<longleftrightarrow> False"

lemma plain_word_simps [simp]:
  "plain_word []" "plain_word (c # w) \<longleftrightarrow> c \<noteq> CHR '' '' \<and> c \<noteq> CHR 0x0A \<and> plain_word w"
  "plain_word (v @ w) \<longleftrightarrow> plain_word v \<and> plain_word w"
  by (auto simp: plain_word_def)

section \<open>Numbers\<close>

lemma read_print_nat [simp]: "read_nat (print_nat n) = n"
proof (induction n rule: print_nat.induct)
  case (1 n)
  then show ?case unfolding print_nat.simps [of n]
    by (auto simp: read_nat_def)
qed

lemma read_print_int [simp]: "read_int (print_int i) = i"
proof -
  have "hd (print_nat n) \<noteq> CHR ''-''" for n
    using print_nat_digits [OF hd_in_set, of n] by auto
  then show ?thesis by (simp add: read_int_def print_int_def)
qed

lemma print_int_plain [simp]: "plain_word (print_int i)"
proof -
  have "plain_word (print_nat n)" for n
    using print_nat_digits [of "CHR '' ''" n] print_nat_digits [of "CHR 0x0A" n] by (auto simp: plain_word_def)
  then show ?thesis by (simp add: print_int_def plain_word_def)
qed

lemma takeWhile_nth_distinct: "distinct xs \<Longrightarrow> n < length xs \<Longrightarrow> length (takeWhile (\<lambda>x. x \<noteq> xs ! n) xs) = n"
  by (induction xs arbitrary: n) (auto simp: nth_Cons split: nat.split)

lemma hex_value_char: "hex_value (hex_char d) = unat (take_bit 4 d)"
proof -
  have "unat (take_bit 4 d) < length ''0123456789ABCDEF''" by (simp add: take_bit_eq_mod unat_mod)
  then show ?thesis unfolding hex_value_def hex_char_def by (intro takeWhile_nth_distinct) simp_all
qed


lemma read_hex_digits:
  "foldl (\<lambda>n c. 16 * n + hex_value c) a (map (\<lambda>k. hex_char (drop_bit (4 * k) v)) (rev [0..<n])) =
     a * 16 ^ n + unat v mod 16 ^ n"
proof (induction n arbitrary: a)
  case (Suc n)
  have digit: "hex_value (hex_char (drop_bit (4 * n) v)) = unat v div 16 ^ n mod 16"
  proof -
    have "take_bit 32 (unat v) = unat v" using unsigned_less [where 'a = nat, of v] by (simp add: take_bit_nat_eq_self)
    then have "unat (take_bit 4 (drop_bit (4 * n) v)) = take_bit 4 (drop_bit (4 * n) (unat v))"
      by (simp only: unsigned_take_bit_eq unsigned_drop_bit_eq) simp
    then show ?thesis by (simp only: hex_value_char) (simp add: take_bit_eq_mod drop_bit_eq_div power_mult)
  qed
  have "unat v mod (16 * 16 ^ n) = 16 ^ n * (unat v div 16 ^ n mod 16) + unat v mod 16 ^ n"
    using mod_mult2_eq [of "unat v" "16 ^ n" 16] by (simp add: mult.commute)
  then show ?case by (simp add: Suc digit) (simp add: algebra_simps)
qed simp

lemma read_print_hex8 [simp]: "read_hex (print_hex8 v) = v"
proof -
  have "unat v < 16 ^ 8" using unsigned_less [where 'a = nat, of v] by simp
  then show ?thesis by (simp only: read_hex_def print_hex8_def read_hex_digits) simp
qed

lemma print_hex8_plain [simp]: "plain_word (print_hex8 v)"
proof -
  have "hex_char d \<in> set ''0123456789ABCDEF''" for d :: u32
    unfolding hex_char_def by (rule nth_mem) (simp add: take_bit_eq_mod unat_mod)
  moreover have "plain_word ''0123456789ABCDEF''" by (simp add: plain_word_def)
  ultimately show ?thesis unfolding plain_word_def print_hex8_def by (smt (verit) image_iff list.set_map)
qed

section \<open>Words and lines\<close>

lemma split_at_ne [simp]: "split_at c s \<noteq> []"
  by (cases s) (auto split: list.split)

lemma split_at_word: "c \<notin> set w \<Longrightarrow> split_at c w = [w]"
  by (induction w) auto

lemma split_at_cons: "c \<notin> set w \<Longrightarrow> split_at c (w @ c # s) = w # split_at c s"
  by (induction w) auto

lemma split_at_lines:
  "(\<And>x. x \<in> set xs \<Longrightarrow> c \<notin> set (f x)) \<Longrightarrow> split_at c (concat (map (\<lambda>x. f x @ [c]) xs)) = map f xs @ [[]]"
  by (induction xs) (simp_all add: split_at_cons)


fun unwords :: "string list \<Rightarrow> string" where
  "unwords [] = []"
| "unwords [w] = w"
| "unwords (w # ws) = w @ CHR '' '' # unwords ws"

lemma split_unwords: "ws \<noteq> [] \<Longrightarrow> list_all plain_word ws \<Longrightarrow> split_at CHR '' '' (unwords ws) = ws"
  by (induction ws rule: unwords.induct) (simp_all add: split_at_word split_at_cons plain_word_def)

lemma unwords_no_newline: "list_all plain_word ws \<Longrightarrow> CHR 0x0A \<notin> set (unwords ws)"
  by (induction ws rule: unwords.induct) (simp_all add: plain_word_def)

text \<open>The words of the line of an event.\<close>

definition location_words :: "location option \<Rightarrow> string list" where
  "location_words loc = (case loc of None \<Rightarrow> [] | Some (file, line) \<Rightarrow> [file @ '','', print_int line @ '':''])"

fun event_words :: "bool \<Rightarrow> trace_event \<Rightarrow> string list" where
  "event_words arm (Memory_event loc cycle seq kind sz cause address value) =
     (if arm then
        [''M'' @ trace_memory_seq arm seq @ trace_access_type arm kind @ print_int (int sz) @ trace_memory_cause arm cause @ ''__'',
         print_hex8 address, print_hex8 value]
      else
        location_words loc @ [''Cycle'', print_int (sint cycle) @ '','', ''Mem'', trace_access_type arm kind, ''('' @ print_int (int sz)] @
        (case cause of OTHER_ACCESS \<Rightarrow> [''bytes)''] | OPCODE_FETCH \<Rightarrow> [''bytes,'', ''fetch)'']) @
        [''addr:'', print_hex8 address @ '','', ''val:'', print_hex8 value])"
| "event_words arm (Register_event loc cycle kind reg mode value) =
     (if arm then [''R'' @ trace_access_type arm kind, printed_name reg @ mode_suffix mode, print_hex8 value]
      else
        location_words loc @ [''Cycle'', print_int (sint cycle) @ '','', ''Register'', trace_access_type arm kind @ '','',
          printed_name reg @ mode_suffix mode @ '','', ''val:'', print_hex8 value])"
| "event_words arm (Text_event s) = []"

lemma unwords_append: "ws \<noteq> [] \<Longrightarrow> us \<noteq> [] \<Longrightarrow> unwords (ws @ us) = unwords ws @ CHR '' '' # unwords us"
  by (induction ws rule: unwords.induct) (simp_all add: neq_Nil_conv, auto simp: neq_Nil_conv)

lemma unwords_location: "us \<noteq> [] \<Longrightarrow> unwords (location_words loc @ us) = location_text loc @ unwords us"
  by (auto simp: location_words_def location_text_def neq_Nil_conv split: option.split)

lemma event_line_words: "printable e \<Longrightarrow> event_line arm e = unwords (event_words arm e) @ [CHR 0x0A]"
  by (cases e) (auto simp: unwords_location trace_memory_seq_def trace_memory_cause_def split: cause.split)

lemma plain_words: "printable e \<Longrightarrow> list_all plain_word (event_words arm e)"
  by (cases e) (auto simp: location_words_def plain_location_def mode_suffix_def printed_name_def trace_memory_seq_def
      trace_memory_cause_def trace_access_type_def split: cause.split access.split option.splits)

section \<open>Reading a line\<close>

lemma takeWhile_name: "c \<notin> set v \<Longrightarrow> takeWhile (\<lambda>x. x \<noteq> c) (v @ c # w) = v" "c \<notin> set v \<Longrightarrow> dropWhile (\<lambda>x. x \<noteq> c) (v @ c # w) = c # w"
  "c \<notin> set v \<Longrightarrow> takeWhile (\<lambda>x. x \<noteq> c) v = v" "c \<notin> set v \<Longrightarrow> dropWhile (\<lambda>x. x \<noteq> c) v = []"
  by (induction v) auto

lemma read_printed_name:
  "CHR ''_'' \<notin> set name \<Longrightarrow> read_name (name @ mode_suffix mode) = (Some name, mode)"
  by (cases mode) (simp_all add: read_name_def mode_suffix_def takeWhile_name Let_def)

lemma read_printed_access [simp]: "read_access (hd (trace_access_type arm kind)) = kind" "trace_access_type arm kind \<noteq> []"
  "hd (trace_access_type arm kind @ s) = hd (trace_access_type arm kind)"
  by (cases kind; simp add: read_access_def trace_access_type_def)+

lemma print_digit: "sz < 10 \<Longrightarrow> print_int (int sz) = [char_of (48 + sz)]" "read_nat (print_int (int n)) = n"
  by (simp_all add: print_int_def print_nat.simps [of sz])

lemma read_plain_event:
  assumes "printable e"
  shows "read_plain_words (event_words False e) = Some (visible False e)"
proof -
  have body: "read_plain_words (location_words loc @ ''Cycle'' # ws) = read_body loc (''Cycle'' # ws)" if "ws \<noteq> []" for loc ws
    using that by (cases loc) (auto simp: location_words_def read_plain_words_def neq_Nil_conv butlast_append
        append_eq_Cons_conv)
  show ?thesis using assms
    by (cases e) (auto simp: body read_body_def read_memory_words_def read_register_words_def print_digit(2)
        read_printed_name printed_name_def butlast_append simp flip: append_assoc split: cause.split option.splits)
qed

lemma read_arm_event: "printable e \<Longrightarrow> read_arm_words (event_words True e) = Some (visible True e)"
  by (cases e) (auto simp: read_arm_words_def print_digit read_printed_name printed_name_def trace_memory_seq_def
      trace_memory_cause_def trace_access_type_def read_access_def read_nat_def split: cause.split access.split option.splits)


section \<open>Traces written by calls\<close>

text \<open>
  The traces that calls of the functions of \<^verbatim>\<open>trace.c\<close> can write. The file names are those of \<^verbatim>\<open>__FILE__\<close>; positions are
  nested within the 128 entries of the stack and left only after they were entered.
\<close>

inductive trace_written :: "(int \<Rightarrow> location) \<Rightarrow> trace_state \<Rightarrow> bool" for storage where
  written_start: "trace_written storage (initial_trace storage)"
| written_enter: "trace_written storage t \<Longrightarrow> plain_word file \<Longrightarrow> location_stack_top t < 127 \<Longrightarrow>
    trace_written storage (trace_start_location file line t)"
| written_leave: "trace_written storage t \<Longrightarrow> 0 \<le> location_stack_top t \<Longrightarrow> trace_written storage (trace_end_location t)"
| written_memory: "trace_written storage t \<Longrightarrow> sz \<in> {1, 2, 4} \<Longrightarrow>
    trace_written storage (trace_memory cycle kind sz cause address value t)"
| written_register: "trace_written storage t \<Longrightarrow> reg < 18 \<Longrightarrow> mode < 32 \<Longrightarrow>
    trace_written storage (trace_register cycle kind reg mode value t)"
| written_state: "trace_written storage t \<Longrightarrow> trace_written storage (trace_arm_state p t)"
| written_disable: "trace_written storage t \<Longrightarrow> trace_written storage (trace_disable t)"
| written_enable: "trace_written storage t \<Longrightarrow> trace_written storage (trace_enable t)"
| written_add: "trace_written storage t \<Longrightarrow> trace_written storage (trace_add flags t)"

definition plain_stack :: "trace_state \<Rightarrow> bool" where
  "plain_stack t \<longleftrightarrow> (\<forall>i. 0 \<le> i \<and> i \<le> location_stack_top t \<longrightarrow> plain_word (fst (location_stack t i)))"

lemma plain_stack_location: "plain_stack t \<Longrightarrow> plain_location (trace_print_location t)"
  by (auto simp: plain_stack_def plain_location_def trace_print_location_def split: prod.split)

lemma printable_register_name:
  "reg < 18 \<Longrightarrow> \<exists>name. name_of (arm_get_register_name reg) = Some name \<and> plain_word name \<and> CHR ''_'' \<notin> set name"
proof -
  have all: "list_all (\<lambda>x. case x of None \<Rightarrow> False | Some name \<Rightarrow> plain_word name \<and> CHR ''_'' \<notin> set name) arm_register_names"
    by (simp add: arm_register_names_def)
  assume "reg < 18"
  then have "unat reg < 18" by (simp add: word_less_nat_alt)
  with all show ?thesis
    by (auto simp: arm_get_register_name_def table_entry_def name_of_def list_all_length split: option.splits)
qed

lemma printable_mode_name:
  "mode < 32 \<Longrightarrow> (case name_of (arm_get_mode_name mode) of None \<Rightarrow> True | Some name \<Rightarrow> plain_word name)"
proof -
  have all: "list_all (\<lambda>x. case x of None \<Rightarrow> True | Some name \<Rightarrow> plain_word name) arm_mode_names"
    by (simp add: arm_mode_names_def)
  assume "mode < 32"
  then have "unat mode < 32" by (simp add: word_less_nat_alt)
  with all show ?thesis
    by (auto simp: arm_get_mode_name_def table_entry_def name_of_def list_all_length split: option.splits)
qed

text \<open>Flags are only added, so a trace without the state flag has no state report.\<close>

lemma trace_written_printable:
  "trace_written storage t \<Longrightarrow> plain_stack t \<and> (\<not> bit (trace_flags t) flag_STATE \<longrightarrow> list_all printable (trace_output t))"
proof (induction rule: trace_written.induct)
  case (written_memory t sz cycle kind cause address val)
  then have "plain_location (trace_print_location (t\<lparr>last_address := address\<rparr>))"
    by (intro plain_stack_location) (simp add: plain_stack_def)
  with written_memory show ?case by (auto simp: trace_memory_def plain_stack_def Let_def)
next
  case (written_register t reg mode cycle kind val)
  with printable_register_name [of reg] printable_mode_name [of mode] plain_stack_location [of t] show ?case
    by (auto simp: trace_register_def plain_stack_def)
next
  case (written_state t p)
  with trace_extends_print [of t p] show ?case
    by (auto simp: trace_arm_state_def trace_extends_def plain_stack_def)
qed (auto simp: plain_stack_def initial_trace_def trace_start_location_def trace_end_location_def trace_disable_def
    trace_enable_def trace_add_def bit_or_iff)

text \<open>
  The state report has no newline at its end: the line that follows it in the file is joined to the block of the system mode. With
  \<^verbatim>\<open>--trace-state\<close> the file is thus not a sequence of lines of events.
\<close>

lemma state_text_unterminated: "\<exists>s v. shown (arm_print_state p t) = s @ print_hex8 v" "last (print_hex8 v) \<noteq> CHR 0x0A"
proof -
  have r: "[0..<16] = [0..<15] @ [15]" by code_simp
  have m: "map of_nat [0..<32] = map of_nat [0..<31] @ [SYS]" by code_simp
  have "mode_text p SYS = concat (map (\<lambda>reg. register_text reg (register_value p SYS reg)) [0..<15]) @
      register_text 15 (register_value p SYS 15)"
    by (simp add: mode_text_def arm_get_mode_name_def table_entry_def name_of_def arm_mode_names_def r)
  moreover have "\<exists>s. register_text 15 v = s @ print_hex8 v" for v
    unfolding register_text_def print_register_def by (metis append.assoc)
  ultimately obtain s w where "mode_text p SYS = s @ print_hex8 w" by (metis append.assoc)
  then have "shown (arm_print_state p t) = (shown t @ concat (map (mode_text p) (map of_nat [0..<31])) @ s) @ print_hex8 w"
    unfolding shown_print_state m by simp
  then show "\<exists>s v. shown (arm_print_state p t) = s @ print_hex8 v" by blast
  have "print_hex8 v \<noteq> []" by (metis length_print_hex8 list.size(3) zero_neq_numeral)
  then show "last (print_hex8 v) \<noteq> CHR 0x0A" using print_hex8_plain [of v] by (metis last_in_set plain_word_def)
qed

section \<open>Properties\<close>

text \<open>
  C19: the trace can be read back. From the text that any sequence of calls of \<^verbatim>\<open>trace.c\<close> writes, in either format, without
  the option \<^verbatim>\<open>--trace-state\<close> (whose reports are no lines of events) and with at most 128 nested positions, the
  reader recovers every event in order, with all that the format shows of it: in the default format
  everything but the sequential flag, under \<^verbatim>\<open>ARM_TRACE_FORMAT\<close> everything but position and cycle.
\<close>

theorem trace_text_roundtrip:
  assumes "trace_written storage t" and "\<not> bit (trace_flags t) flag_STATE"
  shows "read_trace arm (trace_text arm t) = map (\<lambda>e. Some (visible arm e)) (trace_output t)"
proof -
  have p: "\<And>e. e \<in> set (trace_output t) \<Longrightarrow> printable e"
    using trace_written_printable [OF assms(1)] assms(2) by (simp add: list_all_iff)
  then have "trace_text arm t = concat (map (\<lambda>e. unwords (event_words arm e) @ [CHR 0x0A]) (trace_output t))"
    by (simp add: trace_text_def event_line_words cong: map_cong)
  moreover have "event_words arm e \<noteq> []" if "printable e" for e using that by (cases e) auto
  ultimately show ?thesis using p
    by (auto simp: read_trace_def split_at_lines unwords_no_newline plain_words split_unwords read_plain_event read_arm_event)
qed

theorem trace_text_roundtrip_witness:
  "let t = trace_register 5 READ 15 0x13 8 (trace_memory 4 READ 4 OPCODE_FETCH 0x20 0xE3A00003
             (trace_start_location ''arm_instruction.c'' 56 (trace_add 0xB (initial_trace (\<lambda>_. ([], 0))))))
   in trace_text False t = ''arm_instruction.c, 56: Cycle 4, Mem read (4 bytes, fetch) addr: 00000020, val: E3A00003'' @ [CHR 0x0A] @
        ''arm_instruction.c, 56: Cycle 5, Register read, PC_SVC, val: 00000008'' @ [CHR 0x0A] \<and>
      read_trace False (trace_text False t) =
        [Some (Memory_event (Some (''arm_instruction.c'', 56)) 4 False READ 4 OPCODE_FETCH 0x20 0xE3A00003),
         Some (Register_event (Some (''arm_instruction.c'', 56)) 5 READ (Some ''PC'') (Some ''SVC'') 8)]"
proof -
  let ?t = "trace_register 5 READ 15 0x13 8 (trace_memory 4 READ 4 OPCODE_FETCH 0x20 0xE3A00003
             (trace_start_location ''arm_instruction.c'' 56 (trace_add 0xB (initial_trace (\<lambda>_. ([], 0))))))"
  have "trace_written (\<lambda>_. ([], 0)) ?t"
    by (intro written_register written_memory written_enter written_add written_start)
      (simp_all add: initial_trace_def trace_add_def)
  moreover have "\<not> bit (trace_flags ?t) flag_STATE" by code_simp
  ultimately have r: "read_trace False (trace_text False ?t) = map (\<lambda>e. Some (visible False e)) (trace_output ?t)"
    by (rule trace_text_roundtrip)
  have "trace_output ?t = [Memory_event (Some (''arm_instruction.c'', 56)) 4 False READ 4 OPCODE_FETCH 0x20 0xE3A00003,
      Register_event (Some (''arm_instruction.c'', 56)) 5 READ (Some ''PC'') (Some ''SVC'') 8]"
    by code_simp
  moreover have "trace_text False ?t = ''arm_instruction.c, 56: Cycle 4, Mem read (4 bytes, fetch) addr: 00000020, val: E3A00003'' @ [CHR 0x0A] @
        ''arm_instruction.c, 56: Cycle 5, Register read, PC_SVC, val: 00000008'' @ [CHR 0x0A]"
    by code_simp
  ultimately show ?thesis using r by (simp add: Let_def)
qed

end
