(* ===== verification/Command_Line.thy ===== *)
theory Command_Line
  imports Simulator Trace_Text "HOL-Library.Sublist"
begin

text \<open>
  The command line of the simulator (\<^verbatim>\<open>main\<close> and \<^verbatim>\<open>usage\<close> of \<^verbatim>\<open>arm_simulator.c\<close>): the two tables of options, the
  parser of the C library that reads the arguments by them, and the way from the arguments to the configuration that
  \<open>Simulator\<close> defines.
\<close>

section \<open>Definitions\<close>

text \<open>What \<^verbatim>\<open>usage\<close> writes to the standard error: the synopsis and the explanation of the options.\<close>

definition usage_synopsis :: "string \<Rightarrow> string" where
  "usage_synopsis name =
     ''Usage:'' @ [CHR 0x0A] @ name @
     '' [ --help ] [ --gdb-port port ] [ --irq-port port ] '' @
     ''[ --trace-file file ] [ --trace-registers ] [ --trace-memory ] '' @
     ''[ --trace-state ] [ --trace-position ] [ --debug filename ]'' @ [CHR 0x0A, CHR 0x0A]"

definition usage :: "string \<Rightarrow> string" where
  "usage name = usage_synopsis name @
     ''Start an ARMv5 instruction set simulator that acts as a gdb server '' @
     ''and can receive interrupts. It is possible to specify on which ports '' @
     ''the simulator listen to gdb client or irq sending program '' @
     ''connections. Trace options have the following behavior:'' @ [CHR 0x0A] @
     ''- trace file: file into which trace information is stored (default is'' @
     '' stdout)'' @ [CHR 0x0A] @
     ''- trace registers: outputs informations about each access to'' @
     '' registers'' @ [CHR 0x0A] @
     ''- trace memory: outputs informations about each access to memory'' @ [CHR 0x0A] @
     ''- trace state: outputs the processor state after each instruction'' @ [CHR 0x0A] @
     ''- trace position: for each traced access, outputs the file and line'' @
     '' at which the access has been performed'' @ [CHR 0x0A] @
     ''The debug switch enable selective reporting of debug messages on a '' @
     ''per source file basis'' @ [CHR 0x0A]"

text \<open>The table \<^verbatim>\<open>longopts\<close>, with \<open>True\<close> for \<^verbatim>\<open>required_argument\<close>, and the string of short options.\<close>

definition longopts :: "(string \<times> bool \<times> char) list" where
  "longopts =
     [(''gdb-port'', True, CHR ''g''), (''irq-port'', True, CHR ''i''), (''trace-file'', True, CHR ''t''),
      (''trace-registers'', False, CHR ''r''), (''trace-memory'', False, CHR ''m''), (''trace-state'', False, CHR ''s''),
      (''trace-position'', False, CHR ''p''), (''help'', False, CHR ''h''), (''debug'', True, CHR ''d'')]"

definition optstring :: string where
  "optstring = ''g:i:ht:rmspd:''"

text \<open>
  \<^verbatim>\<open>getopt_long\<close> of the C library, as the loop of \<^verbatim>\<open>main\<close> calls it: the option characters with their arguments, and
  \<^verbatim>\<open>?\<close> for what is no option. A short option that takes an argument has a colon behind it in the string. A long option may be
  abbreviated as long as only one name starts with it. Arguments that are no options are skipped, and
  two dashes end the options.
\<close>

fun short_kind :: "string \<Rightarrow> char \<Rightarrow> bool option" where
  "short_kind [] c = None"
| "short_kind (x # xs) c =
     (if x = c \<and> c \<noteq> CHR '':'' then Some (xs \<noteq> [] \<and> hd xs = CHR '':'') else short_kind xs c)"

fun short_options :: "string \<Rightarrow> string list \<Rightarrow> (char \<times> string) list \<times> string list" where
  "short_options [] rest = ([], rest)"
| "short_options (c # cs) rest =
     (case short_kind optstring c of
        None \<Rightarrow> (let (os, rest) = short_options cs rest in ((CHR ''?'', []) # os, rest))
      | Some False \<Rightarrow> (let (os, rest) = short_options cs rest in ((c, []) # os, rest))
      | Some True \<Rightarrow>
          (if cs \<noteq> [] then ([(c, cs)], rest)
           else case rest of [] \<Rightarrow> ([(CHR ''?'', [])], []) | arg # rest \<Rightarrow> ([(c, arg)], rest)))"

definition find_long :: "string \<Rightarrow> (bool \<times> char) option" where
  "find_long name =
     (case map_of longopts name of
        Some x \<Rightarrow> Some x
      | None \<Rightarrow> (case filter (\<lambda>(n, x). prefix name n) longopts of [(n, x)] \<Rightarrow> Some x | _ \<Rightarrow> None))"

definition long_option :: "string \<Rightarrow> string list \<Rightarrow> (char \<times> string) \<times> string list" where
  "long_option a rest =
     (let name = takeWhile (\<lambda>c. c \<noteq> CHR ''='') a; value = dropWhile (\<lambda>c. c \<noteq> CHR ''='') a
      in case find_long name of
           None \<Rightarrow> ((CHR ''?'', []), rest)
         | Some (False, c) \<Rightarrow> (if value = [] then (c, []) else (CHR ''?'', []), rest)
         | Some (True, c) \<Rightarrow>
             (if value \<noteq> [] then ((c, tl value), rest)
              else case rest of [] \<Rightarrow> ((CHR ''?'', []), []) | arg # rest \<Rightarrow> ((c, arg), rest)))"

lemma short_options_rest: "length (snd (short_options cs rest)) \<le> length rest"
  by (induction cs rest rule: short_options.induct) (auto simp: Let_def case_prod_beta split: option.split bool.split list.split)

lemma long_option_rest: "length (snd (long_option a rest)) \<le> length rest"
  by (auto simp: long_option_def Let_def split: option.split bool.split list.split)

function getopt_long :: "string list \<Rightarrow> (char \<times> string) list" where
  "getopt_long [] = []"
| "getopt_long (a # args) =
     (if a = ''--'' then []
      else if prefix ''--'' a then fst (long_option (drop 2 a) args) # getopt_long (snd (long_option (drop 2 a) args))
      else if prefix ''-'' a \<and> a \<noteq> ''-'' then
        fst (short_options (tl a) args) @ getopt_long (snd (short_options (tl a) args))
      else getopt_long args)"
  by pat_completeness auto
termination
  by (relation "measure length") (auto simp: less_Suc_eq_le long_option_rest short_options_rest)

definition main_arguments :: "(string \<Rightarrow> bool) \<Rightarrow> string list \<Rightarrow> halt + configuration" where
  "main_arguments can_open args = main_options can_open default_configuration (getopt_long args)"

text \<open>
  The trace as \<^verbatim>\<open>main\<close> sets it up: the stream, which is a null pointer at first, with \<open>None\<close> for the standard output, and the
  state of the trace.
\<close>

definition set_trace_file :: "string option \<Rightarrow> string option option \<times> trace_state \<Rightarrow> string option option \<times> trace_state" where
  "set_trace_file f x = (Some f, snd x)"

definition main_trace :: "(int \<Rightarrow> location) \<Rightarrow> configuration \<Rightarrow> string option option \<times> trace_state" where
  "main_trace storage conf =
     set_trace_file (trace_file conf) (None, trace_add (trace_option_flags conf) (initial_trace storage))"

section \<open>Spellings of an option\<close>

datatype spelling = Short | Short_joined | Long | Long_joined

fun spell :: "spelling \<Rightarrow> string \<times> bool \<times> char \<Rightarrow> string \<Rightarrow> string list" where
  "spell Short (name, required, c) arg = [CHR ''-'', c] # (if required then [arg] else [])"
| "spell Short_joined (name, required, c) arg =
     (if required \<and> arg = [] then [[CHR ''-'', c], arg] else [[CHR ''-'', c] @ arg])"
| "spell Long (name, required, c) arg = (''--'' @ name) # (if required then [arg] else [])"
| "spell Long_joined (name, required, c) arg = [''--'' @ name @ (if required then ''='' @ arg else [])]"

text \<open>The synopsis names every long option.\<close>

lemma usage_lists_options: "list_all (\<lambda>(name, x). sublist (''--'' @ name) (usage_synopsis prog)) longopts"
proof -
  have "usage_synopsis prog = (''Usage:'' @ [CHR 0x0A] @ prog) @ drop 7 (usage_synopsis [])" by (simp add: usage_synopsis_def)
  moreover have "list_all (\<lambda>(name, x). sublist (''--'' @ name) (drop 7 (usage_synopsis []))) longopts" by code_simp
  moreover have "sublist xs ys \<Longrightarrow> sublist xs (zs @ ys)" for xs ys zs :: string
    unfolding sublist_def by (metis append_assoc)
  ultimately show ?thesis by (simp only: list_all_iff split_beta) blast
qed

text \<open>The two tables agree on every option.\<close>

lemma option_tables:
  assumes "(name, required, c) \<in> set longopts"
  shows "find_long name = Some (required, c)" "short_kind optstring c = Some required"
    "CHR ''='' \<notin> set name" "name \<noteq> []" "c \<noteq> CHR ''-''"
proof -
  have "list_all (\<lambda>(name, required, c). find_long name = Some (required, c) \<and> short_kind optstring c = Some required \<and>
      \<not> List.member name CHR ''='' \<and> name \<noteq> [] \<and> c \<noteq> CHR ''-'') longopts"
    by code_simp
  then show "find_long name = Some (required, c)" "short_kind optstring c = Some required"
    "CHR ''='' \<notin> set name" "name \<noteq> []" "c \<noteq> CHR ''-''"
    using assms by (auto simp: list_all_iff)
qed

lemma getopt_step:
  "name \<noteq> [] \<Longrightarrow> getopt_long ((CHR ''-'' # CHR ''-'' # name) # args) =
     fst (long_option name args) # getopt_long (snd (long_option name args))"
  "c \<noteq> CHR ''-'' \<Longrightarrow> getopt_long ((CHR ''-'' # c # cs) # args) =
     fst (short_options (c # cs) args) @ getopt_long (snd (short_options (c # cs) args))"
  by (simp_all add: prefix_def del: short_options.simps)

lemma long_option_exact:
  assumes "find_long name = Some (required, c)" and "CHR ''='' \<notin> set name"
  shows "required \<Longrightarrow> long_option name (arg # args) = ((c, arg), args)"
    "required \<Longrightarrow> long_option (name @ CHR ''='' # arg) args = ((c, arg), args)"
    "\<not> required \<Longrightarrow> long_option name args = ((c, []), args)"
proof -
  have "takeWhile (\<lambda>c. c \<noteq> CHR ''='') (name @ CHR ''='' # arg) = name" "dropWhile (\<lambda>c. c \<noteq> CHR ''='') (name @ CHR ''='' # arg) = CHR ''='' # arg"
    "takeWhile (\<lambda>c. c \<noteq> CHR ''='') name = name" "dropWhile (\<lambda>c. c \<noteq> CHR ''='') name = []"
    using assms(2) by (induction name) auto
  with assms(1) show "required \<Longrightarrow> long_option name (arg # args) = ((c, arg), args)"
    "required \<Longrightarrow> long_option (name @ CHR ''='' # arg) args = ((c, arg), args)"
    "\<not> required \<Longrightarrow> long_option name args = ((c, []), args)"
    by (simp_all only: long_option_def Let_def) (cases required; simp)+
qed

lemma short_option_exact:
  assumes "short_kind optstring c = Some required"
  shows "required \<Longrightarrow> short_options [c] (arg # args) = ([(c, arg)], args)"
    "required \<Longrightarrow> arg \<noteq> [] \<Longrightarrow> short_options (c # arg) args = ([(c, arg)], args)"
    "\<not> required \<Longrightarrow> short_options [c] args = ([(c, [])], args)"
  using assms by (cases required; simp add: Let_def)+

lemma getopt_spell:
  assumes "(name, required, c) \<in> set longopts" and "required \<or> arg = []"
  shows "getopt_long (spell sp (name, required, c) arg @ args) = (c, arg) # getopt_long args"
proof -
  note t = option_tables [OF assms(1)]
  note exact = long_option_exact [OF t(1,3)] short_option_exact [OF t(2)]
  show ?thesis using assms(2) t(4,5)
    by (cases sp; cases required) (auto simp: getopt_step exact simp del: short_options.simps getopt_long.simps)
qed


section \<open>Command lines\<close>

definition entry :: "char \<Rightarrow> string \<times> bool \<times> char" where
  "entry c = hd (filter (\<lambda>(name, required, x). x = c) longopts)"

definition spelled :: "(nat \<Rightarrow> spelling) \<Rightarrow> (char \<times> string) list \<Rightarrow> string list" where
  "spelled sp os = concat (map (\<lambda>(k, c, arg). spell (sp k) (entry c) arg) (enumerate 0 os))"

lemma getopt_enumerate:
  assumes "\<And>c arg. (c, arg) \<in> set os \<Longrightarrow> \<exists>name required. entry c = (name, required, c) \<and>
      (name, required, c) \<in> set longopts \<and> (required \<or> arg = [])"
  shows "getopt_long (concat (map (\<lambda>(k, c, arg). spell (sp k) (entry c) arg) (enumerate n os))) = os"
  using assms
proof (induction os arbitrary: n)
  case (Cons x os)
  obtain c arg where o: "x = (c, arg)" by fastforce
  obtain name required where e: "entry c = (name, required, c)" "(name, required, c) \<in> set longopts" "required \<or> arg = []"
    using Cons.prems [of c arg] o by auto
  show ?case using Cons.IH [of "Suc n"] Cons.prems getopt_spell [OF e(2,3)] by (simp add: o e(1))
qed simp


text \<open>The options that ask for a configuration.\<close>

definition configuration_options ::
  "u16 \<Rightarrow> u16 \<Rightarrow> string option \<Rightarrow> bool \<Rightarrow> bool \<Rightarrow> bool \<Rightarrow> bool \<Rightarrow> string list \<Rightarrow> (char \<times> string) list" where
  "configuration_options gdb irq out r m s p names =
     [(CHR ''g'', print_nat (unat gdb)), (CHR ''i'', print_nat (unat irq))] @
     (case out of None \<Rightarrow> [] | Some f \<Rightarrow> [(CHR ''t'', f)]) @
     (if r then [(CHR ''r'', [])] else []) @ (if m then [(CHR ''m'', [])] else []) @
     (if s then [(CHR ''s'', [])] else []) @ (if p then [(CHR ''p'', [])] else []) @
     map (Pair CHR ''d'') names"

lemma entries:
  "c \<in> set ''gitrmspd'' \<Longrightarrow> \<exists>name. entry c = (name, c \<in> set ''gitd'', c) \<and> (name, c \<in> set ''gitd'', c) \<in> set longopts"
  by (auto simp: entry_def longopts_def)

lemma getopt_spelled:
  "getopt_long (spelled sp (configuration_options gdb irq out r m s p names)) =
     configuration_options gdb irq out r m s p names"
  unfolding spelled_def
proof (rule getopt_enumerate)
  fix c arg
  assume "(c, arg) \<in> set (configuration_options gdb irq out r m s p names)"
  then have "c \<in> set ''gitrmspd''" "c \<in> set ''gitd'' \<or> arg = []"
    by (auto simp: configuration_options_def split: option.splits if_splits)
  then show "\<exists>name required. entry c = (name, required, c) \<and> (name, required, c) \<in> set longopts \<and> (required \<or> arg = [])"
    using entries by blast
qed

lemma main_options_append:
  "main_options can_open conf (xs @ ys) =
     (case main_options can_open conf xs of Inl h \<Rightarrow> Inl h | Inr conf \<Rightarrow> main_options can_open conf ys)"
  by (induction xs arbitrary: conf) (simp_all split: sum.split)

lemma main_options_debug:
  "main_options can_open conf (map (Pair CHR ''d'') names) =
     Inr (conf\<lparr>debug_files := fold (\<lambda>f table. add_debug_to table (ascii f)) names (debug_files conf)\<rparr>)"
  by (induction names arbitrary: conf) (simp_all add: main_option_def)

lemma port_value: "word_of_int (atoi (ascii (print_nat (unat port)))) = port" for port :: u16
proof -
  have "unat port < 2 ^ 16" using unsigned_less [where 'a = nat, of port] by simp
  then have "unat port < 2 ^ 31" by simp
  then show ?thesis by (simp only: atoi_print_nat) simp
qed

section \<open>Properties\<close>

text \<open>
  C33: the command line. Every configuration with at most 64 debugged files (the size of their table) can be asked for, and however
  each option is spelled, short or long, with its argument joined or as a word of its own, \<^verbatim>\<open>main\<close> ends up with exactly that
  configuration: its ports, a table that reports just the given files as debugged, and a trace that
  goes to the given file and has just the flags asked for.
\<close>

theorem command_line_roundtrip:
  assumes "case out of None \<Rightarrow> True | Some f \<Rightarrow> can_open f" and "length names \<le> MAX_FILES_NUMBER"
  shows "\<exists>conf. main_arguments can_open (spelled sp (configuration_options gdb irq out r m s p names)) = Inr conf \<and>
    gdb_port conf = gdb \<and> irq_port conf = irq \<and>
    debug_files conf = fold (\<lambda>f table. add_debug_to table (ascii f)) names no_debug \<and>
    (\<forall>name. is_debugged (debug_files conf) name \<longleftrightarrow> name \<in> set (map ascii names)) \<and>
    (case main_trace storage conf of (stream, t) \<Rightarrow>
       stream = Some out \<and> (bit (trace_flags t) flag_REGISTERS \<longleftrightarrow> r) \<and> (bit (trace_flags t) flag_MEMORY \<longleftrightarrow> m) \<and>
       (bit (trace_flags t) flag_STATE \<longleftrightarrow> s) \<and> (bit (trace_flags t) flag_POSITION \<longleftrightarrow> p))"
proof -
  have "main_arguments can_open (spelled sp (configuration_options gdb irq out r m s p names)) =
    Inr \<lparr>gdb_port = gdb, irq_port = irq, trace_file = out,
         trace_option_flags = (if r then 2 else 0) OR (if m then 1 else 0) OR (if s then 4 else 0) OR (if p then 8 else 0),
         debug_files = fold (\<lambda>f table. add_debug_to table (ascii f)) names no_debug\<rparr>"
    unfolding main_arguments_def getopt_spelled
    using assms(1)
    by (cases out) (simp_all add: configuration_options_def main_options_append main_options_debug main_option_def
        default_configuration_def port_value or.assoc)
  moreover have "is_debugged (fold (\<lambda>f table. add_debug_to table (ascii f)) names no_debug) name \<longleftrightarrow>
      name \<in> set (map ascii names)" for name
    using is_debugged_names [of "map ascii names" name] assms(2) by (simp add: foldl_conv_fold fold_map comp_def)
  ultimately show ?thesis
    by (simp add: main_trace_def set_trace_file_def trace_add_def initial_trace_def bit_or_iff bit_numeral_simps)
qed

theorem command_line_roundtrip_witness:
  "\<exists>conf. main_arguments (\<lambda>f. f = ''out'')
       [''--gdb-port=1234'', ''-i'', ''80'', ''--trace-file'', ''out'', ''-m'', ''--trace-position'', ''--debug'', ''b.c'', ''--debug'', ''a.c''] = Inr conf \<and>
     gdb_port conf = 1234 \<and> irq_port conf = 80 \<and> is_debugged (debug_files conf) (ascii ''a.c'') \<and> bit (trace_flags (snd (main_trace (\<lambda>_. ([], 0)) conf))) flag_MEMORY"
proof -
  let ?sp = "(\<lambda>_. Long)(0 := Long_joined, 1 := Short, 3 := Short)"
  have "spelled ?sp (configuration_options 1234 80 (Some ''out'') False True False True [''b.c'', ''a.c'']) =
      [''--gdb-port=1234'', ''-i'', ''80'', ''--trace-file'', ''out'', ''-m'', ''--trace-position'', ''--debug'', ''b.c'', ''--debug'', ''a.c'']" by code_simp
  with command_line_roundtrip [of "\<lambda>f. f = ''out''" "Some ''out''" "[''b.c'', ''a.c'']" ?sp 1234 80 False True False True "\<lambda>_. ([], 0)"]
  show ?thesis by (auto simp: case_prod_beta)
qed

end
