(* ===== verification/Storage.thy ===== *)
theory Storage
  imports Main
begin

text \<open>
  The storage of the simulator: which blocks \<^verbatim>\<open>memory_create\<close>, \<^verbatim>\<open>registers_create\<close>, \<^verbatim>\<open>arm_create\<close> and
  \<^verbatim>\<open>gdb_init_data\<close> allocate and which \<^verbatim>\<open>arm_destroy\<close>, \<^verbatim>\<open>registers_destroy\<close> and \<^verbatim>\<open>memory_destroy\<close> free. A block
  is its address, 0 the null pointer. The contents of the blocks are in the theories of their components; here an access is only
  checked for the null pointer. The allocator is a parameter with the law of \<^verbatim>\<open>malloc\<close>: it fails or gives an address that is not in
  use.
\<close>

section \<open>Definitions\<close>

datatype fault = Null_access | Bad_free

type_synonym blocks = "nat list"
type_synonym allocator_fun = "blocks \<Rightarrow> nat \<Rightarrow> nat"

definition malloc :: "allocator_fun \<Rightarrow> nat \<Rightarrow> blocks \<Rightarrow> nat \<times> blocks" where
  "malloc alloc sz live = (let a = alloc live sz in (a, if a = 0 then live else a # live))"

definition free :: "nat \<Rightarrow> blocks \<Rightarrow> fault + blocks" where
  "free a live = (if a = 0 then Inr live else if a \<in> set live then Inr (remove1 a live) else Inl Bad_free)"

definition then_free :: "nat \<Rightarrow> fault + blocks \<Rightarrow> fault + blocks" where
  "then_free a x = (case x of Inl f \<Rightarrow> Inl f | Inr live \<Rightarrow> free a live)"

text \<open>The pointers in \<^verbatim>\<open>struct memory_data\<close> and \<^verbatim>\<open>struct arm_core_data\<close>, with the address of the structure.\<close>

record memory_blocks =
  mem_block :: nat
  m_block :: nat

record arm_blocks =
  arm_block :: nat
  reg_block :: nat

definition memory_create_blocks :: "allocator_fun \<Rightarrow> blocks \<Rightarrow> fault + memory_blocks \<times> blocks" where
  "memory_create_blocks alloc live =
     (let (mem, live) = malloc alloc 24 live;
          (m, live) = malloc alloc 0x20000 live
      in if mem = 0 then Inl Null_access else Inr (\<lparr>mem_block = mem, m_block = m\<rparr>, live))"

definition registers_create_blocks :: "allocator_fun \<Rightarrow> blocks \<Rightarrow> nat \<times> blocks" where
  "registers_create_blocks alloc live = malloc alloc 148 live"

text \<open>The reset of \<^verbatim>\<open>arm_create\<close> writes to the registers.\<close>

definition arm_create_blocks :: "allocator_fun \<Rightarrow> blocks \<Rightarrow> fault + arm_blocks \<times> blocks" where
  "arm_create_blocks alloc live =
     (let (p, live) = malloc alloc 24 live
      in if p \<noteq> 0 then
           let (r, live) = registers_create_blocks alloc live
           in if r = 0 then Inl Null_access else Inr (\<lparr>arm_block = p, reg_block = r\<rparr>, live)
         else Inr (\<lparr>arm_block = 0, reg_block = 0\<rparr>, live))"

definition gdb_init_blocks :: "allocator_fun \<Rightarrow> blocks \<Rightarrow> nat \<times> blocks" where
  "gdb_init_blocks alloc live = malloc alloc 1072 live"

definition registers_destroy :: "nat \<Rightarrow> blocks \<Rightarrow> fault + blocks" where
  "registers_destroy r live = free r live"

definition arm_destroy :: "arm_blocks \<Rightarrow> blocks \<Rightarrow> fault + blocks" where
  "arm_destroy p live =
     (if arm_block p = 0 then Inl Null_access else then_free (arm_block p) (registers_destroy (reg_block p) live))"

definition memory_destroy :: "memory_blocks \<Rightarrow> blocks \<Rightarrow> fault + blocks" where
  "memory_destroy mem live =
     (if mem_block mem = 0 then Inl Null_access else then_free (mem_block mem) (free (m_block mem) live))"

text \<open>
  Between creation and destruction the two listeners use the structures: a byte from the debugger other than a newline
  leads to an access to the gdb data (its socket, to ask for a retransmission, to acknowledge or to send again), a request that touches
  the processor to an access to it, and an access to a valid address of the simulated memory to one to its bytes. What a
  session does is the list of these accesses; one of them through the null pointer faults.
\<close>

datatype storage_access = Gdb_data | Processor_data | Memory_bytes

definition accessed :: "memory_blocks \<Rightarrow> arm_blocks \<Rightarrow> nat \<Rightarrow> storage_access \<Rightarrow> nat" where
  "accessed mem arm gdb a =
     (case a of Gdb_data \<Rightarrow> gdb | Processor_data \<Rightarrow> arm_block arm | Memory_bytes \<Rightarrow> m_block mem)"

text \<open>
  The calls of \<^verbatim>\<open>main\<close> and its gdb thread in their order: the gdb thread allocates its data when a connection comes, the
  session follows, and it has ended when \<^verbatim>\<open>main\<close> destroys the processor and the memory.
\<close>

definition main_blocks :: "allocator_fun \<Rightarrow> storage_access list \<Rightarrow> blocks \<Rightarrow> fault + nat \<times> blocks" where
  "main_blocks alloc session live =
     (case memory_create_blocks alloc live of
        Inl f \<Rightarrow> Inl f
      | Inr (mem, live) \<Rightarrow>
          (case arm_create_blocks alloc live of
             Inl f \<Rightarrow> Inl f
           | Inr (arm, live) \<Rightarrow>
               (let (gdb, live) = gdb_init_blocks alloc live
                in if list_ex (\<lambda>a. accessed mem arm gdb a = 0) session then Inl Null_access
                   else case arm_destroy arm live of
                     Inl f \<Rightarrow> Inl f
                   | Inr live \<Rightarrow> (case memory_destroy mem live of Inl f \<Rightarrow> Inl f | Inr live \<Rightarrow> Inr (gdb, live)))))"

section \<open>Freeing\<close>

lemma free_at: "a \<noteq> 0 \<Longrightarrow> a \<notin> set l \<Longrightarrow> free a (l @ a # rest) = Inr (l @ rest)"
  by (simp add: free_def remove1_append)

lemma destroy_blocks:
  "p \<noteq> 0 \<Longrightarrow> r \<noteq> 0 \<Longrightarrow> p \<notin> set l \<Longrightarrow> r \<notin> set l \<Longrightarrow>
   arm_destroy \<lparr>arm_block = p, reg_block = r\<rparr> (l @ r # p # live) = Inr (l @ live)"
  "mem \<noteq> 0 \<Longrightarrow> mem \<notin> set l \<Longrightarrow> memory_destroy \<lparr>mem_block = mem, m_block = 0\<rparr> (l @ mem # live) = Inr (l @ live)"
  "mem \<noteq> 0 \<Longrightarrow> m \<noteq> 0 \<Longrightarrow> mem \<notin> set l \<Longrightarrow> m \<notin> set l \<Longrightarrow>
   memory_destroy \<lparr>mem_block = mem, m_block = m\<rparr> (l @ m # mem # live) = Inr (l @ live)"
  by (simp_all add: arm_destroy_def registers_destroy_def memory_destroy_def then_free_def free_at)
    (simp add: free_def remove1_append)

section \<open>The allocator\<close>

locale allocator =
  fixes alloc :: allocator_fun
  assumes fresh: "alloc live sz \<noteq> 0 \<Longrightarrow> alloc live sz \<notin> set live"
begin

lemma malloc_fresh: "malloc alloc sz live = (a, live') \<Longrightarrow> (a = 0 \<and> live' = live) \<or> (a \<noteq> 0 \<and> a \<notin> set live \<and> live' = a # live)"
  using fresh by (auto simp: malloc_def Let_def split: if_splits)

text \<open>What \<^verbatim>\<open>main\<close> does to the storage on every outcome of its five allocations, whatever the session does.\<close>

lemma main_storage:
  "main_blocks alloc session live =
     (let (mem, l1) = malloc alloc 24 live; (m, l2) = malloc alloc 0x20000 l1;
          (p, l3) = malloc alloc 24 l2; (r, l4) = malloc alloc 148 l3; (gdb, l5) = malloc alloc 1072 l4
      in if mem = 0 \<or> p = 0 \<or> r = 0 \<or> (gdb = 0 \<and> Gdb_data \<in> set session) \<or> (m = 0 \<and> Memory_bytes \<in> set session)
         then Inl Null_access
         else Inr (gdb, if gdb = 0 then live else gdb # live))"
proof -
  obtain mem l1 m l2 p l3 r l4 gdb l5 where a: "malloc alloc 24 live = (mem, l1)" "malloc alloc 0x20000 l1 = (m, l2)"
    "malloc alloc 24 l2 = (p, l3)" "malloc alloc 148 l3 = (r, l4)" "malloc alloc 1072 l4 = (gdb, l5)"
    by (metis surj_pair)
  note fresh = malloc_fresh [OF a(1)] malloc_fresh [OF a(2)] malloc_fresh [OF a(3)] malloc_fresh [OF a(4)] malloc_fresh [OF a(5)]
  note defs = main_blocks_def memory_create_blocks_def arm_create_blocks_def registers_create_blocks_def gdb_init_blocks_def Let_def
  show ?thesis
  proof (cases "mem = 0 \<or> p = 0 \<or> r = 0 \<or> (gdb = 0 \<and> Gdb_data \<in> set session) \<or> (m = 0 \<and> Memory_bytes \<in> set session)")
    case True
    then show ?thesis
      by (cases "mem = 0"; cases "p = 0"; cases "r = 0")
        (auto simp: defs a arm_destroy_def list_ex_iff accessed_def split: prod.split intro: bexI [of _ Gdb_data] bexI [of _ Memory_bytes])
  next
    case False
    then have s: "\<not> list_ex (\<lambda>x. accessed \<lparr>mem_block = mem, m_block = m\<rparr> \<lparr>arm_block = p, reg_block = r\<rparr> gdb x = 0) session"
      by (auto simp: list_ex_iff accessed_def split: storage_access.splits)
    define l where "l = (if gdb = 0 then [] else [gdb])"
    have l: "l5 = l @ r # p # l2" "p \<notin> set l" "r \<notin> set l" "mem \<notin> set l" "m \<noteq> 0 \<Longrightarrow> m \<notin> set l"
      "l2 = (if m = 0 then mem # live else m # mem # live)"
      using False fresh by (auto simp: l_def)
    have "arm_destroy \<lparr>arm_block = p, reg_block = r\<rparr> l5 = Inr (l @ l2)"
      unfolding l(1) using False l(2,3) by (intro destroy_blocks) simp_all
    moreover have "memory_destroy \<lparr>mem_block = mem, m_block = m\<rparr> (l @ l2) = Inr (l @ live)"
      using False l(4-6) by (simp add: destroy_blocks(2,3))
    ultimately show ?thesis using False s by (simp add: defs a) (simp add: l_def)
  qed
qed

end

text \<open>An allocator with a limit on the number of blocks.\<close>

definition bounded_alloc :: "nat \<Rightarrow> allocator_fun" where
  "bounded_alloc limit live sz = (if length live < limit then Suc (fold max live 0) else 0)"

lemma fold_max: "x \<in> set xs \<Longrightarrow> x \<le> fold max xs a" for a :: nat
  by (simp add: Max.set_eq_fold [symmetric])

interpretation bounded: allocator "bounded_alloc limit" for limit
proof (unfold_locales, rule notI)
  fix live sz
  assume "bounded_alloc limit live sz \<noteq> 0" "bounded_alloc limit live sz \<in> set live"
  then show False using fold_max [of "Suc (fold max live 0)" live 0] by (auto simp: bounded_alloc_def split: if_splits)
qed


section \<open>Properties\<close>

text \<open>
  C34: storage. With any allocator and any session of the listeners, \<^verbatim>\<open>main\<close> frees no block that is not in use, none twice, and
  at its end every block it allocated for memory and processor is free again; the data of the gdb connection is the only block
  left. The results of the allocations are not checked before use: the null pointer is accessed exactly when the structure of the memory, the one of the
  processor or the registers could not be allocated, or the gdb data or the bytes of the memory could not and the session uses them.
\<close>

theorem main_frees_its_blocks:
  assumes "\<And>live sz. alloc live sz \<noteq> 0 \<Longrightarrow> alloc live sz \<notin> set live"
  shows "main_blocks alloc session live =
     (let (mem, l1) = malloc alloc 24 live; (m, l2) = malloc alloc 0x20000 l1;
          (p, l3) = malloc alloc 24 l2; (r, l4) = malloc alloc 148 l3; (gdb, l5) = malloc alloc 1072 l4
      in if mem = 0 \<or> p = 0 \<or> r = 0 \<or> (gdb = 0 \<and> Gdb_data \<in> set session) \<or> (m = 0 \<and> Memory_bytes \<in> set session)
         then Inl Null_access
         else Inr (gdb, if gdb = 0 then live else gdb # live))"
  using assms by (intro allocator.main_storage allocator.intro)

theorem main_frees_its_blocks_witness:
  "main_blocks (bounded_alloc 9) [Gdb_data, Memory_bytes] [3, 1] = Inr (8, [8, 3, 1]) \<and>
   main_blocks (bounded_alloc 6) [Gdb_data] [3, 1] = Inl Null_access \<and>
   main_blocks (bounded_alloc 6) [] [3, 1] = Inr (0, [3, 1]) \<and> main_blocks (bounded_alloc 5) [] [3, 1] = Inl Null_access"
proof -
  have "main_blocks (bounded_alloc n) session [3, 1] =
     (let (mem, l1) = malloc (bounded_alloc n) 24 [3, 1]; (m, l2) = malloc (bounded_alloc n) 0x20000 l1;
          (p, l3) = malloc (bounded_alloc n) 24 l2; (r, l4) = malloc (bounded_alloc n) 148 l3;
          (gdb, l5) = malloc (bounded_alloc n) 1072 l4
      in if mem = 0 \<or> p = 0 \<or> r = 0 \<or> (gdb = 0 \<and> Gdb_data \<in> set session) \<or> (m = 0 \<and> Memory_bytes \<in> set session)
         then Inl Null_access
         else Inr (gdb, if gdb = 0 then [3, 1] else gdb # [3, 1]))" for n session
    by (rule main_frees_its_blocks) (rule bounded.fresh)
  then show ?thesis by (simp add: malloc_def bounded_alloc_def)
qed

end
