(* ===== verification/Memory_Test.thy ===== *)
theory Memory_Test
  imports Memory
begin

text \<open>
  The test program of the memory, \<^verbatim>\<open>memory_test.c\<close>, and that its eight tests succeed on hosts of both
  endiannesses, whatever the fresh storage and the uninitialised locals hold. \<^verbatim>\<open>print_test\<close> and the headings
  only print; the model collects the results they report.
\<close>

section \<open>Definitions\<close>

text \<open>The bytes of an object of \<open>n\<close> bytes, as a pointer to bytes finds them on the host.\<close>

definition object_bytes :: "bool \<Rightarrow> nat \<Rightarrow> u32 \<Rightarrow> u8 list" where
  "object_bytes host_big n v =
     (let bytes = map (\<lambda>k. ucast (drop_bit (8 * k) v)) [0..<n] in if host_big then rev bytes else bytes)"

definition compare_index :: "nat \<Rightarrow> bool \<Rightarrow> nat \<Rightarrow> nat" where
  "compare_index sz reverse i = (if reverse then sz - 1 - i else i)"

definition compare_objects :: "u8 list \<Rightarrow> u8 list \<Rightarrow> nat \<Rightarrow> bool \<Rightarrow> bool" where
  "compare_objects a b sz reverse = list_all (\<lambda>i. a ! i = b ! compare_index sz reverse i) [0..<sz]"

primrec compare_with_sim_loop :: "u8 list \<Rightarrow> memory \<Rightarrow> nat \<Rightarrow> bool \<Rightarrow> nat list \<Rightarrow> u8 \<Rightarrow> bool" where
  "compare_with_sim_loop a m sz reverse [] value \<longleftrightarrow> True"
| "compare_with_sim_loop a m sz reverse (i # is) value \<longleftrightarrow>
     (let value = snd (memory_read_byte m (of_nat (compare_index sz reverse i)) value)
      in if a ! i \<noteq> value then False else compare_with_sim_loop a m sz reverse is value)"

definition compare_with_sim :: "u8 \<Rightarrow> u8 list \<Rightarrow> memory \<Rightarrow> nat \<Rightarrow> bool \<Rightarrow> bool" where
  "compare_with_sim junk a m sz reverse = compare_with_sim_loop a m sz reverse [0..<sz] junk"

text \<open>
  The two halves of \<^verbatim>\<open>main\<close>, each on the memories \<open>same\<close> and \<open>other\<close>, of the host's endianness
  and of the other one.
\<close>

definition write_bytes :: "u8 list \<Rightarrow> memory \<Rightarrow> memory" where
  "write_bytes bytes m = fold (\<lambda>i m. snd (memory_write_byte m (of_nat i) (bytes ! i))) [0..<4] m"

definition test_reads :: "bool \<Rightarrow> u32 \<Rightarrow> memory \<Rightarrow> memory \<Rightarrow> u32 \<Rightarrow> u16 \<Rightarrow> bool list" where
  "test_reads host_big word_value same other word_read half_read =
     (let position = object_bytes host_big 4 word_value;
          word_read = snd (memory_read_word same 0 word_read);
          r1 = compare_objects position (object_bytes host_big 4 word_read) 4 False;
          half_read = snd (memory_read_half same 0 half_read);
          r2 = compare_objects position (object_bytes host_big 2 (ucast half_read)) 2 False;
          word_read = snd (memory_read_word other 0 word_read);
          r3 = compare_objects position (object_bytes host_big 4 word_read) 4 True;
          half_read = snd (memory_read_half other 0 half_read);
          r4 = compare_objects position (object_bytes host_big 2 (ucast half_read)) 2 True
      in [r1, r2, r3, r4])"

definition test_writes :: "u8 \<Rightarrow> bool \<Rightarrow> u32 \<Rightarrow> u16 \<Rightarrow> memory \<Rightarrow> memory \<Rightarrow> bool list" where
  "test_writes junk host_big word_value half_value same other =
     (let position = object_bytes host_big 4 word_value;
          half_position = object_bytes host_big 2 (ucast half_value);
          same = snd (memory_write_word same 0 word_value);
          r1 = compare_with_sim junk position same 4 False;
          same = snd (memory_write_half same 0 half_value);
          r2 = compare_with_sim junk half_position same 2 False;
          other = snd (memory_write_word other 0 word_value);
          r3 = compare_with_sim junk position other 4 True;
          other = snd (memory_write_half other 0 half_value);
          r4 = compare_with_sim junk half_position other 2 True
      in [r1, r2, r3, r4])"

definition memory_test_main ::
  "u8 \<Rightarrow> u32 \<Rightarrow> u16 \<Rightarrow> bool \<Rightarrow> (u32 \<Rightarrow> u8) \<Rightarrow> (u32 \<Rightarrow> u8) \<Rightarrow> bool list" where
  "memory_test_main junk word_read half_read host_big heap_0 heap_1 =
     (let word_value = 0x11223344; half_value = 0x5566;
          m1 = memory_create heap_1 4 True;
          m0 = memory_create heap_0 4 False;
          position = object_bytes host_big 4 word_value;
          m0 = write_bytes position m0;
          m1 = write_bytes position m1;
          same = (if host_big then m1 else m0);
          other = (if host_big then m0 else m1)
      in test_reads host_big word_value same other word_read half_read @
         test_writes junk host_big word_value half_value same other)"

section \<open>The tests succeed\<close>

lemma memory_test_succeeds: "memory_test_main junk w h host_big heap_0 heap_1 = replicate 8 True"
proof (cases host_big)
  case True
  have "memory_test_main junk w h True heap_0 heap_1 = replicate 8 True" by code_simp
  with True show ?thesis by simp
next
  case False
  have "memory_test_main junk w h False heap_0 heap_1 = replicate 8 True" by code_simp
  with False show ?thesis by simp
qed

end
