(* ===== verification/Insertion_Sort.thy ===== *)
theory Insertion_Sort
  imports Prelude "HOL-Library.Multiset"
begin

text \<open>
  The sample program \<^verbatim>\<open>Examples/insertion_sort.c\<close>, which is compiled for the simulated processor. Its array is
  a list; an access outside it is undefined in C and gives \<open>None\<close>. The values are only compared and
  moved, so that integers stand for those of the 32-bit type. The quicksort that the file keeps in a comment is
  not part of the program.
\<close>

section \<open>Definitions\<close>

abbreviation (input) sort_N :: nat where "sort_N \<equiv> 16"

definition t_get :: "int list \<Rightarrow> int \<Rightarrow> int option" where
  "t_get t i = (if 0 \<le> i \<and> i < int (length t) then Some (t ! nat i) else None)"

definition t_set :: "int list \<Rightarrow> int \<Rightarrow> int \<Rightarrow> int list option" where
  "t_set t i v = (if 0 \<le> i \<and> i < int (length t) then Some (t[nat i := v]) else None)"

text \<open>The inner loop, with its array and its index; the outer loop and \<^verbatim>\<open>main\<close>.\<close>

function shift_loop :: "int \<Rightarrow> int list \<Rightarrow> int \<Rightarrow> (int list \<times> int) option" where
  "shift_loop p t j =
     (if j \<ge> 0 then
        case t_get t j of
          None \<Rightarrow> None
        | Some x \<Rightarrow>
            if x > p then
              case t_set t (j + 1) x of
                None \<Rightarrow> None
              | Some t' \<Rightarrow> shift_loop p t' (j - 1)
            else Some (t, j)
      else Some (t, j))"
  by pat_completeness auto
termination by (relation "measure (\<lambda>(p, t, j). nat (j + 1))") auto

declare shift_loop.simps [simp del]

definition sort_turn :: "nat \<Rightarrow> int list \<Rightarrow> int list option" where
  "sort_turn i t =
     (case t_get t (int i) of
        None \<Rightarrow> None
      | Some p \<Rightarrow>
          (case shift_loop p t (int i - 1) of
             None \<Rightarrow> None
           | Some (t, j) \<Rightarrow> t_set t (j + 1) p))"

primrec sort_turns :: "nat list \<Rightarrow> int list \<Rightarrow> int list option" where
  "sort_turns [] t = Some t"
| "sort_turns (i # is) t = (case sort_turn i t of None \<Rightarrow> None | Some t \<Rightarrow> sort_turns is t)"

definition insertion_sort :: "int list \<Rightarrow> int list option" where
  "insertion_sort t = sort_turns [1..<length t] t"

definition sort_main :: "int \<times> int list option" where
  "sort_main = (0, insertion_sort [5, 16, 8, 8192, 54, 8, 4096, 9, - 6, 65, 2, - 1337, 1024, 2048, 1, 7])"

section \<open>One insertion\<close>

text \<open>
  The array is the sorted part \<open>ys\<close>, the position that is free for moving, and the rest. What the inner loop
  leaves, with \<open>p\<close> put where it stopped, is \<open>place p ys\<close> before the rest.
\<close>

definition place :: "int \<Rightarrow> int list \<Rightarrow> int list" where
  "place p ys = rev (takeWhile (\<lambda>y. y > p) (rev ys) @ p # dropWhile (\<lambda>y. y > p) (rev ys))"

lemma place_Nil [simp]: "place p [] = [p]"
  by (simp add: place_def)

lemma place_snoc [simp]: "place p (ys @ [y]) = (if y > p then place p ys @ [y] else ys @ [y, p])"
  by (simp add: place_def)

lemma length_place [simp]: "length (place p ys) = Suc (length ys)"
  by (induction ys rule: rev_induct) simp_all

lemma mset_place: "mset (place p ys) = add_mset p (mset ys)"
  by (induction ys rule: rev_induct) simp_all

lemma sorted_place: "sorted ys \<Longrightarrow> sorted (place p ys)"
proof (induction ys rule: rev_induct)
  case (snoc y ys)
  have "set (place p ys) = insert p (set ys)"
    by (metis mset_place set_mset_mset set_mset_add_mset_insert)
  with snoc show ?case by (auto simp: sorted_append)
qed simp

lemma shift_loop_place:
  "\<exists>t j. shift_loop p (ys @ x # rest) (int (length ys) - 1) = Some (t, j) \<and> t_set t (j + 1) p = Some (place p ys @ rest)"
proof (induction ys arbitrary: x rest rule: rev_induct)
  case Nil
  then show ?case by (simp add: shift_loop.simps t_set_def)
next
  case (snoc y ys)
  let ?t = "ys @ y # x # rest"
  have get: "t_get ?t (int (length ys)) = Some y" by (simp add: t_get_def)
  show ?case
  proof (cases "y > p")
    case True
    have "t_set ?t (int (length ys) + 1) y = Some (ys @ y # y # rest)"
      by (simp add: t_set_def nat_add_distrib list_update_append)
    with True get snoc.IH [of y "y # rest"] show ?thesis
      by (simp add: shift_loop.simps [of p ?t])
  next
    case False
    with get show ?thesis
      by (simp add: shift_loop.simps [of p ?t] t_set_def nat_add_distrib list_update_append)
  qed
qed

lemma sort_turn_place: "sort_turn (length ys) (ys @ p # rest) = Some (place p ys @ rest)"
proof -
  have "t_get (ys @ p # rest) (int (length ys)) = Some p" by (simp add: t_get_def)
  then show ?thesis using shift_loop_place [of p ys p rest] by (auto simp: sort_turn_def)
qed

lemma sort_turns_sorted:
  "sorted ys \<Longrightarrow> \<exists>t. sort_turns [length ys..<length ys + length rest] (ys @ rest) = Some t \<and> sorted t \<and>
     mset t = mset ys + mset rest"
proof (induction rest arbitrary: ys)
  case (Cons p rest)
  have "[length ys..<length ys + length (p # rest)] = length ys # [Suc (length ys)..<Suc (length ys) + length rest]"
    by (simp add: upt_rec)
  then show ?case
    using Cons.IH [OF sorted_place [OF Cons.prems, of p]] by (simp add: sort_turn_place mset_place)
qed simp

section \<open>Properties\<close>

text \<open>
  C39: the sample program sorts. On an array of any length the two loops end without an access outside the array, and
  leave its elements in ascending order.
\<close>

theorem insertion_sort_sorts:
  "\<exists>t'. insertion_sort t = Some t' \<and> sorted t' \<and> mset t' = mset t"
proof (cases t)
  case Nil
  then show ?thesis by (simp add: insertion_sort_def)
next
  case (Cons x rest)
  then show ?thesis using sort_turns_sorted [of "[x]" rest] by (simp add: insertion_sort_def)
qed

lemma sort_main_result:
  "sort_main = (0, Some [- 1337, - 6, 1, 2, 5, 7, 8, 8, 9, 16, 54, 65, 1024, 2048, 4096, 8192])"
  by code_simp

end
