(* ===== verification/Spec2Isabelle.thy ===== *)
theory Spec2Isabelle
  imports Csapp Gdb_Wire Gdb_Refinement Traced_Session Command_Line Storage Memory_Test Insertion_Sort
begin

text \<open>
  \<^bold>\<open>Verification of the ARMv5 simulator in\<close> \<^verbatim>\<open>src/arm_simulator-1.4\<close>

  \<^bold>\<open>The program.\<close> The simulator executes ARM code on a memory block and a register block. One
  thread serves a gdb client: a scanner cuts the byte stream into packets, the protocol handler
  reads and writes registers and memory and steps the processor. A second thread receives bytes from
  the program \<^verbatim>\<open>send_irq\<close> and raises an exception for each of them. A lock is held during each
  request. A step fetches the word at the PC, tests its condition, decodes it and calls one of the
  handlers (data processing, load/store, branch, others); a result other than 0 is an exception
  number, which is then raised. Register and memory accesses go through the accessors of
  \<^verbatim>\<open>arm_core.c\<close>, which also write a trace.

  \<^bold>\<open>Conventions.\<close> Fixed-width integers of C are words of the same width, return codes are \<open>int\<close>, the
  end of the process is \<open>Inl (Exit n)\<close> or \<open>Inl Abort\<close> (a signal). \<open>Inl Undefined\<close> is no end the program means: it has written past an
  array or used freed storage, and from there on nothing is said of it. Objects that C reaches through pointers are
  passed in and returned. Memory and register blocks are total functions, wider than the storage
  the program allocates, so that an access outside it is a visible event and its absence
  a theorem. What the C standard leaves open (shift counts outside the width, locals read before
  they are written) or what lies behind a received packet is a field of the record \<open>cenv\<close>; theorems quantify over it, except where
  they state what happens on x86 (\<open>x86_env\<close>).

  \<^bold>\<open>Theories, in the order of the calls.\<close>

  \<^item> \<open>Prelude\<close>: types, \<open>halt\<close>, \<open>cenv\<close>, the named collections of simplification rules, bit lemmas;
    the locale \<open>masking_shifts\<close> of platforms that take shift counts modulo 32.
  \<^item> \<open>Arm_Constants\<close> (\<^verbatim>\<open>arm_constants.h\<close>, \<^verbatim>\<open>arm_constants.c\<close>) and \<open>Arm_Util\<close>
    (\<^verbatim>\<open>util.h\<close>, \<^verbatim>\<open>util.c\<close>): \<open>ror\<close> is the rotation and \<open>asr\<close> the division rounding down.
  \<^item> \<open>Memory\<close> (\<^verbatim>\<open>memory.c\<close>): outcome of every access, round trips for both endiannesses, no
    store outside the block, reads that do leave it. The locale \<open>sized_access\<close> states the contract
    of a read and a write of one size; bytes, halves and words are its interpretations.
  \<^item> \<open>Registers\<close> (\<^verbatim>\<open>registers.c\<close>): the 37-word layout refines the banked registers of the
    architecture (\<open>arch_reg\<close>, \<open>arch_spsr\<close>); the locale \<open>register_view\<close> is the contract
    shared by the current mode's registers and the user registers.
  \<^item> \<open>Arm_Core\<close> (\<^verbatim>\<open>arm_core.c\<close>): the processor record, accessors, \<open>arm_fetch\<close>.
    \<open>Arm_Exception\<close> (\<^verbatim>\<open>arm_exception.c\<close>, \<^verbatim>\<open>arm_create\<close>): entry into exceptions and
    the state after reset, and how the entry differs from the architecture's.
  \<^item> \<open>Arm_Shifter\<close> (\<^verbatim>\<open>shifter_operand\<close> of \<^verbatim>\<open>arm_instruction.c\<close>): agreement with the
    architecture's table of shifts where it holds, and where it does not.
  \<^item> \<open>Arm_Branch_Other\<close>, \<open>Arm_Data_Processing\<close>, \<open>Arm_Load_Store\<close> (the files of these names): one
    definition per handler, its result and its flags, targets, addresses and write-back on every
    branch; a push followed by a pop restores registers and base.
  \<^item> \<open>Arm_Confined\<close>: the relation \<open>confined\<close> between processor states and that each handler stays
    in it. \<open>Arm_Instruction\<close> (\<^verbatim>\<open>arm_instruction.c\<close>): condition, decoding, step; the outcome of a
    step; the conditions after a comparison.
  \<^item> \<open>Arm_Flags\<close>: the four flags the architecture defines for each of the sixteen opcodes, and the condition on
    operands and carries under which the simulator sets them so (for thirteen opcodes an equivalence).
  \<^item> \<open>Arm_Reference\<close>: a reference semantics of the architecture, with its own state (banked registers and SPSRs,
    partial byte memory), decoder, flags and conditions, and the predicate \<open>agreed\<close> on its states. It covers
    the sixteen data processing opcodes with constants and with registers shifted by constants or registers, the return
    from an exception, branches, single transfers of words, halves and bytes with constant or shifted offset in the three
    indexing modes, block transfers and moves from the status words. \<open>Arm_Refinement\<close>: the step of the simulator,
    abstracted by \<open>arch_of\<close>, is the reference step in every state of agreement; the locale
    \<open>stepwise_refinement\<close> carries this over to runs.
  \<^item> \<open>C_Strings\<close>: the string functions of the C library the protocol uses. \<open>Gdb_Protocol\<close>
    (\<^verbatim>\<open>gdb_protocol.c\<close>) holds the packet handlers, \<open>Gdb_Proofs\<close> their round trips, the stop at
    breakpoints, and that every packet is confined. A reply that does not fit in the 1024 bytes of the packet array is
    \<open>Undefined\<close>; the round trips hold for the sizes that fit. \<open>Gdb_Refinement\<close>: a debugger that continues to a breakpoint
    and reads the registers sees those of the reference machine.
  \<^item> \<open>Scanner\<close> (\<^verbatim>\<open>scanner.l\<close>): the rules as a predicate on lexemes with the longest-match reading of
    flex (\<open>flex_match\<close>), an executable scanner that agrees with it, the actions and the error
    buffer; texts are recovered from tokens and tokens from texts, noise changes nothing but the output.
  \<^item> \<open>Debug_Table\<close> (\<^verbatim>\<open>debug.c\<close>, \<^verbatim>\<open>debug.h\<close>): insertion, bisection, the cached flag, the messages.
    \<open>Memory_Test\<close> (\<^verbatim>\<open>memory_test.c\<close>): the eight tests and that they succeed. \<open>Insertion_Sort\<close>
    (\<^verbatim>\<open>Examples/insertion_sort.c\<close>): the loops stay in the array, end, and sort it.
  \<^item> \<open>Arm_Trace\<close> (\<^verbatim>\<open>trace.c\<close> and the traced accessors of \<^verbatim>\<open>arm_core.c\<close>): each traced
    accessor computes what the accessor of \<open>Arm_Core\<close> computes and leaves the location stack as
    it found it; the locale \<open>traced_operation\<close> is that contract. \<open>Traced_Step\<close>: the whole step over the
    traced accessors, with the source position of every call, in the state monad; erased, it is the step of
    \<open>Arm_Instruction\<close>. \<open>Arm_Print\<close> (\<^verbatim>\<open>arm_print_state\<close>): the text of a state report and exactly what it shows.
    \<open>Trace_Text\<close> (\<^verbatim>\<open>trace.c\<close>): the text of the trace in both formats, and a reader that recovers every event from it if no
    state reports are mixed in.
  \<^item> \<open>Simulator\<close> (\<^verbatim>\<open>send_irq.c\<close>, \<^verbatim>\<open>arm_simulator.c\<close>): the search for an exception by name, the
    options, the creation of the simulator.
  \<^item> \<open>Threads\<close> (\<^verbatim>\<open>arm_simulator.c\<close>, \<^verbatim>\<open>gdb_packet_analysis\<close>): the two listeners and \<^verbatim>\<open>main\<close> as a step
    relation with the lock. A listener takes the lock, reads the processor, leaves its result and
    releases the lock in four steps. A write after \<^verbatim>\<open>kill_request\<close> has shut the connection down ends the process by its
    signal, and a listener that touches the processor after \<^verbatim>\<open>main\<close> freed it comes to \<open>Undefined\<close>. Mutual exclusion,
    linearizability (every run is a sequence of whole
    requests), bounds of the error buffer, progress with a bound on the waiting, and what a
    command to continue does to interrupts. \<open>Gdb_Wire\<close>: if no request asks for more than 509 bytes of memory, then in every reachable state all
    the server has written are well-formed
    messages that fit in its packet array (locale \<open>reply_language\<close>), memory and registers are confined to their blocks, and
    the only undefined behaviour left is the use of the freed processor.
  \<^item> \<open>Traced_Session\<close>: the handlers of \<^verbatim>\<open>gdb_protocol.c\<close>, the loop of \<^verbatim>\<open>cont\<close>, the requests of both listeners and the
    creation of the processor with their trace calls. Every sequence of whole requests has the same states with the trace and without;
    the relation \<open>logs\<close> says what it adds to the trace, in particular one line per executed instruction, numbered by the
    cycle counter. The locale \<open>traced_request\<close> is the contract of one request; its interpretations are the commands to
    continue and to step, the handlers, the tokens of the scanner and the interrupts.
  \<^item> \<open>Command_Line\<close> (\<^verbatim>\<open>main\<close>, \<^verbatim>\<open>usage\<close>): from the arguments through \<^verbatim>\<open>getopt_long\<close> to the configuration and the trace;
    every configuration with at most 64 debugged files is reached by each spelling of its options.
  \<^item> \<open>Storage\<close> (\<^verbatim>\<open>memory.c\<close>, \<^verbatim>\<open>registers.c\<close>, \<^verbatim>\<open>arm_core.c\<close>): the blocks that are allocated and freed, over the locale
    \<open>allocator\<close> with the law of \<^verbatim>\<open>malloc\<close>; what is left, and which accesses of a session fail when storage runs out.
  \<^item> \<open>Rio\<close> and \<open>Csapp\<close> (\<^verbatim>\<open>csapp.c\<close>): reading and writing with short counts and interrupted calls;
    the wrappers as functions of the system's result; the creation of a server, the program
    \<^verbatim>\<open>send_irq\<close> and the openers of sockets as programs of system calls (\<open>prog\<close>), run on a list of answers.

  \<^bold>\<open>Loops.\<close> Loops with a fixed range are folds or structural recursion; the others are functions with
  a termination proof. The gdb command \<^verbatim>\<open>c\<close> runs the simulated program until a breakpoint and
  may never return: it is a \<open>partial_function (option)\<close>, and that it returns when a breakpoint is
  reached is proved as such. Each of its turns has its own \<open>cenv\<close>. The routines of \<open>Rio\<close> take
  the list of the system's answers; each answer is used by one turn, and a list in which the system
  makes progress is shown to be long enough.

  \<^bold>\<open>The C library.\<close> What the source uses of it is modelled where it matters: strings, \<^verbatim>\<open>sscanf\<close>, \<^verbatim>\<open>atoi\<close> and the conversions
  of \<^verbatim>\<open>printf\<close> (\<open>C_Strings\<close>, \<open>Arm_Print\<close>), \<^verbatim>\<open>getopt_long\<close> (\<open>Command_Line\<close>). The allocator and the answers of system
  calls are parameters.

  \<^bold>\<open>Not modelled.\<close> The automaton flex generates (the model is what the rules mean); the text of
  the remaining \<^verbatim>\<open>printf\<close> and \<^verbatim>\<open>perror\<close> calls; the effect of system calls on the system; \<^verbatim>\<open>arm_init\<close>, which is
  empty; the sample programs in assembler; the usage text of \<^verbatim>\<open>send_irq\<close>. In \<open>csapp.c\<close> the wrappers are functions of the
  system's result, not of the system. The effect of a request on the shared processor appears when its handler returns: the lock
  keeps the other listener out meanwhile, so that no thread can tell, but the states inside a request are not states of
  \<open>Threads\<close>; those of a command to continue are the states of \<open>run\<close> in \<open>Gdb_Proofs\<close>. The location stack of the trace and the
  table of debugged files are functions without the bounds of their arrays (128 and 64); theorems state that the
  program stays within two entries of the one (\<open>traced_session_faithful\<close>) and assume it of the other. What is left of the files are declarations, includes and comments.

  \<^bold>\<open>Limits of the refinement.\<close> The reference semantics has no entry into exceptions: the simulator stores the return state in
  another bank, with another address, clears the flags, and drops most exceptions (\<open>exception_return_state\<close>,
  \<open>exception_link_too_far\<close>, \<open>exception_clears_flags\<close>, \<open>step_outcome\<close>), so that no state of agreement could be named. Loads of
  halves and bytes are outside \<open>agreed\<close>, because the upper part of the register is what an uninitialised variable held;
  stores of every width are inside. User-mode transfers are left out.
\<close>

end
